(* ===== verification/Prelude.thy ===== *)
theory Prelude
  imports Main "HOL-Library.Char_ord" "HOL-Library.List_Lexorder" "HOL-Library.Product_Lexorder"
begin

text \<open>
  What every component shares: Go's 64-bit integers, loops that stop at the first error,
  the contract of a validator, and reachability of a step relation with its invariant rule.
  A Go \<open>string\<close> is a sequence of bytes, which is what HOL's \<open>string\<close> is: a list of
  \<open>char\<close>, each one byte. \<open><\<close> on strings is the bytewise lexicographic order Go uses.
  A Go \<open>error\<close> result is \<open>'e option\<close> (\<open>None\<close> is \<open>nil\<close>), and a
  \<open>(T, error)\<close> result is \<open>'e + 'a\<close> with the error on the left.
\<close>

section \<open>Go integers\<close>

text \<open>
  An \<open>int64\<close> is an \<open>int\<close> brought back into range after each addition, as two's
  complement wraps it.
\<close>

definition i64 :: "int \<Rightarrow> int" where
  "i64 x = (x + 2 ^ 63) mod 2 ^ 64 - 2 ^ 63"

abbreviation max_i64 :: int where
  "max_i64 \<equiv> 9223372036854775807"

lemma i64_id: "- max_i64 \<le> x \<Longrightarrow> x \<le> max_i64 \<Longrightarrow> i64 x = x"
  by (simp add: i64_def)

lemma i64_le: "i64 x \<le> max_i64"
  using pos_mod_bound [of "2 ^ 64" "x + 2 ^ 63"] by (simp add: i64_def)

lemma i64_overflow: "i64 (max_i64 + 1) = - max_i64 - 1"
  by (simp add: i64_def)

section \<open>Errors\<close>

text \<open>A loop \<open>for _, x := range xs { if err := f(x); err != nil { return err } }\<close>.\<close>

fun first_err :: "('a \<Rightarrow> 'e option) \<Rightarrow> 'a list \<Rightarrow> 'e option" where
  "first_err f [] = None"
| "first_err f (x # xs) = (case f x of Some e \<Rightarrow> Some e | None \<Rightarrow> first_err f xs)"

text \<open>\<open>v, err := a; if err != nil { return err }\<close>, then the rest.\<close>

fun bind_err :: "'e + 'a \<Rightarrow> ('a \<Rightarrow> 'e + 'b) \<Rightarrow> 'e + 'b" where
  "bind_err (Inl e) f = Inl e"
| "bind_err (Inr x) f = f x"

lemma bind_err_Inr_iff: "bind_err m f = Inr y \<longleftrightarrow> (\<exists>x. m = Inr x \<and> f x = Inr y)"
  by (cases m) auto

lemma bind_err_Inl_iff:
  "bind_err m f = Inl e \<longleftrightarrow> m = Inl e \<or> (\<exists>x. m = Inr x \<and> f x = Inl e)"
  by (cases m) auto

lemmas bind_err_iffs = bind_err_Inr_iff bind_err_Inl_iff

lemma first_err_append:
  "first_err f (xs @ ys) = (case first_err f xs of Some e \<Rightarrow> Some e | None \<Rightarrow> first_err f ys)"
  by (induction xs) (auto split: option.splits)

text \<open>
  A validator returns an error exactly for the values that are not good; what it says of one
  value, a loop over it says of a list.
\<close>

locale validator =
  fixes check :: "'a \<Rightarrow> 'e option"
    and good :: "'a \<Rightarrow> bool"
  assumes check_None: "check x = None \<longleftrightarrow> good x"
begin

lemma first_err_None: "first_err check xs = None \<longleftrightarrow> list_all good xs"
  by (induction xs) (auto simp: check_None [symmetric] split: option.splits)

lemma first_err_first:
  assumes "first_err check xs = Some e"
  shows "\<exists>ys y zs. xs = ys @ y # zs \<and> list_all good ys \<and> check y = Some e"
  using assms
proof (induction xs)
  case Nil
  then show ?case by simp
next
  case (Cons x xs)
  show ?case
  proof (cases "check x")
    case None
    with Cons obtain ys y zs where "xs = ys @ y # zs" "list_all good ys" "check y = Some e"
      by auto
    with None have "x # xs = (x # ys) @ y # zs \<and> list_all good (x # ys) \<and> check y = Some e"
      by (simp add: check_None)
    then show ?thesis by blast
  next
    case (Some e')
    with Cons.prems have "x # xs = [] @ x # xs \<and> list_all good [] \<and> check x = Some e"
      by simp
    then show ?thesis by blast
  qed
qed

end

section \<open>Reachable states\<close>

inductive reachable :: "('s \<Rightarrow> bool) \<Rightarrow> ('s \<Rightarrow> 's \<Rightarrow> bool) \<Rightarrow> 's \<Rightarrow> bool"
  for init :: "'s \<Rightarrow> bool" and step :: "'s \<Rightarrow> 's \<Rightarrow> bool" where
  reach_init: "init s \<Longrightarrow> reachable init step s"
| reach_step: "reachable init step s \<Longrightarrow> step s t \<Longrightarrow> reachable init step t"

text \<open>A state machine with an invariant: it holds at the start and every step keeps it.\<close>

locale machine =
  fixes init :: "'s \<Rightarrow> bool"
    and step :: "'s \<Rightarrow> 's \<Rightarrow> bool"
    and inv :: "'s \<Rightarrow> bool"
  assumes inv_init: "init s \<Longrightarrow> inv s"
    and inv_step: "inv s \<Longrightarrow> step s t \<Longrightarrow> inv t"
begin

lemma reachable_inv: "reachable init step s \<Longrightarrow> inv s"
  by (induction rule: reachable.induct) (auto intro: inv_init inv_step)

lemma steps_inv: "step\<^sup>*\<^sup>* s t \<Longrightarrow> inv s \<Longrightarrow> inv t"
  by (induction rule: rtranclp_induct) (auto intro: inv_step)

end

section \<open>Lists\<close>

lemma list_all_not_ex: "list_all P xs \<longleftrightarrow> \<not> list_ex (\<lambda>x. \<not> P x) xs"
  by (simp add: list_all_iff list_ex_iff)

lemma sum_list_le_bound: "(\<And>x. x \<in> set xs \<Longrightarrow> f x \<le> (b::nat)) \<Longrightarrow> sum_list (map f xs) \<le> length xs * b"
  by (induction xs) (auto intro!: add_mono)

end
