(* ===== verification/Names.thy ===== *)
theory Names
  imports Prelude
begin

text \<open>
  Package names (\<open>internal/names\<close>): the rule for a name (an event type, a tag name, a
  projection type) and the rule for a value (a tag value, a projection id).
\<close>

definition MaxNameLength :: nat where "MaxNameLength = 128"

definition MaxValueLength :: nat where "MaxValueLength = 255"

text \<open>The switch on one byte of a name.\<close>

definition name_byte :: "char \<Rightarrow> bool" where
  "name_byte c \<longleftrightarrow>
     (CHR ''a'' \<le> c \<and> c \<le> CHR ''z'') \<or> (CHR ''A'' \<le> c \<and> c \<le> CHR ''Z'') \<or>
     (CHR ''0'' \<le> c \<and> c \<le> CHR ''9'') \<or>
     c = CHR ''-'' \<or> c = CHR ''_'' \<or> c = CHR ''.'' \<or> c = CHR '':'' \<or> c = CHR ''@'' \<or> c = CHR ''/''"

definition value_byte :: "char \<Rightarrow> bool" where
  "value_byte c \<longleftrightarrow> \<not> (c < CHR 0x20 \<or> c = CHR 0x7f)"

definition ValidName :: "string \<Rightarrow> bool" where
  "ValidName s =
     (if length s = 0 \<or> length s > MaxNameLength then False else list_all name_byte s)"

definition ValidValue :: "string \<Rightarrow> bool" where
  "ValidValue s =
     (if length s = 0 \<or> length s > MaxValueLength then False else list_all value_byte s)"

lemma char_less_code: "c < d \<longleftrightarrow> (of_char c :: nat) < of_char d"
  by (simp add: less_char_def)

lemma char_le_code: "c \<le> d \<longleftrightarrow> (of_char c :: nat) \<le> of_char d"
  by (simp add: less_eq_char_def)

text \<open>Every byte of a name is printable ASCII, from \<open>-\<close> (0x2d) to \<open>z\<close> (0x7a).\<close>

lemma name_byte_range: "name_byte c \<Longrightarrow> 0x2d \<le> (of_char c :: nat) \<and> of_char c \<le> (0x7a :: nat)"
  by (auto simp: name_byte_def char_le_code)

lemma name_byte_value_byte: "name_byte c \<Longrightarrow> value_byte c"
  using name_byte_range [of c] by (auto simp: value_byte_def char_less_code)

lemma ValidName_list_all: "ValidName s \<Longrightarrow> list_all name_byte s"
  by (simp add: ValidName_def split: if_splits)

lemma ValidName_length: "ValidName s \<Longrightarrow> 0 < length s \<and> length s \<le> 128"
  by (auto simp: ValidName_def MaxNameLength_def split: if_splits)

lemma ValidValue_length: "ValidValue s \<Longrightarrow> 0 < length s \<and> length s \<le> 255"
  by (auto simp: ValidValue_def MaxValueLength_def split: if_splits)

lemma ValidName_imp_ValidValue: "ValidName s \<Longrightarrow> ValidValue s"
  using ValidName_length [of s] ValidName_list_all [of s]
  by (auto simp: ValidValue_def MaxValueLength_def list_all_iff name_byte_value_byte)

end
