(* ===== verification/Gotime.thy ===== *)
theory Gotime
  imports Names
begin

text \<open>
  Times. A \<open>time.Time\<close> in UTC, at the microsecond precision the server keeps
  (\<open>dcb.Now\<close>), is the number of microseconds since January 1 of year 1: Go's zero time is 0.
  \<open>format_time\<close> is \<open>Format(dcb.TimeLayout)\<close> of such a time.
\<close>

type_synonym gotime = int

definition IsZero :: "gotime \<Rightarrow> bool" where
  "IsZero t \<longleftrightarrow> t = 0"

definition us_per_day :: int where "us_per_day = 86400000000"

text \<open>The days before each month of a common year, and of a leap year.\<close>

definition days_before :: "bool \<Rightarrow> int list" where
  "days_before leap =
     (if leap then [0, 31, 60, 91, 121, 152, 182, 213, 244, 274, 305, 335]
      else [0, 31, 59, 90, 120, 151, 181, 212, 243, 273, 304, 334])"

definition month_day :: "bool \<Rightarrow> int \<Rightarrow> int \<times> int" where
  "month_day leap yday =
     (let ms = takeWhile (\<lambda>d. d \<le> yday) (days_before leap)
      in (int (length ms), yday - last ms + 1))"

text \<open>The proleptic Gregorian date of a day counted from January 1 of year 1.\<close>

definition civil :: "int \<Rightarrow> int \<times> int \<times> int" where
  "civil d =
     (let n400 = d div 146097; d1 = d mod 146097;
          n100 = min 3 (d1 div 36524); d2 = d1 - 36524 * n100;
          n4 = d2 div 1461; d3 = d2 - 1461 * n4;
          n1 = min 3 (d3 div 365); yday = d3 - 365 * n1;
          leap = (n1 = 3 \<and> (n4 \<noteq> 24 \<or> n100 = 3));
          (m, day) = month_day leap yday
      in (400 * n400 + 100 * n100 + 4 * n4 + n1 + 1, m, day))"

definition digit :: "int \<Rightarrow> char" where
  "digit n = ''0123456789'' ! nat (n mod 10)"

text \<open>The last \<open>k\<close> decimal digits.\<close>

fun pad :: "nat \<Rightarrow> int \<Rightarrow> string" where
  "pad 0 n = []"
| "pad (Suc k) n = pad k (n div 10) @ [digit n]"

definition format_time :: "gotime \<Rightarrow> string" where
  "format_time t =
     (let (y, m, d) = civil (t div us_per_day); us = t mod us_per_day
      in pad 4 y @ ''-'' @ pad 2 m @ ''-'' @ pad 2 d @ ''T'' @
         pad 2 (us div 3600000000) @ '':'' @ pad 2 (us div 60000000 mod 60) @ '':'' @
         pad 2 (us div 1000000 mod 60) @ ''.'' @ pad 6 (us mod 1000000) @ ''Z'')"

lemma length_pad [simp]: "length (pad k n) = k"
  by (induction k arbitrary: n) auto

lemma digit_byte: "digit n \<in> set ''0123456789''"
  unfolding digit_def by (rule nth_mem) (simp add: nat_less_iff)

lemma pad_digits: "c \<in> set (pad k n) \<Longrightarrow> c \<in> set ''0123456789''"
proof (induction k arbitrary: n)
  case (Suc k)
  then consider "c \<in> set (pad k (n div 10))" | "c = digit n" by auto
  then show ?case using Suc.IH digit_byte by cases blast+
qed simp

text \<open>The text of a time has a fixed width: 27 bytes.\<close>

lemma format_time_length: "length (format_time t) = 27"
  by (auto simp: format_time_def Let_def split: prod.splits)

lemma format_time_example: "format_time 63923869385123456 = ''2026-09-01T14:23:05.123456Z''"
  by code_simp

end
