(* ===== verification/Utf8.thy ===== *)
theory Utf8
  imports Names
begin

text \<open>
  What the source uses of Go's \<open>unicode/utf8\<close>: \<open>DecodeRuneInString\<close>, which reads the
  first rune of a string and its width, and gives \<open>(RuneError, 1)\<close> for a byte that begins
  no valid encoding; and \<open>AppendRune\<close>, its inverse. Both work on bytes.
\<close>

definition bc :: "char \<Rightarrow> nat" where
  "bc c = of_char c"

definition byte :: "nat \<Rightarrow> char" where
  "byte n = char_of n"

lemma bc_less [simp]: "bc c < 256"
  by (simp add: bc_def)

lemma byte_bc [simp]: "byte (bc c) = c"
  by (simp add: bc_def byte_def)

lemma bc_byte: "n < 256 \<Longrightarrow> bc (byte n) = n"
  by (simp add: bc_def byte_def)

lemma bc_inject [simp]: "bc c = bc d \<longleftrightarrow> c = d"
  by (metis byte_bc)

definition RuneError :: nat where "RuneError = 0xFFFD"

text \<open>A byte within the range a second, third or fourth byte may take.\<close>

definition in_range :: "nat \<Rightarrow> nat \<Rightarrow> char \<Rightarrow> bool" where
  "in_range lo hi c \<longleftrightarrow> lo \<le> bc c \<and> bc c \<le> hi"

definition decode2 :: "nat \<Rightarrow> string \<Rightarrow> nat \<times> nat" where
  "decode2 b s = (case s of
     c1 # _ \<Rightarrow>
       (if in_range 0x80 0xBF c1 then ((b mod 32) * 64 + bc c1 mod 64, 2) else (RuneError, 1))
   | _ \<Rightarrow> (RuneError, 1))"

definition decode3 :: "nat \<Rightarrow> string \<Rightarrow> nat \<times> nat" where
  "decode3 b s = (case s of
     c1 # c2 # _ \<Rightarrow>
       (if in_range (if b = 0xE0 then 0xA0 else 0x80) (if b = 0xED then 0x9F else 0xBF) c1
           \<and> in_range 0x80 0xBF c2
        then ((b mod 16) * 4096 + (bc c1 mod 64) * 64 + bc c2 mod 64, 3) else (RuneError, 1))
   | _ \<Rightarrow> (RuneError, 1))"

definition decode4 :: "nat \<Rightarrow> string \<Rightarrow> nat \<times> nat" where
  "decode4 b s = (case s of
     c1 # c2 # c3 # _ \<Rightarrow>
       (if in_range (if b = 0xF0 then 0x90 else 0x80) (if b = 0xF4 then 0x8F else 0xBF) c1
           \<and> in_range 0x80 0xBF c2 \<and> in_range 0x80 0xBF c3
        then ((b mod 8) * 262144 + (bc c1 mod 64) * 4096 + (bc c2 mod 64) * 64 + bc c3 mod 64, 4)
        else (RuneError, 1))
   | _ \<Rightarrow> (RuneError, 1))"

fun DecodeRune :: "string \<Rightarrow> nat \<times> nat" where
  "DecodeRune [] = (RuneError, 0)"
| "DecodeRune (c # s) = (let b = bc c in
     if b < 0x80 then (b, 1)
     else if 0xC2 \<le> b \<and> b \<le> 0xDF then decode2 b s
     else if 0xE0 \<le> b \<and> b \<le> 0xEF then decode3 b s
     else if 0xF0 \<le> b \<and> b \<le> 0xF4 then decode4 b s
     else (RuneError, 1))"

lemmas decode_defs = decode2_def decode3_def decode4_def

lemma DecodeRune_size:
  "s \<noteq> [] \<Longrightarrow> 1 \<le> snd (DecodeRune s) \<and> snd (DecodeRune s) \<le> length s"
  by (cases s) (auto simp: decode_defs Let_def split: list.splits)

definition EncodeRune :: "nat \<Rightarrow> string" where
  "EncodeRune r =
     (if r < 0x80 then [byte r]
      else if r < 0x800 then [byte (0xC0 + r div 64), byte (0x80 + r mod 64)]
      else if r < 0x10000 then
        [byte (0xE0 + r div 4096), byte (0x80 + r div 64 mod 64), byte (0x80 + r mod 64)]
      else [byte (0xF0 + r div 262144), byte (0x80 + r div 4096 mod 64),
            byte (0x80 + r div 64 mod 64), byte (0x80 + r mod 64)])"

lemma mod_lead: "k * m \<le> (b::nat) \<Longrightarrow> b - k * m < m \<Longrightarrow> b mod m = b - k * m"
  using mod_mult_self1 [of "b - k * m" k m] by simp
lemma lead_mods:
  fixes b :: nat
  shows "224 \<le> b \<Longrightarrow> b \<le> 239 \<Longrightarrow> b mod 16 = b - 224"
    and "192 \<le> b \<Longrightarrow> b \<le> 223 \<Longrightarrow> b mod 32 = b - 192"
    and "240 \<le> b \<Longrightarrow> b \<le> 247 \<Longrightarrow> b mod 8 = b - 240"
    and "128 \<le> b \<Longrightarrow> b \<le> 191 \<Longrightarrow> b mod 64 = b - 128"
  using mod_lead [of 14 16 b] mod_lead [of 6 32 b] mod_lead [of 30 8 b] mod_lead [of 2 64 b] by auto
lemma digits64:
  assumes "(z::nat) < 64" "y < 64" "w < 64"
  shows "(x * 64 + z) div 64 = x" "(x * 64 + z) mod 64 = z"
    "(x * 4096 + y * 64 + z) div 4096 = x" "(x * 4096 + y * 64 + z) div 64 mod 64 = y" "(x * 4096 + y * 64 + z) mod 64 = z"
    "(x * 262144 + w * 4096 + y * 64 + z) div 262144 = x"
    "(x * 262144 + w * 4096 + y * 64 + z) div 4096 mod 64 = w"
    "(x * 262144 + w * 4096 + y * 64 + z) div 64 mod 64 = y"
    "(x * 262144 + w * 4096 + y * 64 + z) mod 64 = z"
proof -
  have a: "(q * 64 + z) div 64 = q" "(q * 64 + z) mod 64 = z" for q using assms by auto
  have b: "(q * 64 + y) div 64 = q" "(q * 64 + y) mod 64 = y" for q using assms by auto
  have c: "(q * 64 + w) div 64 = q" "(q * 64 + w) mod 64 = w" for q using assms by auto
  have e3: "x * 4096 + y * 64 + z = (x * 64 + y) * 64 + z" by simp
  have e4: "x * 262144 + w * 4096 + y * 64 + z = ((x * 64 + w) * 64 + y) * 64 + z" by simp
  have d2: "n div 4096 = n div 64 div (64::nat)" for n by (simp add: div_mult2_eq [symmetric])
  have d3: "n div 262144 = n div 64 div 64 div (64::nat)" for n by (simp add: div_mult2_eq [symmetric])
  show "(x * 64 + z) div 64 = x" "(x * 64 + z) mod 64 = z" by (rule a)+
  show "(x * 4096 + y * 64 + z) div 4096 = x" "(x * 4096 + y * 64 + z) div 64 mod 64 = y" "(x * 4096 + y * 64 + z) mod 64 = z"
    unfolding e3 d2 a b by (rule refl)+
  show "(x * 262144 + w * 4096 + y * 64 + z) div 262144 = x"
    "(x * 262144 + w * 4096 + y * 64 + z) div 4096 mod 64 = w"
    "(x * 262144 + w * 4096 + y * 64 + z) div 64 mod 64 = y"
    "(x * 262144 + w * 4096 + y * 64 + z) mod 64 = z"
    unfolding e4 d3 d2 a b c by (rule refl)+
qed

lemma EncodeRune2:
  assumes "0xC2 \<le> b" "b \<le> 0xDF" "0x80 \<le> c1" "c1 \<le> 0xBF"
  shows "EncodeRune ((b mod 32) * 64 + c1 mod 64) = [byte b, byte c1]"
proof -
  define x z where "x = b - 192" and "z = c1 - 128"
  then have "b = 192 + x" "c1 = 128 + z" "2 \<le> x" "x < 32" "z < 64" using assms by auto
  moreover from this have "b mod 32 = x" "c1 mod 64 = z"
    using lead_mods(2) [of b] lead_mods(4) [of c1] by auto
  ultimately show ?thesis by (simp add: EncodeRune_def digits64)
qed

lemma EncodeRune3:
  assumes "0xE0 \<le> b" "b \<le> 0xEF" "(if b = 0xE0 then 0xA0 else 0x80) \<le> c1" "c1 \<le> 0xBF"
    "0x80 \<le> c2" "c2 \<le> 0xBF"
  shows "EncodeRune ((b mod 16) * 4096 + (c1 mod 64) * 64 + c2 mod 64) = [byte b, byte c1, byte c2]"
proof -
  define x y z where "x = b - 224" and "y = c1 - 128" and "z = c2 - 128"
  then have eqs: "b = 224 + x" "c1 = 128 + y" "c2 = 128 + z" "x < 16" "y < 64" "z < 64"
    and low: "x = 0 \<Longrightarrow> 32 \<le> y"
    using assms by (auto split: if_splits)
  moreover from eqs have "b mod 16 = x" "c1 mod 64 = y" "c2 mod 64 = z"
    using lead_mods(1) [of b] lead_mods(4) [of c1] lead_mods(4) [of c2] by auto
  moreover have "0x800 \<le> x * 4096 + y * 64 + z"
    using low by (cases "x = 0") auto
  ultimately show ?thesis by (simp add: EncodeRune_def digits64)
qed

lemma EncodeRune4:
  assumes "0xF0 \<le> b" "b \<le> 0xF4" "(if b = 0xF0 then 0x90 else 0x80) \<le> c1" "c1 \<le> 0xBF"
    "0x80 \<le> c2" "c2 \<le> 0xBF" "0x80 \<le> c3" "c3 \<le> 0xBF"
  shows "EncodeRune ((b mod 8) * 262144 + (c1 mod 64) * 4096 + (c2 mod 64) * 64 + c3 mod 64) =
    [byte b, byte c1, byte c2, byte c3]"
proof -
  define x w y z where "x = b - 240" and "w = c1 - 128" and "y = c2 - 128" and "z = c3 - 128"
  then have eqs: "b = 240 + x" "c1 = 128 + w" "c2 = 128 + y" "c3 = 128 + z" "x < 8" "w < 64" "y < 64" "z < 64"
    and low: "x = 0 \<Longrightarrow> 16 \<le> w"
    using assms by (auto split: if_splits)
  moreover from eqs have "b mod 8 = x" "c1 mod 64 = w" "c2 mod 64 = y" "c3 mod 64 = z"
    using lead_mods(3) [of b] lead_mods(4) [of c1] lead_mods(4) [of c2] lead_mods(4) [of c3] by auto
  moreover have "0x10000 \<le> x * 262144 + w * 4096 + y * 64 + z"
    using low by (cases "x = 0") auto
  ultimately show ?thesis by (simp add: EncodeRune_def digits64)
qed

text \<open>Encoding a rune that was decoded gives back the bytes it was decoded from.\<close>

lemma EncodeRune_DecodeRune:
  assumes "DecodeRune (c # s) = (r, n)" and "\<not> (r = RuneError \<and> n = 1)"
  shows "EncodeRune r = take n (c # s)"
proof -
  consider "bc c < 0x80" | "0xC2 \<le> bc c" "bc c \<le> 0xDF" | "0xE0 \<le> bc c" "bc c \<le> 0xEF"
    | "0xF0 \<le> bc c" "bc c \<le> 0xF4"
    using assms by (auto simp: Let_def split: if_splits)
  then show ?thesis
  proof cases
    case 1
    with assms show ?thesis by (auto simp: EncodeRune_def)
  next
    case 2
    with assms have "decode2 (bc c) s = (r, n)" by (simp add: Let_def split: if_splits)
    with assms(2) 2 show ?thesis
      by (auto simp: decode2_def in_range_def EncodeRune2 split: list.splits if_splits)
  next
    case 3
    with assms have "decode3 (bc c) s = (r, n)" by (simp add: Let_def split: if_splits)
    with assms(2) obtain c1 c2 t where "s = c1 # c2 # t" "n = 3"
      "r = (bc c mod 16) * 4096 + (bc c1 mod 64) * 64 + bc c2 mod 64"
      "(if bc c = 0xE0 then 0xA0 else 0x80) \<le> bc c1" "bc c1 \<le> 0xBF" "0x80 \<le> bc c2" "bc c2 \<le> 0xBF"
      by (auto simp: decode3_def in_range_def split: list.splits if_splits)
    with EncodeRune3 [OF 3, of "bc c1" "bc c2"] show ?thesis by simp
  next
    case 4
    with assms have "decode4 (bc c) s = (r, n)" by (simp add: Let_def split: if_splits)
    with assms(2) obtain c1 c2 c3 t where "s = c1 # c2 # c3 # t" "n = 4"
      "r = (bc c mod 8) * 262144 + (bc c1 mod 64) * 4096 + (bc c2 mod 64) * 64 + bc c3 mod 64"
      "(if bc c = 0xF0 then 0x90 else 0x80) \<le> bc c1" "bc c1 \<le> 0xBF" "0x80 \<le> bc c2" "bc c2 \<le> 0xBF"
      "0x80 \<le> bc c3" "bc c3 \<le> 0xBF"
      by (auto simp: decode4_def in_range_def split: list.splits if_splits)
    with EncodeRune4 [OF 4, of "bc c1" "bc c2" "bc c3"] show ?thesis by simp
  qed
qed

text \<open>Every byte of a multi-byte encoding is 0x80 or more.\<close>

lemma DecodeRune_bytes:
  assumes "DecodeRune (c # s) = (r, n)" and "0x80 \<le> bc c" and "d \<in> set (take n (c # s))"
  shows "0x80 \<le> bc d"
  using assms
  by (auto simp: decode_defs in_range_def Let_def split: list.splits if_splits)

text \<open>
  The valid strings, and what a JSON encoder or decoder makes of any string: each byte that
  begins no valid encoding becomes U+FFFD.
\<close>

function ToValid :: "string \<Rightarrow> string" where
  "ToValid s = (if s = [] then [] else
     (case DecodeRune s of (r, n) \<Rightarrow>
       (if r = RuneError \<and> n = 1 then EncodeRune RuneError else take n s) @ ToValid (drop n s)))"
  by pat_completeness auto
termination
proof (relation "measure length")
  fix s :: string and r n
  assume "s \<noteq> []" "(r, n) = DecodeRune s"
  then have "1 \<le> n" "0 < length s"
    using DecodeRune_size [of s] by (auto dest: sym)
  then show "(drop n s, s) \<in> measure length"
    by simp
qed simp

function valid_utf8 :: "string \<Rightarrow> bool" where
  "valid_utf8 s = (if s = [] then True else
     (case DecodeRune s of (r, n) \<Rightarrow> \<not> (r = RuneError \<and> n = 1) \<and> valid_utf8 (drop n s)))"
  by pat_completeness auto
termination
proof (relation "measure length")
  fix s :: string and r n
  assume "s \<noteq> []" "(r, n) = DecodeRune s"
  then have "1 \<le> n" "0 < length s"
    using DecodeRune_size [of s] by (auto dest: sym)
  then show "(drop n s, s) \<in> measure length"
    by simp
qed simp

declare ToValid.simps [simp del] valid_utf8.simps [simp del]

lemma ToValid_Nil [simp]: "ToValid [] = []"
  by (simp add: ToValid.simps)

lemma ToValid_step:
  "s \<noteq> [] \<Longrightarrow> DecodeRune s = (r, n) \<Longrightarrow> ToValid s =
    (if r = RuneError \<and> n = 1 then EncodeRune RuneError else take n s) @ ToValid (drop n s)"
  by (simp add: ToValid.simps [of s])

lemma ToValid_valid: "valid_utf8 s \<Longrightarrow> ToValid s = s"
proof (induction s rule: ToValid.induct)
  case (1 s)
  show ?case
  proof (cases "s = []")
    case False
    obtain r n where d: "DecodeRune s = (r, n)" by fastforce
    from "1.prems" False d have "\<not> (r = RuneError \<and> n = 1)" "valid_utf8 (drop n s)"
      by (auto simp: valid_utf8.simps [of s])
    with "1.IH" [OF False d [symmetric]] False d show ?thesis
      by (auto simp: ToValid.simps [of s])
  qed simp
qed

lemma valid_utf8_ascii: "list_all (\<lambda>c. bc c < 0x80) s \<Longrightarrow> valid_utf8 s"
proof (induction s)
  case Nil
  then show ?case by (simp add: valid_utf8.simps)
next
  case (Cons c s)
  then show ?case by (simp add: valid_utf8.simps [of "c # s"] RuneError_def)
qed

declare DecodeRune.simps(2) [simp del]

end
