(* ===== verification/Ndjson.thy ===== *)
theory Ndjson
  imports Utf8
begin

text \<open>
  Package ndjson (\<open>internal/ndjson/encoder.go\<close>): the JSON string encoder built by hand, and
  the writer of one JSON value per line.
\<close>

section \<open>AppendString\<close>

abbreviation dquote :: char where "dquote \<equiv> CHR 0x22"
abbreviation bslash :: char where "bslash \<equiv> CHR 0x5C"
abbreviation newline_c :: char where "newline_c \<equiv> CHR 0x0A"

text \<open>The constant \<open>hex\<close>, indexed by a digit.\<close>

definition hex_digit :: "nat \<Rightarrow> char" where
  "hex_digit n = ''0123456789abcdef'' ! (n mod 16)"

text \<open>A byte below 0x80 that needs no escape.\<close>

definition plain_byte :: "nat \<Rightarrow> bool" where
  "plain_byte b \<longleftrightarrow> 0x20 \<le> b \<and> b \<noteq> bc dquote \<and> b \<noteq> bc bslash \<and>
     b \<noteq> bc (CHR ''<'') \<and> b \<noteq> bc (CHR ''>'') \<and> b \<noteq> bc (CHR ''&'')"

text \<open>The inner switch: the escape of any other byte below 0x80.\<close>

definition escape_byte :: "nat \<Rightarrow> string" where
  "escape_byte b =
     (if b = bc bslash \<or> b = bc dquote then [bslash, byte b]
      else if b = 0x08 then [bslash, CHR ''b'']
      else if b = 0x0C then [bslash, CHR ''f'']
      else if b = 0x0A then [bslash, CHR ''n'']
      else if b = 0x0D then [bslash, CHR ''r'']
      else if b = 0x09 then [bslash, CHR ''t'']
      else [bslash, CHR ''u'', CHR ''0'', CHR ''0'', hex_digit (b div 16), hex_digit (b mod 16)])"

text \<open>\<open>s[start:i]\<close>.\<close>

definition slice :: "'a list \<Rightarrow> nat \<Rightarrow> nat \<Rightarrow> 'a list" where
  "slice s start i = drop start (take i s)"

lemma DecodeRune_progress:
  "i < length s \<Longrightarrow> length s - (i + snd (DecodeRune (drop i s))) < length s - i"
  using DecodeRune_size [of "drop i s"] by auto

text \<open>
  The loop, with its two indices: \<open>i\<close> is the byte looked at, and \<open>s[start:i]\<close> is what was
  passed over and not copied yet.
\<close>

function append_loop :: "string \<Rightarrow> nat \<Rightarrow> nat \<Rightarrow> string \<Rightarrow> string" where
  "append_loop s start i dst =
     (if i < length s then
        (let b = bc (s ! i) in
         if b < 0x80 then
           (if plain_byte b then append_loop s start (i + 1) dst
            else append_loop s (i + 1) (i + 1) (dst @ slice s start i @ escape_byte b))
         else
           (let d = DecodeRune (drop i s); c = fst d; w = snd d in
            if c = RuneError \<and> w = 1 then
              append_loop s (i + w) (i + w)
                (dst @ slice s start i @ [bslash, CHR ''u'', CHR ''f'', CHR ''f'', CHR ''f'', CHR ''d''])
            else if c = 0x2028 \<or> c = 0x2029 then
              append_loop s (i + w) (i + w)
                (dst @ slice s start i @ [bslash, CHR ''u'', CHR ''2'', CHR ''0'', CHR ''2'', hex_digit c])
            else append_loop s start (i + w) dst))
      else dst @ slice s start (length s))"
  by pat_completeness auto
termination
  by (relation "measure (\<lambda>(s, start, i, dst). length s - i)") (auto simp: DecodeRune_progress)

declare append_loop.simps [simp del]

definition AppendString :: "string \<Rightarrow> string \<Rightarrow> string" where
  "AppendString dst s = append_loop s 0 0 (dst @ [dquote]) @ [dquote]"

section \<open>One rune at a time\<close>

text \<open>The escape of one rune, given its bytes.\<close>

definition escape_rune :: "string \<Rightarrow> nat \<Rightarrow> nat \<Rightarrow> string" where
  "escape_rune bytes c w =
     (if c < 0x80 then (if plain_byte c then bytes else escape_byte c)
      else if c = RuneError \<and> w = 1 then [bslash, CHR ''u'', CHR ''f'', CHR ''f'', CHR ''f'', CHR ''d'']
      else if c = 0x2028 \<or> c = 0x2029 then [bslash, CHR ''u'', CHR ''2'', CHR ''0'', CHR ''2'', hex_digit c]
      else bytes)"

function json_escape :: "string \<Rightarrow> string" where
  "json_escape s = (if s = [] then [] else
     (case DecodeRune s of (c, w) \<Rightarrow>
        escape_rune (take w s) c w @ json_escape (drop w s)))"
  by pat_completeness auto
termination
proof (relation "measure length")
  fix s :: string and r n
  assume "s \<noteq> []" "(r, n) = DecodeRune s"
  then have "1 \<le> n" "0 < length s"
    using DecodeRune_size [of s] by (auto dest: sym)
  then show "(drop n s, s) \<in> measure length"
    by simp
qed simp

declare json_escape.simps [simp del]

lemma json_escape_Nil [simp]: "json_escape [] = []"
  by (simp add: json_escape.simps)

lemma json_escape_step:
  "s \<noteq> [] \<Longrightarrow> DecodeRune s = (c, w) \<Longrightarrow>
    json_escape s = escape_rune (take w s) c w @ json_escape (drop w s)"
  by (simp add: json_escape.simps [of s])

lemma slice_step: "start \<le> i \<Longrightarrow> i + n \<le> length s \<Longrightarrow> slice s start (i + n) = slice s start i @ take n (drop i s)"
  by (simp add: slice_def take_add)

lemma slice_same [simp]: "slice s i i = []"
  by (simp add: slice_def)

lemma DecodeRune_ascii_iff:
  "s \<noteq> [] \<Longrightarrow> bc (hd s) < 0x80 \<Longrightarrow> DecodeRune s = (bc (hd s), 1)"
  by (cases s) (simp_all add: DecodeRune.simps)

lemma DecodeRune_not_ascii:
  assumes "s \<noteq> []" "0x80 \<le> bc (hd s)"
  shows "0x80 \<le> fst (DecodeRune s)"
proof -
  obtain c t where s: "s = c # t" using assms by (cases s) auto
  obtain r n where d: "DecodeRune s = (r, n)" by fastforce
  show ?thesis
  proof (rule ccontr)
    assume "\<not> 0x80 \<le> fst (DecodeRune s)"
    with d have r: "r < 0x80" by simp
    then have "\<not> (r = RuneError \<and> n = 1)" by (simp add: RuneError_def)
    with d s have "EncodeRune r = take n (c # t)" by (auto intro: EncodeRune_DecodeRune)
    moreover have "1 \<le> n" using d DecodeRune_size [of s] assms by simp
    ultimately have "byte r = c" using r by (cases n) (auto simp: EncodeRune_def)
    with r have "bc c < 0x80" by (auto simp: bc_byte)
    with assms s show False by simp
  qed
qed

text \<open>The loop computes the same string as one rune at a time.\<close>

lemma append_loop_json_escape:
  assumes "start \<le> i" "i \<le> length s"
  shows "append_loop s start i dst = dst @ slice s start i @ json_escape (drop i s)"
  using assms
proof (induction s start i dst rule: append_loop.induct)
  case (1 s start i dst)
  show ?case
  proof (cases "i < length s")
    case False
    with "1.prems" show ?thesis by (simp add: append_loop.simps [of s])
  next
    case True
    then have ne: "drop i s \<noteq> []" and hd: "hd (drop i s) = s ! i" by (auto simp: hd_drop_conv_nth)
    obtain c w where d: "DecodeRune (drop i s) = (c, w)" by fastforce
    have w: "1 \<le> w" "i + w \<le> length s"
      using DecodeRune_size [OF ne] d True by auto
    have split: "json_escape (drop i s) = escape_rune (take w (drop i s)) c w @ json_escape (drop (i + w) s)"
      using ne d by (simp add: json_escape.simps [of "drop i s"] add.commute)
    show ?thesis
    proof (cases "bc (s ! i) < 0x80")
      case ascii: True
      then have c: "c = bc (s ! i)" "w = 1"
        using DecodeRune_ascii_iff [OF ne] hd d by auto
      show ?thesis
      proof (cases "plain_byte (bc (s ! i))")
        case plain: True
        with "1.IH"(1) [OF True refl ascii plain] "1.prems" True ascii split c w slice_step [of start i 1 s] show ?thesis
          by (simp add: append_loop.simps [of s start i] escape_rune_def)
      next
        case esc: False
        with "1.IH"(2) [OF True refl ascii esc] "1.prems" True ascii split c w show ?thesis
          by (simp add: append_loop.simps [of s start i] escape_rune_def)
      qed
    next
      case wide: False
      then have c: "\<not> c < 0x80" using DecodeRune_not_ascii [OF ne] hd d by simp
      note IH = "1.IH"(3-5) [OF True refl wide refl refl refl]
      show ?thesis
        using IH "1.prems" True wide split c w d
        by (simp add: append_loop.simps [of s start i] slice_step escape_rune_def Let_def)
    qed
  qed
qed

lemma AppendString_json_escape: "AppendString dst s = dst @ [dquote] @ json_escape s @ [dquote]"
  by (simp add: AppendString_def append_loop_json_escape slice_def)

section \<open>Decoding\<close>

text \<open>
  What \<open>encoding/json\<close> reads back from a string literal, from after its opening quote: the
  text, and what follows the closing quote. A \<open>\u\<close> escape gives the UTF-8 bytes of its
  code point, or, with a second one, of the code point of a surrogate pair.
\<close>

definition hex_val :: "char \<Rightarrow> nat option" where
  "hex_val c =
     (let n = bc c in
      if 0x30 \<le> n \<and> n \<le> 0x39 then Some (n - 0x30)
      else if 0x61 \<le> n \<and> n \<le> 0x66 then Some (n - 0x61 + 10)
      else if 0x41 \<le> n \<and> n \<le> 0x46 then Some (n - 0x41 + 10)
      else None)"

definition hex4 :: "char \<Rightarrow> char \<Rightarrow> char \<Rightarrow> char \<Rightarrow> nat option" where
  "hex4 a b c d =
     (case (hex_val a, hex_val b, hex_val c, hex_val d) of
        (Some w, Some x, Some y, Some z) \<Rightarrow> Some (w * 4096 + x * 256 + y * 16 + z)
      | _ \<Rightarrow> None)"

definition simple_escape :: "char \<Rightarrow> char option" where
  "simple_escape e =
     (if e = dquote \<or> e = bslash \<or> e = CHR ''/'' then Some e
      else if e = CHR ''b'' then Some (byte 0x08)
      else if e = CHR ''f'' then Some (byte 0x0C)
      else if e = CHR ''n'' then Some (byte 0x0A)
      else if e = CHR ''r'' then Some (byte 0x0D)
      else if e = CHR ''t'' then Some (byte 0x09)
      else None)"

text \<open>A surrogate, and the rune of a pair of them (\<open>utf16.DecodeRune\<close>).\<close>

definition is_surrogate :: "nat \<Rightarrow> bool" where
  "is_surrogate r \<longleftrightarrow> 0xD800 \<le> r \<and> r < 0xE000"

definition surrogate_pair :: "nat \<Rightarrow> nat option \<Rightarrow> nat option" where
  "surrogate_pair r low =
     (case low of
        None \<Rightarrow> None
      | Some l \<Rightarrow>
          if r < 0xDC00 \<and> 0xDC00 \<le> l \<and> l < 0xE000
          then Some ((r - 0xD800) * 0x400 + (l - 0xDC00) + 0x10000) else None)"

lemma not_surrogate [simp]: "r < 0xD800 \<Longrightarrow> \<not> is_surrogate r" "\<not> is_surrogate RuneError"
  by (simp_all add: is_surrogate_def RuneError_def)

definition prepend :: "string \<Rightarrow> (string \<times> string) option \<Rightarrow> (string \<times> string) option" where
  "prepend u r = map_option (\<lambda>(a, b). (u @ a, b)) r"

fun json_unquote :: "string \<Rightarrow> (string \<times> string) option" where
  "json_unquote [] = None"
| "json_unquote (c # s) =
     (if c = dquote then Some ([], s)
      else if c = bslash then
        (case s of
           [] \<Rightarrow> None
         | e # t \<Rightarrow>
             (if e = CHR ''u'' then
                (case t of
                   h1 # h2 # h3 # h4 # t' \<Rightarrow>
                     (case hex4 h1 h2 h3 h4 of
                        None \<Rightarrow> None
                      | Some r \<Rightarrow>
                          if \<not> is_surrogate r then prepend (EncodeRune r) (json_unquote t')
                          else
                            (case t' of
                               b # u # l1 # l2 # l3 # l4 # t'' \<Rightarrow>
                                 (case if b = bslash \<and> u = CHR ''u'' then surrogate_pair r (hex4 l1 l2 l3 l4) else None of
                                    Some p \<Rightarrow> prepend (EncodeRune p) (json_unquote t'')
                                  | None \<Rightarrow> prepend (EncodeRune RuneError) (json_unquote t'))
                             | _ \<Rightarrow> prepend (EncodeRune RuneError) (json_unquote t')))
                 | _ \<Rightarrow> None)
              else
                (case simple_escape e of
                   None \<Rightarrow> None
                 | Some d \<Rightarrow> prepend [d] (json_unquote t))))
      else if bc c < 0x20 then None
      else prepend [c] (json_unquote s))"

lemma prepend_Nil [simp]: "prepend [] r = r"
  by (cases r) (simp_all add: prepend_def)

lemma prepend_prepend [simp]: "prepend u (prepend v r) = prepend (u @ v) r"
  by (cases r) (auto simp: prepend_def)

lemma prepend_Some [simp]: "prepend u (Some (a, b)) = Some (u @ a, b)"
  by (simp add: prepend_def)

lemma bc_numerals [simp]:
  "bc dquote = 0x22" "bc bslash = 0x5C" "bc (CHR ''<'') = 0x3C" "bc (CHR ''>'') = 0x3E"
  "bc (CHR ''&'') = 0x26"
  by (simp_all add: bc_def)

lemma hex_val_digit: "n < 16 \<Longrightarrow> hex_val (hex_digit n) = Some n"
proof -
  have "list_all (\<lambda>n. hex_val (hex_digit n) = Some n) [0..<16]" by code_simp
  then show "n < 16 \<Longrightarrow> hex_val (hex_digit n) = Some n" by (simp add: list_all_iff)
qed

lemma hex_val_0: "hex_val (CHR ''0'') = Some 0"
  by (simp add: hex_val_def bc_def)

lemma json_unquote_raw:
  "list_all (\<lambda>d. 0x20 \<le> bc d \<and> d \<noteq> dquote \<and> d \<noteq> bslash) u \<Longrightarrow>
   json_unquote (u @ t) = prepend u (json_unquote t)"
  by (induction u) simp_all

lemma byte_special:
  "byte 0x5C = bslash" "byte 0x22 = dquote"
  by (metis byte_bc bc_numerals(2)) (metis byte_bc bc_numerals(1))

lemma json_unquote_escape_byte:
  assumes "b < 0x80" "\<not> plain_byte b"
  shows "json_unquote (escape_byte b @ t) = prepend [byte b] (json_unquote t)"
proof -
  consider "b = 0x5C" | "b = 0x22" | "b \<in> {0x08, 0x0C, 0x0A, 0x0D, 0x09}"
    | "b \<notin> {0x5C, 0x22, 0x08, 0x0C, 0x0A, 0x0D, 0x09}" by blast
  then show ?thesis
  proof cases
    case 3
    then show ?thesis by (auto simp: escape_byte_def simple_escape_def)
  next
    case 4
    have "hex4 (CHR ''0'') (CHR ''0'') (hex_digit (b div 16)) (hex_digit (b mod 16)) = Some b"
      using hex_val_digit [of "b div 16"] hex_val_digit [of "b mod 16"] assms
      by (simp add: hex4_def hex_val_0)
    with 4 assms show ?thesis by (simp add: escape_byte_def EncodeRune_def)
  qed (simp_all add: escape_byte_def simple_escape_def byte_special)
qed

lemma json_unquote_rune:
  assumes d: "DecodeRune (x # xs) = (c, w)"
  shows "json_unquote (escape_rune (take w (x # xs)) c w @ t) =
    prepend (if c = RuneError \<and> w = 1 then EncodeRune RuneError else take w (x # xs)) (json_unquote t)"
proof (cases "bc x < 0x80")
  case True
  with d DecodeRune_ascii_iff [of "x # xs"] have [simp]: "c = bc x" "w = 1" by auto
  from True have "bc x \<noteq> RuneError" by (simp add: RuneError_def)
  with True show ?thesis
    using json_unquote_escape_byte [OF True, of t] json_unquote_raw [of "[x]" t]
    by (auto simp: escape_rune_def plain_byte_def)
next
  case False
  then have c: "\<not> c < 0x80" using DecodeRune_not_ascii [of "x # xs"] d by simp
  have wide: "0x80 \<le> bc e" if "e \<in> set (take w (x # xs))" for e
    using DecodeRune_bytes [OF d _ that] False by simp
  have raw: "json_unquote (take w (x # xs) @ t) = prepend (take w (x # xs)) (json_unquote t)"
    by (rule json_unquote_raw) (use wide in \<open>fastforce simp: list_all_iff\<close>)
  consider "c = RuneError \<and> w = 1" | "\<not> (c = RuneError \<and> w = 1)" "c = 0x2028 \<or> c = 0x2029"
    | "\<not> (c = RuneError \<and> w = 1)" "\<not> (c = 0x2028 \<or> c = 0x2029)" by blast
  then show ?thesis
  proof cases
    case 1
    have "hex4 (CHR ''f'') (CHR ''f'') (CHR ''f'') (CHR ''d'') = Some RuneError"
      by (simp add: hex4_def hex_val_def bc_def RuneError_def)
    with 1 c show ?thesis by (simp add: escape_rune_def)
  next
    case 2
    have "hex4 (CHR ''2'') (CHR ''0'') (CHR ''2'') (hex_digit c) = Some c"
      using 2(2) by (auto simp: hex4_def hex_val_def bc_def hex_digit_def)
    have "\<not> is_surrogate c" using 2(2) by (auto simp: is_surrogate_def)
    with \<open>hex4 _ _ _ _ = _\<close> 2(2) c EncodeRune_DecodeRune [OF d 2(1)] show ?thesis
      by (simp only: escape_rune_def 2(1) if_False if_True) simp
  next
    case 3
    then show ?thesis
      by (simp only: escape_rune_def c if_False raw)
  qed
qed

text \<open>The encoder's text reads back as the string, with U+FFFD for each invalid byte.\<close>

lemma json_unquote_escape: "json_unquote (json_escape s @ t) = prepend (ToValid s) (json_unquote t)"
proof (induction s rule: json_escape.induct)
  case (1 s)
  show ?case
  proof (cases s)
    case (Cons x xs)
    then have ne: "s \<noteq> []" by simp
    obtain c w where d: "DecodeRune s = (c, w)" by fastforce
    have "json_unquote (json_escape s @ t) =
        json_unquote (escape_rune (take w s) c w @ json_escape (drop w s) @ t)"
      by (simp only: json_escape_step [OF ne d] append_assoc)
    also have "\<dots> = prepend (if c = RuneError \<and> w = 1 then EncodeRune RuneError else take w s)
        (json_unquote (json_escape (drop w s) @ t))"
      using json_unquote_rune [of x xs c w] d Cons by simp
    also have "json_unquote (json_escape (drop w s) @ t) = prepend (ToValid (drop w s)) (json_unquote t)"
      by (rule "1.IH" [OF ne d [symmetric]])
    also have "prepend (if c = RuneError \<and> w = 1 then EncodeRune RuneError else take w s) \<dots> =
        prepend (ToValid s) (json_unquote t)"
      by (simp only: ToValid_step [OF ne d] prepend_prepend)
    finally show ?thesis .
  qed simp
qed

lemma json_unquote_AppendString:
  "\<exists>lit. AppendString [] s = dquote # lit \<and> json_unquote (lit @ t) = Some (ToValid s, t)"
  by (simp add: AppendString_json_escape json_unquote_escape)

section \<open>The encoder's output is one line\<close>

lemma hex_digit_printable: "0x20 \<le> bc (hex_digit n)"
proof -
  have "list_all (\<lambda>c. 0x20 \<le> bc c) ''0123456789abcdef''" by code_simp
  moreover have "hex_digit n \<in> set ''0123456789abcdef''"
    unfolding hex_digit_def by (rule nth_mem) simp
  ultimately show ?thesis by (simp only: list_all_iff)
qed

lemma bc_u: "bc (CHR ''u'') = 0x75" "bc (CHR ''0'') = 0x30" "bc (CHR ''b'') = 0x62" "bc (CHR ''f'') = 0x66"
  "bc (CHR ''n'') = 0x6E" "bc (CHR ''r'') = 0x72" "bc (CHR ''t'') = 0x74" "bc (CHR ''2'') = 0x32"
  "bc (CHR ''d'') = 0x64"
  by (simp_all add: bc_def)

lemma escape_byte_printable: "b < 0x80 \<Longrightarrow> \<not> plain_byte b \<Longrightarrow> d \<in> set (escape_byte b) \<Longrightarrow> 0x20 \<le> bc d"
  by (auto simp: escape_byte_def hex_digit_printable byte_special bc_u split: if_splits)

lemma json_escape_printable: "d \<in> set (json_escape s) \<Longrightarrow> 0x20 \<le> bc d"
proof (induction s rule: json_escape.induct)
  case (1 s)
  then have "s \<noteq> []" by auto
  then obtain x xs where s: "s = x # xs" by (cases s) auto
  obtain c w where dec: "DecodeRune s = (c, w)" by fastforce
  from "1.prems" consider "d \<in> set (escape_rune (take w s) c w)" | "d \<in> set (json_escape (drop w s))"
    using json_escape_step [OF \<open>s \<noteq> []\<close> dec] by auto
  then show ?case
  proof cases
    case 2
    then show ?thesis using "1.IH" [OF \<open>s \<noteq> []\<close> dec [symmetric]] by simp
  next
    case 1
    show ?thesis
    proof (cases "bc x < 0x80")
      case True
      with dec s DecodeRune_ascii_iff [of s] have "c = bc x" "w = 1" by auto
      with 1 True s show ?thesis
        by (auto simp: escape_rune_def plain_byte_def dest: escape_byte_printable split: if_splits)
    next
      case False
      have "0x80 \<le> bc e" if "e \<in> set (take w (x # xs))" for e
        using DecodeRune_bytes [OF _ _ that, of c] dec s False by simp
      with 1 s DecodeRune_not_ascii [of s] False dec show ?thesis
        by (fastforce simp: escape_rune_def hex_digit_printable bc_u split: if_splits)
    qed
  qed
qed

lemma AppendString_printable: "d \<in> set (AppendString [] s) \<Longrightarrow> 0x20 \<le> bc d"
  by (auto simp: AppendString_json_escape dest: json_escape_printable)

section \<open>Writer\<close>

text \<open>
  The destination is what its successful \<open>Write\<close> calls were given, in order; \<open>fails\<close> says which
  call (counting from 0) returns an error. A writer hands it one line per call.
\<close>

record ndjson_writer =
  written :: "string list"
  fails :: "nat \<Rightarrow> bool"

definition WriteAppend :: "ndjson_writer \<Rightarrow> string \<Rightarrow> ndjson_writer \<times> bool" where
  "WriteAppend w line =
     (if fails w (length (written w)) then (w, False)
      else (w\<lparr>written := written w @ [line @ [newline_c]]\<rparr>, True))"

definition WriteLine :: "ndjson_writer \<Rightarrow> string \<Rightarrow> ndjson_writer \<times> bool" where
  "WriteLine w line = WriteAppend w line"

section \<open>Properties\<close>

text \<open>C38. A JSON reader that reads the literal \<open>AppendString\<close> writes gets the string back, with each
  byte that is not valid UTF-8 replaced by U+FFFD, and stops right after the literal; and the
  literal holds no control character, so an NDJSON line stays one line.\<close>

theorem AppendString_roundtrip:
  "(\<exists>lit. AppendString [] s = dquote # lit \<and> json_unquote (lit @ rest) = Some (ToValid s, rest)) \<and>
   (\<forall>d \<in> set (AppendString [] s). 0x20 \<le> bc d)"
  using json_unquote_AppendString AppendString_printable by blast

theorem AppendString_roundtrip_witness:
  "(\<exists>lit. AppendString [] [CHR 0x0A, CHR 0xFF] = dquote # lit \<and>
     json_unquote (lit @ ''}'') = Some (CHR 0x0A # EncodeRune RuneError, ''}'')) \<and>
   0x20 \<le> bc dquote"
proof -
  have "DecodeRune [CHR 0x0A, CHR 0xFF] = (10, 1)" "DecodeRune [CHR 0xFF] = (RuneError, 1)"
    by (simp_all add: DecodeRune.simps bc_def)
  then have "ToValid [CHR 0x0A, CHR 0xFF] = CHR 0x0A # EncodeRune RuneError"
    by (simp add: ToValid_step RuneError_def)
  moreover have "dquote \<in> set (AppendString [] [CHR 0x0A, CHR 0xFF])"
    by (simp add: AppendString_json_escape)
  ultimately show ?thesis
    using AppendString_roundtrip [of "[CHR 0x0A, CHR 0xFF]" "''}''"] by auto
qed

end
