(* ===== verification/Event.thy ===== *)
theory Event
  imports Gotime Ndjson "HOL-Library.Multiset"
begin

text \<open>
  Events (\<open>internal/dcb/event.go\<close>): tags, the data of an event, its validation, and the compact
  JSON form of a set of tags.
\<close>

section \<open>Tags\<close>

text \<open>
  The two kinds of tag are distinct types. Each is ordered by name, then value, as the
  \<open>sort.Slice\<close> of a query item's key orders it.
\<close>

datatype Identifier = Identifier (id_name: string) (id_value: string)

datatype Metadata = Metadata (md_name: string) (md_value: string)

definition id_pair :: "Identifier \<Rightarrow> string \<times> string" where
  "id_pair i = (id_name i, id_value i)"

definition md_pair :: "Metadata \<Rightarrow> string \<times> string" where
  "md_pair m = (md_name m, md_value m)"

lemma id_pair_inject [simp]: "id_pair i = id_pair j \<longleftrightarrow> i = j"
  by (auto simp: id_pair_def Identifier.expand)

lemma md_pair_inject [simp]: "md_pair i = md_pair j \<longleftrightarrow> i = j"
  by (auto simp: md_pair_def Metadata.expand)

lemma inj_id_pair: "inj id_pair" and inj_md_pair: "inj md_pair"
  by (auto intro: injI)

instantiation Identifier :: linorder
begin

definition less_eq_Identifier :: "Identifier \<Rightarrow> Identifier \<Rightarrow> bool" where
  "less_eq_Identifier i j \<longleftrightarrow> id_pair i \<le> id_pair j"

definition less_Identifier :: "Identifier \<Rightarrow> Identifier \<Rightarrow> bool" where
  "less_Identifier i j \<longleftrightarrow>
     (if id_name i \<noteq> id_name j then id_name i < id_name j else id_value i < id_value j)"

lemma less_Identifier_pair: "(i < j) = (id_pair i < id_pair j)" for i j :: Identifier
  by (auto simp: less_Identifier_def id_pair_def less_prod_def)

instance
  by standard
    (auto simp: less_eq_Identifier_def less_Identifier_pair less_le_not_le)

end

instantiation Metadata :: linorder
begin

definition less_eq_Metadata :: "Metadata \<Rightarrow> Metadata \<Rightarrow> bool" where
  "less_eq_Metadata i j \<longleftrightarrow> md_pair i \<le> md_pair j"

definition less_Metadata :: "Metadata \<Rightarrow> Metadata \<Rightarrow> bool" where
  "less_Metadata i j \<longleftrightarrow>
     (if md_name i \<noteq> md_name j then md_name i < md_name j else md_value i < md_value j)"

lemma less_Metadata_pair: "(i < j) = (md_pair i < md_pair j)" for i j :: Metadata
  by (auto simp: less_Metadata_def md_pair_def less_prod_def)

instance
  by standard
    (auto simp: less_eq_Metadata_def less_Metadata_pair less_le_not_le)

end

section \<open>Event data and its validation\<close>

definition MaxIdentifiers :: nat where "MaxIdentifiers = 20"

definition MaxMetadata :: nat where "MaxMetadata = 20"

record EventData =
  ed_type :: string
  ed_identifiers :: "Identifier list"
  ed_metadata :: "Metadata list"
  ed_payload :: string

text \<open>The sentinels a \<open>ValidationError\<close> of package dcb wraps, for events and for queries.\<close>

datatype dcb_error =
    ErrMissingType | ErrInvalidType | ErrInvalidTagName | ErrInvalidTagValue | ErrMissingPayload
  | ErrTooManyIdentifiers | ErrTooManyMetadata | ErrDuplicateIdentifier | ErrDuplicateMetadata
  | ErrEmptyQuery | ErrEmptyQueryItem | ErrEmptyQueryItemArray | ErrNegativeAfterSequence
  | ErrQueryTooLarge

definition Size :: "EventData \<Rightarrow> nat" where
  "Size e =
     fold (\<lambda>md n. n + (length (md_name md) + length (md_value md))) (ed_metadata e)
       (fold (\<lambda>i n. n + (length (id_name i) + length (id_value i))) (ed_identifiers e)
         (length (ed_type e) + length (ed_payload e)))"

definition validateTag :: "string \<Rightarrow> string \<Rightarrow> dcb_error option" where
  "validateTag name value =
     (if \<not> ValidName name then Some ErrInvalidTagName
      else if \<not> ValidValue value then Some ErrInvalidTagValue
      else None)"

text \<open>The loop of \<open>duplicateExists\<close>, with the elements seen so far.\<close>

fun duplicate_loop :: "'a set \<Rightarrow> 'a list \<Rightarrow> bool" where
  "duplicate_loop seen [] = False"
| "duplicate_loop seen (x # xs) = (if x \<in> seen then True else duplicate_loop (insert x seen) xs)"

definition duplicateExists :: "'a list \<Rightarrow> bool" where
  "duplicateExists xs = duplicate_loop {} xs"

definition EventData_Validate :: "EventData \<Rightarrow> dcb_error option" where
  "EventData_Validate e =
     (if ed_type e = [] then Some ErrMissingType
      else if \<not> ValidName (ed_type e) then Some ErrInvalidType
      else case first_err (\<lambda>i. validateTag (id_name i) (id_value i)) (ed_identifiers e) of
        Some err \<Rightarrow> Some err
      | None \<Rightarrow>
          (case first_err (\<lambda>m. validateTag (md_name m) (md_value m)) (ed_metadata e) of
             Some err \<Rightarrow> Some err
           | None \<Rightarrow>
               (if length (ed_identifiers e) > MaxIdentifiers then Some ErrTooManyIdentifiers
                else if duplicateExists (ed_identifiers e) then Some ErrDuplicateIdentifier
                else if length (ed_metadata e) > MaxMetadata then Some ErrTooManyMetadata
                else if duplicateExists (ed_metadata e) then Some ErrDuplicateMetadata
                else None)))"

record EventInput =
  ei_type :: string
  ei_identifiers :: "Identifier list"
  ei_metadata :: "Metadata list"
  ei_payload :: "string option"

definition EventInput_Data :: "EventInput \<Rightarrow> EventData" where
  "EventInput_Data e =
     \<lparr>ed_type = ei_type e, ed_identifiers = ei_identifiers e, ed_metadata = ei_metadata e,
      ed_payload = (case ei_payload e of Some p \<Rightarrow> p | None \<Rightarrow> [])\<rparr>"

definition EventInput_Validate :: "EventInput \<Rightarrow> dcb_error option" where
  "EventInput_Validate e =
     (case EventData_Validate (EventInput_Data e) of
        Some err \<Rightarrow> Some err
      | None \<Rightarrow> (if ei_payload e = None then Some ErrMissingPayload else None))"

text \<open>A persisted event, and an event that has its time and no position yet.\<close>

record Event =
  ev_sequence :: int
  ev_time :: gotime
  ev_data :: EventData

record PendingEvent =
  pe_time :: gotime
  pe_data :: EventData

definition NewPendingEvents :: "EventData list \<Rightarrow> gotime \<Rightarrow> PendingEvent list" where
  "NewPendingEvents events t = map (\<lambda>e. \<lparr>pe_time = t, pe_data = e\<rparr>) events"

section \<open>What validation accepts\<close>

definition tag_ok :: "string \<times> string \<Rightarrow> bool" where
  "tag_ok p \<longleftrightarrow> ValidName (fst p) \<and> ValidValue (snd p)"

definition event_ok :: "EventData \<Rightarrow> bool" where
  "event_ok e \<longleftrightarrow>
     ValidName (ed_type e) \<and>
     list_all (\<lambda>i. tag_ok (id_pair i)) (ed_identifiers e) \<and>
     list_all (\<lambda>m. tag_ok (md_pair m)) (ed_metadata e) \<and>
     length (ed_identifiers e) \<le> 20 \<and> length (ed_metadata e) \<le> 20 \<and>
     distinct (ed_identifiers e) \<and> distinct (ed_metadata e)"

interpretation id_tag: validator "\<lambda>i. validateTag (id_name i) (id_value i)" "\<lambda>i. tag_ok (id_pair i)"
  by unfold_locales (auto simp: validateTag_def tag_ok_def id_pair_def)

interpretation md_tag: validator "\<lambda>m. validateTag (md_name m) (md_value m)" "\<lambda>m. tag_ok (md_pair m)"
  by unfold_locales (auto simp: validateTag_def tag_ok_def md_pair_def)

lemma duplicate_loop_iff: "duplicate_loop seen xs \<longleftrightarrow> \<not> distinct xs \<or> set xs \<inter> seen \<noteq> {}"
  by (induction xs arbitrary: seen) auto

lemma duplicateExists_iff: "duplicateExists xs \<longleftrightarrow> \<not> distinct xs"
  by (simp add: duplicateExists_def duplicate_loop_iff)

lemma ValidName_Nil [simp]: "\<not> ValidName []"
  by (simp add: ValidName_def)

lemma EventData_Validate_None: "EventData_Validate e = None \<longleftrightarrow> event_ok e"
  by (auto simp: EventData_Validate_def event_ok_def duplicateExists_iff MaxIdentifiers_def
      MaxMetadata_def id_tag.first_err_None [symmetric] md_tag.first_err_None [symmetric]
      split: option.splits)

interpretation event_data: validator EventData_Validate event_ok
  by unfold_locales (rule EventData_Validate_None)

interpretation event_input: validator EventInput_Validate
  "\<lambda>e. event_ok (EventInput_Data e) \<and> ei_payload e \<noteq> None"
  by unfold_locales (auto simp: EventInput_Validate_def EventData_Validate_None [symmetric] split: option.splits)

lemma fold_plus_sum: "fold (\<lambda>x n. n + f x) xs (a::nat) = a + sum_list (map f xs)"
  by (induction xs arbitrary: a) auto

lemma Size_sum:
  "Size e = length (ed_type e) + length (ed_payload e) +
     sum_list (map (\<lambda>i. length (id_name i) + length (id_value i)) (ed_identifiers e)) +
     sum_list (map (\<lambda>m. length (md_name m) + length (md_value m)) (ed_metadata e))"
  unfolding Size_def by (simp only: fold_plus_sum)

lemma tag_ok_length: "tag_ok p \<Longrightarrow> length (fst p) + length (snd p) \<le> 383"
  using ValidName_length [of "fst p"] ValidValue_length [of "snd p"] by (auto simp: tag_ok_def)

text \<open>A valid event's type and tags weigh at most \<open>128 + 40 * (128 + 255)\<close> bytes.\<close>

lemma Size_bound:
  assumes "event_ok e"
  shows "Size e \<le> 15448 + length (ed_payload e)"
proof -
  have "sum_list (map (\<lambda>i. length (id_name i) + length (id_value i)) (ed_identifiers e)) \<le>
      length (ed_identifiers e) * 383"
    by (rule sum_list_le_bound) (use assms tag_ok_length in \<open>fastforce simp: event_ok_def list_all_iff id_pair_def\<close>)
  moreover have "sum_list (map (\<lambda>m. length (md_name m) + length (md_value m)) (ed_metadata e)) \<le>
      length (ed_metadata e) * 383"
    by (rule sum_list_le_bound) (use assms tag_ok_length in \<open>fastforce simp: event_ok_def list_all_iff md_pair_def\<close>)
  ultimately show ?thesis
    using assms ValidName_length [of "ed_type e"] by (auto simp: Size_sum event_ok_def)
qed

text \<open>\<open>EventData.Validate\<close> accepts an event exactly when its type is a valid name, every tag has
  a valid name and a valid value, there are at most 20 identifiers and at most 20 metadata entries
  and no two of either are equal.\<close>

lemma Validate_exact:
  "EventData_Validate e = None \<longleftrightarrow>
     ValidName (ed_type e) \<and>
     list_all (\<lambda>i. ValidName (id_name i) \<and> ValidValue (id_value i)) (ed_identifiers e) \<and>
     list_all (\<lambda>m. ValidName (md_name m) \<and> ValidValue (md_value m)) (ed_metadata e) \<and>
     length (ed_identifiers e) \<le> 20 \<and> length (ed_metadata e) \<le> 20 \<and>
     distinct (ed_identifiers e) \<and> distinct (ed_metadata e)"
  by (auto simp: EventData_Validate_None event_ok_def tag_ok_def id_pair_def md_pair_def)

text \<open>The size that \<open>EventData.Size\<close> counts against the limits of a transaction: an event that
  passed validation counts at most 15448 bytes above its payload.\<close>

lemma Size_of_valid:
  assumes "EventData_Validate e = None"
  shows "length (ed_payload e) \<le> Size e \<and> Size e \<le> 15448 + length (ed_payload e)"
  using assms Size_bound [of e] by (simp add: EventData_Validate_None Size_sum)

end
