(* ===== verification/Compact.thy ===== *)
theory Compact
  imports Event "HOL-Library.AList"
begin

text \<open>
  The compact JSON form of a set of tags (\<open>marshalCompact\<close> and \<open>unmarshalCompact\<close> of
  \<open>internal/dcb/event.go\<close>): an object from each name to its value, or to the array of its
  values. JSON values are a datatype for what a decoder reads, and text for what an encoder
  writes.
\<close>

section \<open>JSON values\<close>

text \<open>An integer literal is its value; a number with a fraction or an exponent is its text.\<close>

datatype json =
    JNull | JBool bool | JNumber int | JReal string | JString string
  | JArray "json list" | JObject "(string \<times> json) list"

text \<open>Elements separated by commas.\<close>

fun commas :: "string list \<Rightarrow> string" where
  "commas [] = []"
| "commas [x] = x"
| "commas (x # y # xs) = x @ '','' @ commas (y # xs)"

text \<open>\<open>json.Marshal\<close> of a string, and of a slice of strings.\<close>

definition marshal_string :: "string \<Rightarrow> string" where
  "marshal_string s = AppendString [] s"

definition marshal_strings :: "string list \<Rightarrow> string" where
  "marshal_strings vs = ''['' @ commas (map marshal_string vs) @ '']''"

section \<open>Encoding\<close>

text \<open>
  The first loop: the values of each name, in order, and the names in the order they first
  appear.
\<close>

fun group_loop :: "(string \<times> string) list \<Rightarrow> (string \<rightharpoonup> string list) \<Rightarrow> string list
    \<Rightarrow> (string \<rightharpoonup> string list) \<times> string list" where
  "group_loop [] groups order = (groups, order)"
| "group_loop ((name, value) # items) groups order =
     (let order' = (if groups name = None then order @ [name] else order);
          vals = (case groups name of None \<Rightarrow> [] | Some vs \<Rightarrow> vs)
      in group_loop items (groups(name \<mapsto> vals @ [value])) order')"

definition marshal_group :: "(string \<rightharpoonup> string list) \<Rightarrow> string \<Rightarrow> string" where
  "marshal_group groups name =
     (let vals = (case groups name of None \<Rightarrow> [] | Some vs \<Rightarrow> vs)
      in marshal_string name @ '':'' @
         (if length vals = 1 then marshal_string (vals ! 0) else marshal_strings vals))"

definition marshalCompact :: "(string \<times> string) list \<Rightarrow> string" where
  "marshalCompact items =
     (let (groups, order) = group_loop items Map.empty []
      in ''{'' @ commas (map (marshal_group groups) (sort order)) @ ''}'')"

definition IdentifierSet_MarshalJSON :: "Identifier list \<Rightarrow> string" where
  "IdentifierSet_MarshalJSON s = marshalCompact (map id_pair s)"

definition MetadataSet_MarshalJSON :: "Metadata list \<Rightarrow> string" where
  "MetadataSet_MarshalJSON s = marshalCompact (map md_pair s)"

text \<open>\<open>Event.MarshalJSON\<close>: one event, as \<open>json.Marshal\<close> writes it.\<close>

fun decimal :: "nat \<Rightarrow> string" where
  "decimal n = (if n < 10 then [digit (int n)] else decimal (n div 10) @ [digit (int n)])"

declare decimal.simps [simp del]

definition AppendInt :: "int \<Rightarrow> string" where
  "AppendInt n = (if n < 0 then ''-'' @ decimal (nat (- n)) else decimal (nat n))"

definition Event_MarshalJSON :: "Event \<Rightarrow> string" where
  "Event_MarshalJSON e =
     ''{'' @ commas
       [marshal_string ''sequence'' @ '':'' @ AppendInt (ev_sequence e),
        marshal_string ''time'' @ '':'' @ marshal_string (format_time (ev_time e)),
        marshal_string ''type'' @ '':'' @ marshal_string (ed_type (ev_data e)),
        marshal_string ''identifiers'' @ '':'' @ IdentifierSet_MarshalJSON (ed_identifiers (ev_data e)),
        marshal_string ''metadata'' @ '':'' @ MetadataSet_MarshalJSON (ed_metadata (ev_data e)),
        marshal_string ''payload'' @ '':'' @ marshal_string (ed_payload (ev_data e))]
     @ ''}''"

section \<open>Decoding\<close>

datatype shape_error = NotAnObject | BadTagValue string | EmptyTagArray string

text \<open>
  \<open>json.Unmarshal\<close> into a \<open>string\<close> and into a \<open>[]string\<close>: \<open>null\<close> leaves the zero value.
\<close>

fun unmarshal_string :: "json \<Rightarrow> string option" where
  "unmarshal_string (JString s) = Some s"
| "unmarshal_string JNull = Some []"
| "unmarshal_string _ = None"

fun unmarshal_elems :: "json list \<Rightarrow> string list option" where
  "unmarshal_elems [] = Some []"
| "unmarshal_elems (j # js) =
     (case unmarshal_string j of
        None \<Rightarrow> None
      | Some s \<Rightarrow> map_option ((#) s) (unmarshal_elems js))"

fun unmarshal_strings :: "json \<Rightarrow> string list option" where
  "unmarshal_strings (JArray js) = unmarshal_elems js"
| "unmarshal_strings JNull = Some []"
| "unmarshal_strings _ = None"

text \<open>\<open>json.Unmarshal\<close> into a \<open>map[string]json.RawMessage\<close>: the last of equal keys wins.\<close>

fun raw_object :: "json \<Rightarrow> (string \<times> json) list option" where
  "raw_object (JObject kvs) = Some (fold (\<lambda>(k, v) m. AList.update k v m) kvs [])"
| "raw_object JNull = Some []"
| "raw_object _ = None"

text \<open>The loop over the map, given its entries in the order the range yields them.\<close>

fun unmarshal_loop :: "(string \<times> json) list \<Rightarrow> (string \<times> string) list \<Rightarrow>
    shape_error + (string \<times> string) list" where
  "unmarshal_loop [] out = Inr out"
| "unmarshal_loop ((name, rawVal) # kvs) out =
     (case unmarshal_string rawVal of
        Some single \<Rightarrow> unmarshal_loop kvs (out @ [(name, single)])
      | None \<Rightarrow>
          (case unmarshal_strings rawVal of
             None \<Rightarrow> Inl (BadTagValue name)
           | Some multi \<Rightarrow>
               (if multi = [] then Inl (EmptyTagArray name)
                else unmarshal_loop kvs (out @ map (\<lambda>v. (name, v)) multi))))"

text \<open>
  Go ranges over a map in an order it doesn't fix: \<open>range_order\<close> picks it, as some
  permutation of the entries.
\<close>

definition unmarshalCompact :: "((string \<times> json) list \<Rightarrow> (string \<times> json) list) \<Rightarrow> json \<Rightarrow>
    shape_error + (string \<times> string) list" where
  "unmarshalCompact range_order data =
     (case raw_object data of
        None \<Rightarrow> Inl NotAnObject
      | Some raw \<Rightarrow> unmarshal_loop (range_order raw) [])"

section \<open>Encoding, as a JSON value\<close>

definition values_of :: "(string \<times> string) list \<Rightarrow> string \<Rightarrow> string list" where
  "values_of items n = map snd (filter (\<lambda>p. fst p = n) items)"

definition names_of :: "(string \<times> string) list \<Rightarrow> string list" where
  "names_of items = sort (remdups (map fst items))"

definition value_json :: "string list \<Rightarrow> json" where
  "value_json vs = (if length vs = 1 then JString (vs ! 0) else JArray (map JString vs))"

text \<open>The value \<open>marshalCompact\<close> writes the text of.\<close>

definition compact_tree :: "(string \<times> string) list \<Rightarrow> json" where
  "compact_tree items = JObject (map (\<lambda>n. (n, value_json (values_of items n))) (names_of items))"

fun encode :: "json \<Rightarrow> string" where
  "encode JNull = ''null''"
| "encode (JBool b) = (if b then ''true'' else ''false'')"
| "encode (JNumber n) = AppendInt n"
| "encode (JReal s) = s"
| "encode (JString s) = marshal_string s"
| "encode (JArray js) = ''['' @ commas (map encode js) @ '']''"
| "encode (JObject kvs) =
     ''{'' @ commas (map (\<lambda>(k, v). marshal_string k @ '':'' @ encode v) kvs) @ ''}''"

lemma group_loop_groups:
  "group_loop items groups order = (groups', order') \<Longrightarrow>
   groups' n = (case groups n of
       Some vs \<Rightarrow> Some (vs @ values_of items n)
     | None \<Rightarrow> if values_of items n = [] then None else Some (values_of items n))"
  by (induction items groups order rule: group_loop.induct)
    (auto simp: values_of_def Let_def split: option.splits if_splits)

lemma group_loop_order:
  "group_loop items groups order = (groups', order') \<Longrightarrow> dom groups = set order \<Longrightarrow> distinct order \<Longrightarrow>
   distinct order' \<and> set order' = set order \<union> fst ` set items"
proof (induction items arbitrary: groups order)
  case (Cons item items)
  obtain name val where item: "item = (name, val)" by fastforce
  define g where "g = groups(name \<mapsto> (case groups name of None \<Rightarrow> [] | Some vs \<Rightarrow> vs) @ [val])"
  define ord where "ord = (if groups name = None then order @ [name] else order)"
  have mem: "groups name = None \<longleftrightarrow> name \<notin> set order"
    using Cons.prems(2) by (metis domIff)
  have "dom g = set ord" "distinct ord"
    using Cons.prems(2,3) mem by (auto simp: g_def ord_def simp del: domIff)
  moreover have "group_loop items g ord = (groups', order')"
    using Cons.prems(1) by (simp add: item g_def ord_def Let_def)
  ultimately have "distinct order' \<and> set order' = set ord \<union> fst ` set items"
    by (intro Cons.IH)
  then show ?case using mem by (auto simp: item ord_def)
qed simp

lemma distinct_names_of [simp]: "distinct (names_of items)"
  by (simp add: names_of_def)

lemma set_names_of [simp]: "set (names_of items) = fst ` set items"
  by (simp add: names_of_def)

lemma values_of_Nil_iff: "values_of items n = [] \<longleftrightarrow> n \<notin> fst ` set items"
  by (force simp: values_of_def filter_empty_conv)

lemma sort_names_of: "distinct order \<Longrightarrow> set order = fst ` set items \<Longrightarrow> sort order = names_of items"
  by (rule sorted_distinct_set_unique) (auto simp: names_of_def)

lemma encode_value_json: "encode (value_json vs) = (if length vs = 1 then marshal_string (vs ! 0) else marshal_strings vs)"
  by (simp add: value_json_def marshal_strings_def comp_def)

text \<open>The text written is the text of that value.\<close>

lemma marshalCompact_encode: "marshalCompact items = encode (compact_tree items)"
proof -
  obtain groups order where g: "group_loop items Map.empty [] = (groups, order)" by fastforce
  from group_loop_order [OF g] have order: "sort order = names_of items"
    by (intro sort_names_of) auto
  have "marshal_group groups n = marshal_string n @ '':'' @ encode (value_json (values_of items n))"
    if "n \<in> set (names_of items)" for n
    using that group_loop_groups [OF g, of n]
    by (simp add: marshal_group_def encode_value_json values_of_Nil_iff)
  then have maps: "map (marshal_group groups) (names_of items) =
      map (\<lambda>n. marshal_string n @ '':'' @ encode (value_json (values_of items n))) (names_of items)"
    by (rule map_cong [OF refl])
  show ?thesis
    unfolding marshalCompact_def g Let_def prod.case order maps by (simp add: compact_tree_def comp_def)
qed

section \<open>Round trip\<close>

lemma unmarshal_elems_strings: "unmarshal_elems (map JString vs) = Some vs"
  by (induction vs) auto

lemma unmarshal_loop_values:
  assumes "\<And>n j. (n, j) \<in> set kvs \<Longrightarrow> vals n \<noteq> [] \<and> j = value_json (vals n)"
  shows "unmarshal_loop kvs out = Inr (out @ concat (map (\<lambda>(n, j). map (Pair n) (vals n)) kvs))"
  using assms
proof (induction kvs arbitrary: out)
  case (Cons kv kvs)
  obtain n j where kv: "kv = (n, j)" by fastforce
  with Cons.prems have j: "vals n \<noteq> []" "j = value_json (vals n)" by auto
  have IH: "unmarshal_loop kvs out' = Inr (out' @ concat (map (\<lambda>(n, j). map (Pair n) (vals n)) kvs))" for out'
    by (rule Cons.IH) (use Cons.prems in auto)
  show ?case
  proof (cases "vals n")
    case (Cons v vs)
    show ?thesis
    proof (cases vs)
      case Nil
      with Cons have "vals n = [v]" by simp
      with kv j IH show ?thesis by (simp add: value_json_def)
    next
      case (Cons w ws)
      with \<open>vals n = v # vs\<close> have "length (vals n) \<noteq> 1" by simp
      with kv j IH show ?thesis by (simp add: value_json_def unmarshal_elems_strings)
    qed
  qed (use j in simp)
qed simp

lemma update_fresh: "k \<notin> fst ` set m \<Longrightarrow> AList.update k v m = m @ [(k, v)]"
  by (induction m) auto

lemma fold_update_fresh:
  "distinct (map fst (m @ kvs)) \<Longrightarrow> fold (\<lambda>(k, v) m. AList.update k v m) kvs m = m @ kvs"
proof (induction kvs arbitrary: m)
  case (Cons kv kvs)
  obtain k v where kv: "kv = (k, v)" by fastforce
  with Cons.prems have "k \<notin> fst ` set m" by auto
  with kv Cons.prems Cons.IH [of "m @ [(k, v)]"] show ?case by (simp add: update_fresh)
qed simp

lemma raw_object_tree:
  "raw_object (compact_tree items) = Some (map (\<lambda>n. (n, value_json (values_of items n))) (names_of items))"
  by (simp add: compact_tree_def fold_update_fresh comp_def)

lemma mset_concat_values:
  assumes "distinct ns" "fst ` set items \<subseteq> set ns"
  shows "mset (concat (map (\<lambda>n. map (Pair n) (values_of items n)) ns)) = mset items"
  using assms
proof (induction ns arbitrary: items)
  case (Cons n ns)
  let ?rest = "filter (\<lambda>p. fst p \<noteq> n) items"
  have here: "map (Pair n) (values_of items n) = filter (\<lambda>p. fst p = n) items"
    by (induction items) (auto simp: values_of_def)
  have same: "values_of items m = values_of ?rest m" if "m \<in> set ns" for m
  proof -
    from that Cons.prems have "m \<noteq> n" by auto
    then have "filter (\<lambda>p. fst p = m) items = filter (\<lambda>p. fst p = m) ?rest"
      by (induction items) auto
    then show ?thesis by (simp only: values_of_def)
  qed
  have "map (\<lambda>m. map (Pair m) (values_of items m)) ns = map (\<lambda>m. map (Pair m) (values_of ?rest m)) ns"
    using same by simp
  moreover have "mset (concat (map (\<lambda>m. map (Pair m) (values_of ?rest m)) ns)) = mset ?rest"
    by (rule Cons.IH) (use Cons.prems in auto)
  moreover have "mset items = mset (filter (\<lambda>p. fst p = n) items) + mset ?rest"
    by (induction items) auto
  ultimately show ?case
    by (simp only: list.map concat.simps mset_append here)
qed simp

lemma values_of_concat:
  "distinct ns \<Longrightarrow>
    values_of (concat (map (\<lambda>n. map (Pair n) (values_of items n)) ns)) m = (if m \<in> set ns then values_of items m else [])"
proof (induction ns)
  case (Cons n ns)
  have "values_of (map (Pair n) (values_of items n)) m = (if m = n then values_of items n else [])"
    by (induction items) (auto simp: values_of_def)
  with Cons show ?case by (auto simp: values_of_def)
qed (simp add: values_of_def)

text \<open>
  Decoding what was encoded gives the same tags, whatever order the map is ranged over in;
  only the order of the names can change.
\<close>

lemma unmarshalCompact_compact_tree:
  assumes "\<And>kvs. mset (range_order kvs) = mset kvs"
  shows "\<exists>out. unmarshalCompact range_order (compact_tree items) = Inr out \<and> mset out = mset items \<and>
    (\<forall>n. values_of out n = values_of items n)"
proof -
  let ?kvs = "map (\<lambda>n. (n, value_json (values_of items n))) (names_of items)"
  define kvs where "kvs = range_order ?kvs"
  have perm: "mset kvs = mset ?kvs" using assms by (simp add: kvs_def)
  then have set: "set kvs = set ?kvs" by (rule mset_eq_setD)
  from perm have "mset (map fst kvs) = mset (map fst ?kvs)" by (metis mset_map)
  then have names: "mset (map fst kvs) = mset (names_of items)" by (simp add: comp_def)
  have distinct: "distinct (map fst kvs)" "set (map fst kvs) = fst ` set items"
    using mset_eq_imp_distinct_iff [OF names] mset_eq_setD [OF names] by simp_all
  have "unmarshal_loop kvs [] = Inr (concat (map (\<lambda>(n, j). map (Pair n) (values_of items n)) kvs))"
    by (subst unmarshal_loop_values [where vals = "values_of items"])
      (use set in \<open>auto simp: values_of_Nil_iff\<close>)
  moreover have "concat (map (\<lambda>(n, j). map (Pair n) (values_of items n)) kvs) =
      concat (map (\<lambda>n. map (Pair n) (values_of items n)) (map fst kvs))"
    by (simp add: comp_def case_prod_unfold)
  moreover have "mset \<dots> = mset items"
    by (rule mset_concat_values) (use distinct in auto)
  moreover have "values_of (concat (map (\<lambda>n. map (Pair n) (values_of items n)) (map fst kvs))) n = values_of items n" for n
    unfolding values_of_concat [OF distinct(1)] using distinct(2) values_of_Nil_iff [of items n] by auto
  ultimately show ?thesis
    by (simp add: unmarshalCompact_def raw_object_tree kvs_def)
qed

text \<open>The compact form depends on nothing but the values of each name.\<close>

lemma compact_tree_values:
  assumes "\<And>n. values_of out n = values_of items n"
  shows "compact_tree out = compact_tree items"
proof -
  have "fst ` set out = fst ` set items"
    using assms values_of_Nil_iff by (metis subsetI subset_antisym)
  then have "names_of out = names_of items"
    by (intro sorted_distinct_set_unique) (simp_all add: names_of_def)
  then show ?thesis using assms by (simp add: compact_tree_def)
qed

section \<open>What is read back\<close>

text \<open>The compact form of identifiers and metadata loses nothing: reading back the object
  \<open>marshalCompact\<close> writes gives the same pairs with the same multiplicities, whatever order Go's
  map iteration takes.\<close>

lemma compact_roundtrip:
  assumes "\<And>kvs. mset (range_order kvs) = mset kvs"
  shows "marshalCompact items = encode (compact_tree items) \<and>
    (\<exists>out. unmarshalCompact range_order (compact_tree items) = Inr out \<and> mset out = mset items)"
  using unmarshalCompact_compact_tree [OF assms] marshalCompact_encode by blast

end
