(* ===== verification/Timetext.thy ===== *)
theory Timetext
  imports Gotime
begin

text \<open>
  Reading a time back (\<open>time.Parse(dcb.TimeLayout, s)\<close>), for the texts the server writes: those
  that end in \<open>Z\<close>. Go also takes an offset in its place; no text of the store has one.
\<close>

definition is_leap :: "int \<Rightarrow> bool" where
  "is_leap y \<longleftrightarrow> y mod 4 = 0 \<and> (y mod 100 \<noteq> 0 \<or> y mod 400 = 0)"

definition days_in :: "bool \<Rightarrow> int \<Rightarrow> int" where
  "days_in leap m =
     (if m = 12 then 31 else days_before leap ! nat m - days_before leap ! nat (m - 1))"

definition day_number :: "int \<Rightarrow> int \<Rightarrow> int \<Rightarrow> int" where
  "day_number y m d =
     365 * (y - 1) + (y - 1) div 4 - (y - 1) div 100 + (y - 1) div 400 +
     days_before (is_leap y) ! nat (m - 1) + d - 1"

definition undigit :: "char \<Rightarrow> int option" where
  "undigit c =
     (if CHR ''0'' \<le> c \<and> c \<le> CHR ''9'' then Some (int (of_char c) - 48) else None)"

fun unpad :: "int \<Rightarrow> string \<Rightarrow> int option" where
  "unpad acc [] = Some acc"
| "unpad acc (c # s) = (case undigit c of None \<Rightarrow> None | Some d \<Rightarrow> unpad (10 * acc + d) s)"

text \<open>A number of \<open>k\<close> digits, then a separator.\<close>

fun number_field :: "nat \<Rightarrow> char \<Rightarrow> string \<Rightarrow> (int \<times> string) option" where
  "number_field k sep s =
     (case unpad 0 (take k s) of
        None \<Rightarrow> None
      | Some n \<Rightarrow>
          (if length s < Suc k \<or> s ! k \<noteq> sep then None else Some (n, drop (Suc k) s)))"

fun fields :: "(nat \<times> char) list \<Rightarrow> string \<Rightarrow> int list option" where
  "fields [] s = (if s = [] then Some [] else None)"
| "fields ((k, sep) # fs) s =
     (case number_field k sep s of
        None \<Rightarrow> None
      | Some (n, rest) \<Rightarrow> map_option ((#) n) (fields fs rest))"

definition time_fields :: "(nat \<times> char) list" where
  "time_fields =
     [(4, CHR ''-''), (2, CHR ''-''), (2, CHR ''T''), (2, CHR '':''), (2, CHR '':''), (2, CHR ''.''), (6, CHR ''Z'')]"

definition parse_time :: "string \<Rightarrow> gotime option" where
  "parse_time s =
     (case fields time_fields s of
        Some [y, m, d, h, mi, sec, us] \<Rightarrow>
          (if 1 \<le> m \<and> m \<le> 12 \<and> 1 \<le> d \<and> d \<le> days_in (is_leap y) m \<and> h < 24 \<and> mi < 60 \<and> sec < 60
           then Some (day_number y m d * us_per_day + ((h * 60 + mi) * 60 + sec) * 1000000 + us)
           else None)
      | _ \<Rightarrow> None)"

section \<open>Digits\<close>

lemma digit_cases: "n mod 10 \<in> {0, 1, 2, 3, 4, 5, 6, 7, 8, 9}" for n :: int
  by (simp add: insert_iff) presburger

lemma undigit_digit: "undigit (digit n) = Some (n mod 10)"
  using digit_cases [of n] by (auto simp: digit_def undigit_def char_le_code)

lemma unpad_append: "unpad acc (xs @ ys) = (case unpad acc xs of None \<Rightarrow> None | Some a \<Rightarrow> unpad a ys)"
  by (induction acc xs rule: unpad.induct) (auto split: option.splits)

lemma unpad_pad_acc: "unpad 0 (pad k n) = Some (n mod 10 ^ k)"
proof (induction k arbitrary: n)
  case (Suc k)
  have "10 * (n div 10 mod 10 ^ k) + n mod 10 = n mod 10 ^ Suc k"
    by (simp add: mod_mult2_eq [symmetric] zmod_zmult2_eq)
  with Suc show ?case by (simp add: unpad_append undigit_digit)
qed simp

lemma number_field_pad: "0 \<le> n \<Longrightarrow> n < 10 ^ k \<Longrightarrow> number_field k sep (pad k n @ sep # s) = Some (n, s)"
  by (simp add: unpad_pad_acc nth_append)

section \<open>Dates\<close>

lemma min_div:
  fixes x k :: int
  assumes "0 < k" "0 \<le> x" "x \<le> 4 * k"
  shows "0 \<le> min 3 (x div k)" "min 3 (x div k) \<le> 3"
    "0 \<le> x - k * min 3 (x div k)" "x - k * min 3 (x div k) \<le> k"
    "x - k * min 3 (x div k) = k \<Longrightarrow> x = 4 * k \<and> min 3 (x div k) = 3"
proof -
  have q: "x = k * (x div k) + x mod k" "0 \<le> x mod k" "x mod k < k" "0 \<le> x div k"
    using assms by (simp_all add: pos_imp_zdiv_nonneg_iff)
  show "0 \<le> min 3 (x div k)" "min 3 (x div k) \<le> 3" using q(4) by simp_all
  have "k * min 3 (x div k) = k * (x div k) \<or> min 3 (x div k) = 3 \<and> x = 4 * k"
  proof (cases "x div k \<le> 3")
    case False
    then have "k * 4 \<le> k * (x div k)" using assms(1) by (intro mult_left_mono) auto
    then have "x = 4 * k" using q(1,2) assms(3) by linarith
    with False show ?thesis by (auto simp: min_def)
  qed (simp add: min_def)
  then show "0 \<le> x - k * min 3 (x div k)" "x - k * min 3 (x div k) \<le> k"
    "x - k * min 3 (x div k) = k \<Longrightarrow> x = 4 * k \<and> min 3 (x div k) = 3"
    using q(1-3) assms(1) by (elim disjE conjE; linarith)+
qed

lemma civil_parts:
  assumes "0 \<le> d"
  obtains n400 n100 n4 n1 yday where
    "d = 146097 * n400 + 36524 * n100 + 1461 * n4 + 365 * n1 + yday"
    "0 \<le> n400" "0 \<le> n100" "n100 \<le> 3" "0 \<le> n4" "n4 \<le> 24" "0 \<le> n1" "n1 \<le> 3" "0 \<le> yday" "yday \<le> 365"
    "yday = 365 \<longrightarrow> n1 = 3 \<and> (n4 \<noteq> 24 \<or> n100 = 3)"
    "civil d = (400 * n400 + 100 * n100 + 4 * n4 + n1 + 1, month_day (n1 = 3 \<and> (n4 \<noteq> 24 \<or> n100 = 3)) yday)"
proof -
  define n400 d1 where "n400 = d div 146097" and "d1 = d mod 146097"
  define n100 where "n100 = min 3 (d1 div 36524)"
  define d2 where "d2 = d1 - 36524 * n100"
  define n4 where "n4 = d2 div 1461"
  define d3 where "d3 = d2 - 1461 * n4"
  define n1 where "n1 = min 3 (d3 div 365)"
  define yday where "yday = d3 - 365 * n1"
  have d1: "d = 146097 * n400 + d1" "0 \<le> d1" "d1 < 146097" "0 \<le> n400"
    using assms by (auto simp: n400_def d1_def pos_imp_zdiv_nonneg_iff)
  have "(0::int) < 36524" "d1 \<le> 4 * 36524" using d1(3) by simp_all
  note m = min_div [OF this(1) d1(2) this(2), folded n100_def, folded d2_def]
  have d2: "0 \<le> n100" "n100 \<le> 3" "0 \<le> d2" "d2 \<le> 36524" "n100 \<noteq> 3 \<longrightarrow> d2 \<noteq> 36524"
    using m by auto
  have "d3 = d2 mod 1461" by (simp add: d3_def n4_def minus_mult_div_eq_mod)
  then have d3: "0 \<le> d3" "d3 < 1461" "d2 = 1461 * n4 + d3"
    by (simp_all add: n4_def)
  have n4: "0 \<le> n4" using d2(3) by (simp add: n4_def pos_imp_zdiv_nonneg_iff)
  have n4': "n4 \<le> 24" using d2(4) d3 by linarith
  have n4'': "n4 = 24 \<and> n100 \<noteq> 3 \<longrightarrow> d3 \<noteq> 1460" using d2(5) d3(3) by auto
  have y: "0 \<le> n1" "n1 \<le> 3" "0 \<le> yday" "yday \<le> 365" "yday = 365 \<longrightarrow> n1 = 3 \<and> d3 = 1460"
  proof -
    have "(0::int) < 365" "d3 \<le> 4 * 365" using d3(2) by simp_all
    note m = min_div [OF this(1) d3(1) this(2), folded n1_def, folded yday_def]
    show "0 \<le> n1" "n1 \<le> 3" "0 \<le> yday" "yday \<le> 365" "yday = 365 \<longrightarrow> n1 = 3 \<and> d3 = 1460"
      using m by auto
  qed
  have leap: "yday = 365 \<longrightarrow> n1 = 3 \<and> (n4 \<noteq> 24 \<or> n100 = 3)"
    using y(5) n4'' by auto
  have sum: "d = 146097 * n400 + 36524 * n100 + 1461 * n4 + 365 * n1 + yday"
    using d1(1) by (simp add: d2_def d3_def yday_def)
  have "civil d = (400 * n400 + 100 * n100 + 4 * n4 + n1 + 1, month_day (n1 = 3 \<and> (n4 \<noteq> 24 \<or> n100 = 3)) yday)"
    unfolding civil_def Let_def n400_def [symmetric] d1_def [symmetric] n100_def [symmetric] d2_def [symmetric]
      n4_def [symmetric] d3_def [symmetric] n1_def [symmetric] yday_def [symmetric]
    by (simp split: prod.split)
  with sum d1(4) d2(1,2) n4 n4' y(1-4) leap show ?thesis by (intro that)
qed

lemma mod_of_small:
  fixes q k r :: int
  assumes "0 < r" "r \<le> k"
  shows "(k * q + r) mod k = 0 \<longleftrightarrow> r = k"
proof (cases "r = k")
  case False
  with assms have "(k * q + r) mod k = r" by simp
  with assms False show ?thesis by simp
qed simp

lemma is_leap_parts:
  assumes "0 \<le> n100" "n100 \<le> 3" "0 \<le> n4" "n4 \<le> 24" "0 \<le> n1" "n1 \<le> (3::int)"
  shows "is_leap (400 * n400 + 100 * n100 + 4 * n4 + n1 + 1) \<longleftrightarrow> n1 = 3 \<and> (n4 \<noteq> 24 \<or> n100 = 3)"
proof -
  let ?y = "400 * n400 + 100 * n100 + 4 * n4 + n1 + 1"
  have 4: "?y = 4 * (100 * n400 + 25 * n100 + n4) + (n1 + 1)" by simp
  have 100: "?y = 100 * (4 * n400 + n100) + (4 * n4 + n1 + 1)" by simp
  have 400: "?y = 400 * n400 + (100 * n100 + 4 * n4 + n1 + 1)" by simp
  have "?y mod 4 = 0 \<longleftrightarrow> n1 + 1 = 4" unfolding 4 by (rule mod_of_small) (use assms in auto)
  moreover have "?y mod 100 = 0 \<longleftrightarrow> 4 * n4 + n1 + 1 = 100"
    unfolding 100 by (rule mod_of_small) (use assms in auto)
  moreover have "?y mod 400 = 0 \<longleftrightarrow> 100 * n100 + 4 * n4 + n1 + 1 = 400"
    unfolding 400 by (rule mod_of_small) (use assms in auto)
  ultimately have "is_leap ?y \<longleftrightarrow> n1 + 1 = 4 \<and> (4 * n4 + n1 + 1 \<noteq> 100 \<or> 100 * n100 + 4 * n4 + n1 + 1 = 400)"
    unfolding is_leap_def by simp
  also have "\<dots> \<longleftrightarrow> n1 = 3 \<and> (n4 \<noteq> 24 \<or> n100 = 3)"
    by (cases "n1 = 3"; cases "n4 = 24") auto
  finally show ?thesis .
qed

text \<open>Every day of a year has its month and day.\<close>

definition month_day_ok :: "bool \<Rightarrow> int \<Rightarrow> bool" where
  "month_day_ok leap yday =
     (case month_day leap yday of (m, d) \<Rightarrow>
        1 \<le> m \<and> m \<le> 12 \<and> 1 \<le> d \<and> d \<le> days_in leap m \<and> d \<le> 31 \<and> days_before leap ! nat (m - 1) + d - 1 = yday)"

lemma month_day_all: "list_all (month_day_ok False) [0..364]" "list_all (month_day_ok True) [0..365]"
  by code_simp+

lemma month_day_inverse:
  assumes "0 \<le> yday" "yday \<le> 365" "yday = 365 \<longrightarrow> leap"
  shows "month_day_ok leap yday"
proof (cases leap)
  case True
  with assms month_day_all(2) show ?thesis by (simp add: list_all_iff)
next
  case False
  with assms month_day_all(1) show ?thesis by (simp add: list_all_iff)
qed

lemma day_number_civil:
  assumes "0 \<le> d" "d < 3652059"
  shows "case civil d of (y, m, day) \<Rightarrow>
    day_number y m day = d \<and> 1 \<le> y \<and> y \<le> 9999 \<and> 1 \<le> m \<and> m \<le> 12 \<and> 1 \<le> day \<and> day \<le> 31 \<and>
    day \<le> days_in (is_leap y) m"
proof -
  obtain n400 n100 n4 n1 yday where
    d: "d = 146097 * n400 + 36524 * n100 + 1461 * n4 + 365 * n1 + yday" and
    b: "0 \<le> n400" "0 \<le> n100" "n100 \<le> 3" "0 \<le> n4" "n4 \<le> 24" "0 \<le> n1" "n1 \<le> 3" "0 \<le> yday" "yday \<le> 365" and
    last: "yday = 365 \<longrightarrow> n1 = 3 \<and> (n4 \<noteq> 24 \<or> n100 = 3)" and
    civil: "civil d = (400 * n400 + 100 * n100 + 4 * n4 + n1 + 1, month_day (n1 = 3 \<and> (n4 \<noteq> 24 \<or> n100 = 3)) yday)"
    using civil_parts [OF assms(1)] .
  define y1 where "y1 = 400 * n400 + 100 * n100 + 4 * n4 + n1"
  have div: "y1 div 4 = 100 * n400 + 25 * n100 + n4" "y1 div 100 = 4 * n400 + n100" "y1 div 400 = n400"
    using b by (auto intro!: int_div_pos_eq [where r = n1] int_div_pos_eq [where r = "4 * n4 + n1"]
        int_div_pos_eq [where r = "100 * n100 + 4 * n4 + n1"] simp: y1_def)
  have leap: "is_leap (y1 + 1) \<longleftrightarrow> n1 = 3 \<and> (n4 \<noteq> 24 \<or> n100 = 3)"
    unfolding y1_def using b by (intro is_leap_parts)
  then have civil': "civil d = (y1 + 1, month_day (is_leap (y1 + 1)) yday)" and last': "yday = 365 \<longrightarrow> is_leap (y1 + 1)"
    using civil last by (simp_all only: leap) (simp_all add: y1_def)
  obtain m day where md: "month_day (is_leap (y1 + 1)) yday = (m, day)" by fastforce
  have sum: "365 * y1 + y1 div 4 - y1 div 100 + y1 div 400 + yday = d"
    unfolding div using d by (simp add: y1_def)
  have "y1 \<le> 9998"
  proof (rule ccontr)
    assume "\<not> y1 \<le> 9998"
    then have y: "9999 \<le> 400 * n400 + 100 * n100 + 4 * n4 + n1" by (simp add: y1_def)
    have "n400 \<le> 24" using d assms(2) b by linarith
    with y b have "n400 = 24" "n100 = 3" "n4 = 24" "n1 = 3" by linarith+
    with d assms(2) b show False by linarith
  qed
  moreover have "0 \<le> y1" using b by (simp add: y1_def)
  moreover have "month_day_ok (is_leap (y1 + 1)) yday" by (rule month_day_inverse [OF b(8,9) last'])
  ultimately show ?thesis
    using sum by (simp add: civil' md month_day_ok_def day_number_def)
qed

section \<open>Round trip\<close>

text \<open>A time from year 1 to year 9999 is read back as it was, to the microsecond.\<close>

lemma parse_format_time:
  assumes "0 \<le> t" "t < 3652059 * us_per_day"
  shows "parse_time (format_time t) = Some t"
proof -
  define day us where "day = t div us_per_day" and "us = t mod us_per_day"
  obtain y m d where c: "civil day = (y, m, d)" by (metis prod_cases3)
  have t: "t = day * us_per_day + us" "0 \<le> us" "us < us_per_day"
    by (simp_all add: day_def us_def us_per_day_def)
  have "0 \<le> day" "day < 3652059"
    using assms by (auto simp: day_def us_per_day_def pos_imp_zdiv_nonneg_iff)
  with day_number_civil [of day] c
  have day: "day_number y m d = day" "1 \<le> y" "y \<le> 9999" "1 \<le> m" "m \<le> 12" "1 \<le> d" "d \<le> 31"
    "d \<le> days_in (is_leap y) m" by simp_all
  define h mi s f where "h = us div 3600000000" and "mi = us div 60000000 mod 60"
    and "s = us div 1000000 mod 60" and "f = us mod 1000000"
  have hms: "0 \<le> h" "h < 24" "0 \<le> mi" "mi < 60" "0 \<le> s" "s < 60" "0 \<le> f" "f < 1000000"
    "us = ((h * 60 + mi) * 60 + s) * 1000000 + f"
  proof -
    define q q60 where "q = us div 1000000" and "q60 = us div 1000000 div 60"
    have parts: "h = q60 div 60" "mi = q60 mod 60" "s = q mod 60"
      by (simp_all add: q_def q60_def h_def mi_def s_def zdiv_zmult2_eq [symmetric])
    have q: "us = 1000000 * q + f" "q = 60 * q60 + s" "q60 = 60 * h + mi"
      unfolding parts by (simp_all only: q_def q60_def f_def mult_div_mod_eq)
    have ms: "0 \<le> mi" "mi < 60" "0 \<le> s" "s < 60" by (simp_all add: parts)
    have f: "0 \<le> f" "f < 1000000" by (simp_all add: f_def)
    have "0 \<le> q" "q < 86400"
      using t(2,3) q(1) f unfolding us_per_day_def by linarith+
    then show "0 \<le> h" "h < 24" "0 \<le> mi" "mi < 60" "0 \<le> s" "s < 60" "0 \<le> f" "f < 1000000"
      using q ms f by linarith+
    have "us = 1000000 * (60 * (60 * h + mi) + s) + f" by (simp only: q(3) [symmetric] q(2) [symmetric] q(1) [symmetric])
    then show "us = ((h * 60 + mi) * 60 + s) * 1000000 + f" by (simp add: algebra_simps)
  qed
  have fmt: "format_time t = pad 4 y @ CHR ''-'' # pad 2 m @ CHR ''-'' # pad 2 d @ CHR ''T'' # pad 2 h @ CHR '':'' #
      pad 2 mi @ CHR '':'' # pad 2 s @ CHR ''.'' # pad 6 f @ CHR ''Z'' # []"
    by (simp add: format_time_def Let_def day_def [symmetric] us_def [symmetric] c h_def mi_def s_def f_def del: pad.simps)
  have "fields time_fields (format_time t) = Some [y, m, d, h, mi, s, f]"
    unfolding fmt time_fields_def using day hms
    by (simp add: number_field_pad del: number_field.simps pad.simps)
  then show ?thesis
    using day hms t by (simp add: parse_time_def)
qed

end
