(* ===== verification/Json.thy ===== *)
theory Json
  imports Compact Timetext
begin

text \<open>
  JSON text, as \<open>encoding/json\<close> reads it: the tokens of the text, then one pass over them with a
  stack of the arrays and objects that are open. What the encoder of this repository writes reads
  back as the value it wrote.
\<close>

section \<open>Tokens\<close>

datatype token =
    TNull | TBool bool | TInt int | TReal string | TString string
  | TOpenArray | TCloseArray | TOpenObject | TCloseObject | TComma | TColon

definition json_space :: "char \<Rightarrow> bool" where
  "json_space c \<longleftrightarrow> bc c \<in> {0x20, 0x09, 0x0A, 0x0D}"

definition is_digit :: "char \<Rightarrow> bool" where
  "is_digit c \<longleftrightarrow> undigit c \<noteq> None"

text \<open>The digits at the front, at least one, and the rest.\<close>

definition digits :: "string \<Rightarrow> (string \<times> string) option" where
  "digits s = (if takeWhile is_digit s = [] then None else Some (takeWhile is_digit s, dropWhile is_digit s))"

text \<open>The integer part: no leading zero.\<close>

definition int_part :: "string \<Rightarrow> (string \<times> string) option" where
  "int_part s = (case s of [] \<Rightarrow> None | c # t \<Rightarrow> if c = CHR ''0'' then Some ([c], t) else digits s)"

definition fraction :: "string \<Rightarrow> (string \<times> string) option" where
  "fraction s =
     (case s of
        [] \<Rightarrow> Some ([], [])
      | c # t \<Rightarrow> if c = CHR ''.'' then map_option (\<lambda>(ds, r). (c # ds, r)) (digits t) else Some ([], s))"

definition exponent :: "string \<Rightarrow> (string \<times> string) option" where
  "exponent s =
     (case s of
        [] \<Rightarrow> Some ([], [])
      | c # t \<Rightarrow>
          if c = CHR ''e'' \<or> c = CHR ''E'' then
            (case t of
               [] \<Rightarrow> None
             | d # u \<Rightarrow>
                 if d = CHR ''+'' \<or> d = CHR ''-'' then map_option (\<lambda>(ds, r). (c # d # ds, r)) (digits u)
                 else map_option (\<lambda>(ds, r). (c # ds, r)) (digits t))
          else Some ([], s))"

text \<open>A number: an integer literal, or one with a fraction or an exponent, kept as its text.\<close>

definition sign_part :: "string \<Rightarrow> bool \<times> string" where
  "sign_part s = (case s of [] \<Rightarrow> (False, []) | c # t \<Rightarrow> if c = CHR ''-'' then (True, t) else (False, s))"

definition number :: "string \<Rightarrow> (token \<times> string) option" where
  "number s =
     (let (neg, s1) = sign_part s in
      case int_part s1 of
        None \<Rightarrow> None
      | Some (ds, s2) \<Rightarrow>
          (case fraction s2 of
             None \<Rightarrow> None
           | Some (fs, s3) \<Rightarrow>
               (case exponent s3 of
                  None \<Rightarrow> None
                | Some (es, s4) \<Rightarrow>
                    if fs = [] \<and> es = [] then
                      map_option (\<lambda>n. (TInt (if neg then - n else n), s4)) (unpad 0 ds)
                    else Some (TReal ((if neg then ''-'' else []) @ ds @ fs @ es), s4))))"

text \<open>One token, from the first character that is not a space.\<close>

definition token :: "char \<Rightarrow> string \<Rightarrow> (token \<times> string) option" where
  "token c s =
     (if c = CHR ''['' then Some (TOpenArray, s)
      else if c = CHR '']'' then Some (TCloseArray, s)
      else if c = CHR ''{'' then Some (TOpenObject, s)
      else if c = CHR ''}'' then Some (TCloseObject, s)
      else if c = CHR '','' then Some (TComma, s)
      else if c = CHR '':'' then Some (TColon, s)
      else if c = dquote then map_option (\<lambda>(u, r). (TString (ToValid u), r)) (json_unquote s)
      else if c = CHR ''n'' then (if take 3 s = ''ull'' then Some (TNull, drop 3 s) else None)
      else if c = CHR ''t'' then (if take 3 s = ''rue'' then Some (TBool True, drop 3 s) else None)
      else if c = CHR ''f'' then (if take 4 s = ''alse'' then Some (TBool False, drop 4 s) else None)
      else number (c # s))"

definition rest_within :: "nat \<Rightarrow> (string \<times> string) option \<Rightarrow> bool" where
  "rest_within n x \<longleftrightarrow> (case x of None \<Rightarrow> True | Some (u, r) \<Rightarrow> length r \<le> n)"

lemma rest_within_simps [simp]:
  "rest_within n None" "rest_within n (Some (u, r)) \<longleftrightarrow> length r \<le> n" "rest_within n (prepend v x) = rest_within n x"
  by (simp_all add: rest_within_def prepend_def split: option.split prod.split)

lemma json_unquote_within: "length s \<le> n \<Longrightarrow> rest_within n (json_unquote s)"
proof (induction "length s" arbitrary: s rule: less_induct)
  case less
  show ?case
  proof (cases s)
    case (Cons c t)
    have IH: "rest_within n (json_unquote v)" if "length v \<le> length t" for v
      using less.hyps [of v] less.prems that Cons by simp
    show ?thesis
      using less.prems unfolding Cons json_unquote.simps(2) [of c t]
      by (simp add: IH del: json_unquote.simps split: option.split list.split)
  qed simp
qed

lemma json_unquote_shrinks: "json_unquote s = Some (u, r) \<Longrightarrow> length r \<le> length s"
  using json_unquote_within [of s "length s"] by simp

lemma digits_shrinks: "digits s = Some (ds, r) \<Longrightarrow> length r < length s"
  by (cases s) (auto simp: digits_def length_dropWhile_le le_imp_less_Suc split: if_splits)

lemma number_shrinks: "number s = Some (t, r) \<Longrightarrow> length r < length s"
proof -
  assume run: "number s = Some (t, r)"
  obtain neg s1 where s1: "sign_part s = (neg, s1)" by fastforce
  with run obtain ds s2 fs s3 es where parts: "int_part s1 = Some (ds, s2)" "fraction s2 = Some (fs, s3)" "exponent s3 = Some (es, r)"
    by (auto simp: number_def split: option.splits if_splits)
  have "length s1 \<le> length s" using s1 by (auto simp: sign_part_def split: list.splits if_splits)
  moreover have "length s2 < length s1"
    using parts(1) digits_shrinks [of s1] by (auto simp: int_part_def split: list.splits if_splits)
  moreover have "length s3 \<le> length s2"
    using parts(2) by (auto simp: fraction_def split: list.splits if_splits dest!: digits_shrinks)
  moreover have "length r \<le> length s3"
    using parts(3) by (auto simp: exponent_def split: list.splits if_splits dest!: digits_shrinks)
  ultimately show ?thesis by simp
qed

lemma token_shrinks: "token c s = Some (t, r) \<Longrightarrow> length r < Suc (length s)"
  by (auto simp: token_def le_imp_less_Suc dest: json_unquote_shrinks number_shrinks split: if_splits)

function tokens :: "string \<Rightarrow> token list option" where
  "tokens [] = Some []"
| "tokens (c # s) =
     (if json_space c then tokens s
      else
        (case token c s of
           None \<Rightarrow> None
         | Some (t, r) \<Rightarrow> map_option ((#) t) (tokens r)))"
  by pat_completeness auto
termination
  by (relation "measure length") (auto dest: token_shrinks)

section \<open>Values\<close>

text \<open>The arrays and objects that are open, innermost first, and what may come next.\<close>

datatype frame = FArray "json list" | FObject "(string \<times> json) list" string

datatype mode =
    MValue                                   \<comment> \<open>a value\<close>
  | MFirst                                   \<comment> \<open>after an opening bracket: a value, or the closing one\<close>
  | MKey "(string \<times> json) list" bool          \<comment> \<open>a key; after an opening brace, also the closing one\<close>
  | MColon "(string \<times> json) list" string      \<comment> \<open>the colon after a key\<close>
  | MAfter json                              \<comment> \<open>a value just ended\<close>

definition max_depth :: nat where
  "max_depth = 10000"

fun value_token :: "token \<Rightarrow> frame list \<Rightarrow> (frame list \<times> mode) option" where
  "value_token TNull st = Some (st, MAfter JNull)"
| "value_token (TBool b) st = Some (st, MAfter (JBool b))"
| "value_token (TInt n) st = Some (st, MAfter (JNumber n))"
| "value_token (TReal s) st = Some (st, MAfter (JReal s))"
| "value_token (TString s) st = Some (st, MAfter (JString s))"
| "value_token TOpenArray st = (if length st < max_depth then Some (FArray [] # st, MFirst) else None)"
| "value_token TOpenObject st = (if length st < max_depth then Some (st, MKey [] True) else None)"
| "value_token _ st = None"

fun step :: "token \<Rightarrow> frame list \<times> mode \<Rightarrow> (frame list \<times> mode) option" where
  "step t (st, MValue) = value_token t st"
| "step t (st, MFirst) =
     (if t = TCloseArray then (case st of [] \<Rightarrow> None | f # st' \<Rightarrow> Some (st', MAfter (JArray []))) else value_token t st)"
| "step t (st, MKey ms first) =
     (case t of
        TString k \<Rightarrow> Some (st, MColon ms k)
      | TCloseObject \<Rightarrow> if first then Some (st, MAfter (JObject ms)) else None
      | _ \<Rightarrow> None)"
| "step t (st, MColon ms k) = (if t = TColon then Some (FObject ms k # st, MValue) else None)"
| "step t (st, MAfter j) =
     (case st of
        [] \<Rightarrow> None
      | FArray js # st' \<Rightarrow>
          (if t = TComma then Some (FArray (js @ [j]) # st', MValue)
           else if t = TCloseArray then Some (st', MAfter (JArray (js @ [j]))) else None)
      | FObject ms k # st' \<Rightarrow>
          (if t = TComma then Some (st', MKey (ms @ [(k, j)]) False)
           else if t = TCloseObject then Some (st', MAfter (JObject (ms @ [(k, j)]))) else None))"

fun run_tokens :: "token list \<Rightarrow> frame list \<times> mode \<Rightarrow> (frame list \<times> mode) option" where
  "run_tokens [] s = Some s"
| "run_tokens (t # ts) s = (case step t s of None \<Rightarrow> None | Some s' \<Rightarrow> run_tokens ts s')"

text \<open>A whole text that holds exactly one value.\<close>

definition parse_json :: "string \<Rightarrow> json option" where
  "parse_json s =
     (case tokens s of
        None \<Rightarrow> None
      | Some ts \<Rightarrow>
          (case run_tokens ts ([], MValue) of
             Some ([], MAfter j) \<Rightarrow> Some j
           | _ \<Rightarrow> None))"

section \<open>What was encoded is read back\<close>

text \<open>The tokens of a value, and how deep it is.\<close>

fun token_commas :: "token list list \<Rightarrow> token list" where
  "token_commas [] = []"
| "token_commas [ts] = ts"
| "token_commas (ts # us # tss) = ts @ TComma # token_commas (us # tss)"

fun json_tokens :: "json \<Rightarrow> token list" where
  "json_tokens JNull = [TNull]"
| "json_tokens (JBool b) = [TBool b]"
| "json_tokens (JNumber n) = [TInt n]"
| "json_tokens (JReal s) = [TReal s]"
| "json_tokens (JString s) = [TString s]"
| "json_tokens (JArray js) = TOpenArray # token_commas (map json_tokens js) @ [TCloseArray]"
| "json_tokens (JObject kvs) =
     TOpenObject # token_commas (map (\<lambda>(k, v). TString k # TColon # json_tokens v) kvs) @ [TCloseObject]"

fun json_depth :: "json \<Rightarrow> nat" where
  "json_depth (JArray js) = Suc (foldr max (map json_depth js) 0)"
| "json_depth (JObject kvs) = Suc (foldr max (map (\<lambda>(k, v). json_depth v) kvs) 0)"
| "json_depth _ = 0"

lemma depth_member:
  "n + foldr max (map f xs) 0 \<le> m \<Longrightarrow> x \<in> set xs \<Longrightarrow> n + f x \<le> (m :: nat)"
  by (induction xs) auto

lemma run_append: "run_tokens (ts @ us) s = (case run_tokens ts s of None \<Rightarrow> None | Some s' \<Rightarrow> run_tokens us s')"
  by (induction ts s rule: run_tokens.induct) (auto split: option.split)

text \<open>A value that starts where a value may, ends just after itself.\<close>

lemma run_elements:
  assumes "\<And>j st. j \<in> set js \<Longrightarrow> length st + json_depth j \<le> max_depth \<Longrightarrow>
      run_tokens (json_tokens j) (st, MValue) = Some (st, MAfter j)"
    and "js \<noteq> []" "\<forall>j\<in>set js. Suc (length st) + json_depth j \<le> max_depth"
  shows "run_tokens (token_commas (map json_tokens js) @ [TCloseArray]) (FArray done # st, MValue) =
    Some (st, MAfter (JArray (done @ js)))"
  using assms
proof (induction js arbitrary: "done")
  case (Cons j js)
  then have j: "run_tokens (json_tokens j) (FArray done # st, MValue) = Some (FArray done # st, MAfter j)" by simp
  show ?case
  proof (cases js)
    case Nil
    with j show ?thesis by (simp add: run_append)
  next
    case (Cons j' js')
    with j Cons.IH [of "done @ [j]"] Cons.prems show ?thesis by (simp add: run_append)
  qed
qed simp

lemma run_members:
  assumes "\<And>k j st. (k, j) \<in> set kvs \<Longrightarrow> length st + json_depth j \<le> max_depth \<Longrightarrow>
      run_tokens (json_tokens j) (st, MValue) = Some (st, MAfter j)"
    and "kvs \<noteq> []" "\<forall>(k, j)\<in>set kvs. Suc (length st) + json_depth j \<le> max_depth"
  shows "run_tokens (token_commas (map (\<lambda>(k, v). TString k # TColon # json_tokens v) kvs) @ [TCloseObject]) (st, MKey done first) =
    Some (st, MAfter (JObject (done @ kvs)))"
  using assms
proof (induction kvs arbitrary: "done" first)
  case (Cons kv kvs)
  obtain k j where kv: "kv = (k, j)" by (cases kv)
  with Cons.prems have j: "run_tokens (json_tokens j) (FObject done k # st, MValue) = Some (FObject done k # st, MAfter j)"
    using Cons.prems(1) [of k j "FObject done k # st"] by simp
  show ?case
  proof (cases kvs)
    case Nil
    with j show ?thesis by (simp add: run_append kv)
  next
    case (Cons kv' kvs')
    have "run_tokens (token_commas (map (\<lambda>(k, v). TString k # TColon # json_tokens v) kvs) @ [TCloseObject])
        (st, MKey (done @ [kv]) False) = Some (st, MAfter (JObject ((done @ [kv]) @ kvs)))"
    proof (rule Cons.IH)
      show "run_tokens (json_tokens j) (st, MValue) = Some (st, MAfter j)"
        if "(k, j) \<in> set kvs" "length st + json_depth j \<le> max_depth" for k j st
        using Cons.prems(1) [of k j st] that by simp
    qed (use Cons Cons.prems in auto)
    with j show ?thesis by (simp add: run_append kv Cons)
  qed
qed simp

lemma run_first: "ts \<noteq> [] \<Longrightarrow> hd ts \<noteq> TCloseArray \<Longrightarrow> run_tokens ts (st, MFirst) = run_tokens ts (st, MValue)"
  by (cases ts) simp_all

lemma json_tokens_start: "json_tokens j \<noteq> [] \<and> hd (json_tokens j) \<noteq> TCloseArray"
  by (cases j) simp_all

lemma elements_start: "js \<noteq> [] \<Longrightarrow> token_commas (map json_tokens js) \<noteq> [] \<and> hd (token_commas (map json_tokens js)) \<noteq> TCloseArray"
  using json_tokens_start by (cases js; cases "tl js") auto

lemma run_value:
  "length st + json_depth j \<le> max_depth \<Longrightarrow> run_tokens (json_tokens j) (st, MValue) = Some (st, MAfter j)"
proof (induction j arbitrary: st)
  case (JArray js)
  have depth: "\<forall>j\<in>set js. Suc (length st) + json_depth j \<le> max_depth" "length st < max_depth"
    using JArray.prems depth_member [of "Suc (length st)" json_depth js max_depth] by auto
  show ?case
  proof (cases "js = []")
    case False
    have "run_tokens (token_commas (map json_tokens js) @ [TCloseArray]) (FArray [] # st, MValue) =
        Some (st, MAfter (JArray ([] @ js)))"
      by (rule run_elements) (use JArray.IH False depth in auto)
    then show ?thesis
      using depth(2) elements_start [OF False] by (simp add: run_first)
  qed (use depth in simp)
next
  case (JObject kvs)
  have depth: "\<forall>(k, j)\<in>set kvs. Suc (length st) + json_depth j \<le> max_depth" "length st < max_depth"
    using JObject.prems depth_member [of "Suc (length st)" "\<lambda>(k, j). json_depth j" kvs max_depth] by auto
  show ?case
  proof (cases "kvs = []")
    case False
    have "run_tokens (token_commas (map (\<lambda>(k, v). TString k # TColon # json_tokens v) kvs) @ [TCloseObject]) (st, MKey [] True) =
        Some (st, MAfter (JObject ([] @ kvs)))"
      by (rule run_members) (use JObject.IH False depth in \<open>auto intro: snds.intros\<close>)
    then show ?thesis using depth(2) by simp
  qed (use depth in simp)
qed simp_all

text \<open>Numbers.\<close>

lemma is_digit_digit [simp]: "is_digit (digit n)"
  by (simp add: is_digit_def undigit_digit)

lemma decimal_Nil [simp]: "decimal n \<noteq> []"
  by (subst decimal.simps) simp

lemma decimal_digits: "c \<in> set (decimal n) \<Longrightarrow> is_digit c"
proof (induction n rule: decimal.induct)
  case (1 n)
  show ?case using 1 decimal.simps [of n] by (auto split: if_splits)
qed

lemma unpad_decimal: "unpad 0 (decimal n) = Some (int n)"
proof (induction n rule: decimal.induct)
  case (1 n)
  show ?case
    by (subst decimal.simps) (use 1 in \<open>auto simp: unpad_append undigit_digit zmod_int zdiv_int\<close>)
qed

lemma digit_zero: "digit n = CHR ''0'' \<longleftrightarrow> n mod 10 = 0"
  using undigit_digit [of n] undigit_digit [of 0] by (auto simp: digit_def)

lemma decimal_leading: "hd (decimal n) = CHR ''0'' \<longleftrightarrow> n = 0"
proof (induction n rule: decimal.induct)
  case (1 n)
  show ?case by (subst decimal.simps) (use 1 in \<open>auto simp: digit_zero\<close>)
qed

text \<open>What follows a value.\<close>

definition ends :: "string \<Rightarrow> bool" where
  "ends s \<longleftrightarrow> s = [] \<or> hd s \<in> {CHR '','', CHR '']'', CHR ''}''}"

lemma ends_simps [simp]: "ends []" "ends (CHR '','' # s)" "ends (CHR '']'' # s)" "ends (CHR ''}'' # s)"
  by (simp_all add: ends_def)

lemma ends_cases: "ends s \<Longrightarrow> s = [] \<or> (\<exists>c t. s = c # t \<and> \<not> is_digit c \<and> c \<notin> {CHR ''.'', CHR ''e'', CHR ''E''})"
  by (cases s) (auto simp: ends_def is_digit_def undigit_def char_le_code)

lemma int_part_decimal: "ends s \<Longrightarrow> int_part (decimal n @ s) = Some (decimal n, s)"
proof -
  assume s: "ends s"
  have take_all: "takeWhile is_digit (decimal n @ s) = decimal n" "dropWhile is_digit (decimal n @ s) = s"
    using ends_cases [OF s] decimal_digits [of _ n] by (auto simp: takeWhile_append dropWhile_append)
  obtain c t where d: "decimal n = c # t" by (cases "decimal n") auto
  show ?thesis
  proof (cases "n = 0")
    case True
    then have "decimal n = ''0''" by (subst decimal.simps) (simp add: digit_def)
    then show ?thesis by (simp add: int_part_def)
  next
    case False
    with decimal_leading [of n] d take_all show ?thesis by (simp add: int_part_def digits_def)
  qed
qed

lemma number_AppendInt: "ends s \<Longrightarrow> number (AppendInt n @ s) = Some (TInt n, s)"
proof -
  assume s: "ends s"
  then have none: "fraction s = Some ([], s)" "exponent s = Some ([], s)"
    using ends_cases [OF s] by (auto simp: fraction_def exponent_def)
  obtain c t where d: "decimal (nat n) = c # t" by (cases "decimal (nat n)") auto
  then have "is_digit c" using decimal_digits [of c "nat n"] by simp
  then have "c \<noteq> CHR ''-''" by (auto simp: is_digit_def undigit_def char_le_code)
  then have "sign_part (AppendInt n @ s) = (n < 0, decimal (nat \<bar>n\<bar>) @ s)"
    using d by (auto simp: AppendInt_def sign_part_def)
  then show ?thesis by (simp add: number_def int_part_decimal [OF s] none unpad_decimal)
qed

section \<open>The tokens of an encoded value\<close>

text \<open>A value the encoder writes: every string is valid UTF-8, and every number an integer.\<close>

fun text_ok :: "json \<Rightarrow> bool" where
  "text_ok (JReal s) = False"
| "text_ok (JString s) = valid_utf8 s"
| "text_ok (JArray js) = list_all text_ok js"
| "text_ok (JObject kvs) = list_all (\<lambda>(k, v). valid_utf8 k \<and> text_ok v) kvs"
| "text_ok _ = True"

lemma token_string: "valid_utf8 u \<Longrightarrow> tokens (marshal_string u @ s) = map_option ((#) (TString u)) (tokens s)"
proof -
  assume u: "valid_utf8 u"
  obtain lit where "AppendString [] u = dquote # lit" "json_unquote (lit @ s) = Some (u, s)"
    using json_unquote_AppendString [of u s] u by (auto simp: ToValid_valid)
  then show ?thesis
    by (simp add: marshal_string_def tokens.simps(2) token_def json_space_def ToValid_valid [OF u])
qed

lemma bc_punctuation:
  "bc (CHR ''['') = 0x5B" "bc (CHR '']'') = 0x5D" "bc (CHR ''{'') = 0x7B" "bc (CHR ''}'') = 0x7D" "bc (CHR '','') = 0x2C"
  "bc (CHR '':'') = 0x3A" "bc (CHR ''n'') = 0x6E" "bc (CHR ''t'') = 0x74" "bc (CHR ''f'') = 0x66" "bc (CHR ''-'') = 0x2D"
  by (simp_all add: bc_def)

declare tokens.simps(2) [simp del]

lemma token_punctuation:
  "tokens (CHR ''['' # s) = map_option ((#) TOpenArray) (tokens s)" "tokens (CHR '']'' # s) = map_option ((#) TCloseArray) (tokens s)"
  "tokens (CHR ''{'' # s) = map_option ((#) TOpenObject) (tokens s)" "tokens (CHR ''}'' # s) = map_option ((#) TCloseObject) (tokens s)"
  "tokens (CHR '','' # s) = map_option ((#) TComma) (tokens s)" "tokens (CHR '':'' # s) = map_option ((#) TColon) (tokens s)"
  by (simp_all add: tokens.simps(2) token_def json_space_def bc_punctuation)

lemma is_digit_bc: "is_digit c \<longleftrightarrow> 0x30 \<le> bc c \<and> bc c \<le> 0x39"
  by (simp add: is_digit_def undigit_def char_le_code bc_def)

lemma digit_start: "is_digit c \<or> c = CHR ''-'' \<Longrightarrow> \<not> json_space c \<and> token c s = number (c # s)"
proof -
  assume "is_digit c \<or> c = CHR ''-''"
  then have "bc c = 0x2D \<or> 0x30 \<le> bc c \<and> bc c \<le> 0x39" by (auto simp: is_digit_bc bc_punctuation)
  then have "bc c \<notin> {0x5B, 0x5D, 0x7B, 0x7D, 0x2C, 0x3A, 0x6E, 0x74, 0x66, 0x22}" "\<not> json_space c"
    by (auto simp: json_space_def)
  moreover from this(1) have "c \<noteq> CHR ''['' \<and> c \<noteq> CHR '']'' \<and> c \<noteq> CHR ''{'' \<and> c \<noteq> CHR ''}'' \<and> c \<noteq> CHR '','' \<and>
      c \<noteq> CHR '':'' \<and> c \<noteq> CHR ''n'' \<and> c \<noteq> CHR ''t'' \<and> c \<noteq> CHR ''f'' \<and> c \<noteq> dquote"
    by (intro conjI notI) (simp_all add: bc_punctuation)
  ultimately show ?thesis by (simp add: token_def)
qed

lemma token_number: "ends s \<Longrightarrow> tokens (AppendInt n @ s) = map_option ((#) (TInt n)) (tokens s)"
proof -
  assume s: "ends s"
  obtain c t where ct: "AppendInt n = c # t" by (cases "AppendInt n") (auto simp: AppendInt_def split: if_splits)
  moreover have "is_digit c \<or> c = CHR ''-''"
    using ct decimal_digits [of c "nat n"] by (auto simp: AppendInt_def split: if_splits)
  ultimately show ?thesis using number_AppendInt [OF s, of n] digit_start [of c "t @ s"] by (simp add: tokens.simps(2))
qed

definition prefixed :: "token list \<Rightarrow> token list option \<Rightarrow> token list option" where
  "prefixed ts r = map_option ((@) ts) r"

lemma prefixed_prefixed [simp]: "prefixed ts (prefixed us r) = prefixed (ts @ us) r"
  by (cases r) (simp_all add: prefixed_def)

lemma prefixed_one: "map_option ((#) t) r = prefixed [t] r"
  by (cases r) (simp_all add: prefixed_def)

lemmas token_rules = token_string token_punctuation token_number prefixed_one

text \<open>A list, separated by commas.\<close>

lemma tokens_commas:
  assumes "\<And>x s. x \<in> set xs \<Longrightarrow> ends s \<Longrightarrow> tokens (f x @ s) = prefixed (g x) (tokens s)" "ends s"
  shows "tokens (commas (map f xs) @ s) = prefixed (token_commas (map g xs)) (tokens s)"
  using assms
proof (induction xs rule: induct_list012)
  case 1
  then show ?case by (cases "tokens s") (simp_all add: prefixed_def)
next
  case (3 x y zs)
  then show ?case by (simp add: token_punctuation prefixed_one)
qed simp

lemma tokens_encode: "text_ok j \<Longrightarrow> ends s \<Longrightarrow> tokens (encode j @ s) = prefixed (json_tokens j) (tokens s)"
proof (induction j arbitrary: s)
  case (JArray js)
  then show ?case
    using tokens_commas [of js encode json_tokens "CHR '']'' # s"] by (simp add: token_rules list_all_iff)
next
  case (JObject kvs)
  have "tokens (commas (map (\<lambda>(k, v). marshal_string k @ '':'' @ encode v) kvs) @ CHR ''}'' # s) =
      prefixed (token_commas (map (\<lambda>(k, v). TString k # TColon # json_tokens v) kvs)) (tokens (CHR ''}'' # s))"
  proof (rule tokens_commas)
    fix kv :: "string \<times> json" and s :: string
    assume kv: "kv \<in> set kvs" and s: "ends s"
    obtain k v where "kv = (k, v)" by (cases kv)
    with kv s JObject show "tokens ((case kv of (k, v) \<Rightarrow> marshal_string k @ '':'' @ encode v) @ s) =
        prefixed (case kv of (k, v) \<Rightarrow> TString k # TColon # json_tokens v) (tokens s)"
      by (force simp: token_rules list_all_iff intro: snds.intros)
  qed simp
  then show ?case by (simp add: token_rules)
next
  case (JBool b)
  then show ?case
    by (cases b) (simp_all add: tokens.simps(2) token_def json_space_def bc_punctuation prefixed_one)
next
  case JNull
  then show ?case by (simp add: tokens.simps(2) token_def json_space_def bc_punctuation prefixed_one)
qed (simp_all add: token_rules)

text \<open>Reading back what was written.\<close>

lemma parse_encode: "text_ok j \<Longrightarrow> json_depth j \<le> max_depth \<Longrightarrow> parse_json (encode j) = Some j"
  using tokens_encode [of j "[]"] run_value [of "[]" j] by (simp add: parse_json_def prefixed_def)

end
