(* ===== verification/Quote.thy ===== *)
theory Quote
  imports Ndjson
begin

text \<open>
  Go's \<open>%q\<close> of a string (\<open>strconv.Quote\<close>), which \<open>queryItemKey\<close> of package dcb relies on to
  keep the boundaries between its fields: its text is self-delimiting. \<open>is_print\<close> stands for
  Go's table of the printable runes outside ASCII.
\<close>

text \<open>The last \<open>k\<close> hexadecimal digits.\<close>

fun to_hex :: "nat \<Rightarrow> nat \<Rightarrow> string" where
  "to_hex 0 n = []"
| "to_hex (Suc k) n = to_hex k (n div 16) @ [hex_digit (n mod 16)]"

fun from_hex :: "nat \<Rightarrow> string \<Rightarrow> nat option" where
  "from_hex acc [] = Some acc"
| "from_hex acc (c # s) = (case hex_val c of None \<Rightarrow> None | Some d \<Rightarrow> from_hex (acc * 16 + d) s)"

text \<open>The letter of a one-letter escape.\<close>

definition letter_escape :: "nat \<Rightarrow> char option" where
  "letter_escape r =
     (if r = 7 then Some (CHR ''a'') else if r = 8 then Some (CHR ''b'')
      else if r = 12 then Some (CHR ''f'') else if r = 10 then Some (CHR ''n'')
      else if r = 13 then Some (CHR ''r'') else if r = 9 then Some (CHR ''t'')
      else if r = 11 then Some (CHR ''v'') else None)"

definition printable :: "(nat \<Rightarrow> bool) \<Rightarrow> nat \<Rightarrow> bool" where
  "printable is_print r = (if r < 0x80 then 0x20 \<le> r \<and> r < 0x7F else is_print r)"

definition quote_rune :: "(nat \<Rightarrow> bool) \<Rightarrow> nat \<Rightarrow> string" where
  "quote_rune is_print r =
     (if r = bc dquote \<or> r = bc bslash then [bslash, byte r]
      else if printable is_print r then EncodeRune r
      else case letter_escape r of
        Some c \<Rightarrow> [bslash, c]
      | None \<Rightarrow>
          (if r < 0x20 \<or> r = 0x7F then [bslash, CHR ''x''] @ to_hex 2 r
           else if r < 0x10000 then [bslash, CHR ''u''] @ to_hex 4 r
           else [bslash, CHR ''U''] @ to_hex 8 r))"

function quote_body :: "(nat \<Rightarrow> bool) \<Rightarrow> string \<Rightarrow> string" where
  "quote_body is_print s = (if s = [] then [] else
     (case DecodeRune s of (r, w) \<Rightarrow>
        (if r = RuneError \<and> w = 1 then [bslash, CHR ''x''] @ to_hex 2 (bc (hd s))
         else quote_rune is_print r) @ quote_body is_print (drop w s)))"
  by pat_completeness auto
termination
proof (relation "measure (\<lambda>(p, s). length s)")
  fix p :: "nat \<Rightarrow> bool" and s :: string and r n
  assume "s \<noteq> []" "(r, n) = DecodeRune s"
  then have "1 \<le> n" "0 < length s"
    using DecodeRune_size [of s] by (auto dest: sym)
  then show "((p, drop n s), (p, s)) \<in> measure (\<lambda>(p, s). length s)"
    by simp
qed simp

declare quote_body.simps [simp del]

definition Quote :: "(nat \<Rightarrow> bool) \<Rightarrow> string \<Rightarrow> string" where
  "Quote is_print s = [dquote] @ quote_body is_print s @ [dquote]"

section \<open>Reading it back\<close>

text \<open>How many hexadecimal digits an escape takes.\<close>

definition hex_width :: "char \<Rightarrow> nat" where
  "hex_width e = (if e = CHR ''x'' then 2 else if e = CHR ''u'' then 4 else if e = CHR ''U'' then 8 else 0)"

definition letter_unescape :: "char \<Rightarrow> char option" where
  "letter_unescape e =
     (if e = dquote \<or> e = bslash then Some e
      else if e = CHR ''a'' then Some (byte 7) else if e = CHR ''b'' then Some (byte 8)
      else if e = CHR ''f'' then Some (byte 12) else if e = CHR ''n'' then Some (byte 10)
      else if e = CHR ''r'' then Some (byte 13) else if e = CHR ''t'' then Some (byte 9)
      else if e = CHR ''v'' then Some (byte 11) else None)"

fun go_unquote :: "string \<Rightarrow> (string \<times> string) option" where
  "go_unquote [] = None"
| "go_unquote (c # s) =
     (if c = dquote then Some ([], s)
      else if c = bslash then
        (case s of
           [] \<Rightarrow> None
         | e # t \<Rightarrow>
             (if hex_width e = 0 then
                (case letter_unescape e of None \<Rightarrow> None | Some d \<Rightarrow> prepend [d] (go_unquote t))
              else
                (case from_hex 0 (take (hex_width e) t) of
                   None \<Rightarrow> None
                 | Some n \<Rightarrow>
                     prepend (if e = CHR ''x'' then [byte n] else EncodeRune n)
                       (go_unquote (drop (hex_width e) t)))))
      else prepend [c] (go_unquote s))"

lemma from_hex_append:
  "from_hex acc (xs @ ys) = (case from_hex acc xs of None \<Rightarrow> None | Some n \<Rightarrow> from_hex n ys)"
  by (induction acc xs rule: from_hex.induct) (auto split: option.splits)

lemma from_to_hex: "n < 16 ^ k \<Longrightarrow> from_hex 0 (to_hex k n) = Some n"
proof (induction k arbitrary: n)
  case (Suc k)
  then have "n div 16 < 16 ^ k" by (simp add: div_less_iff_less_mult mult.commute)
  with Suc.IH show ?case by (simp add: from_hex_append hex_val_digit)
qed simp

lemma length_to_hex [simp]: "length (to_hex k n) = k"
  by (induction k arbitrary: n) auto

lemma DecodeRune_bound: "fst (DecodeRune s) < 16 ^ 8"
proof (cases s)
  case (Cons c t)
  have m: "x mod 8 < 8" "x mod 16 < 16" "x mod 32 < 32" "x mod 64 < 64" for x :: nat by simp_all
  have "(bc c mod 8) * 262144 + (bc c1 mod 64) * 4096 + (bc c2 mod 64) * 64 + bc c3 mod 64 < 16 ^ 8" for c1 c2 c3
    using m(1) [of "bc c"] m(4) [of "bc c1"] m(4) [of "bc c2"] m(4) [of "bc c3"] by simp
  moreover have "(bc c mod 16) * 4096 + (bc c1 mod 64) * 64 + bc c2 mod 64 < 16 ^ 8" for c1 c2
    using m(2) [of "bc c"] m(4) [of "bc c1"] m(4) [of "bc c2"] by simp
  moreover have "(bc c mod 32) * 64 + bc c1 mod 64 < 16 ^ 8" for c1
    using m(3) [of "bc c"] m(4) [of "bc c1"] by simp
  moreover have "bc c < 16 ^ 8" by (rule order.strict_trans [OF bc_less]) simp
  ultimately show ?thesis
    using Cons by (auto simp: DecodeRune.simps decode_defs Let_def RuneError_def split: list.splits)
qed (simp add: RuneError_def)

lemma go_unquote_raw:
  "list_all (\<lambda>d. d \<noteq> dquote \<and> d \<noteq> bslash) u \<Longrightarrow> go_unquote (u @ t) = prepend u (go_unquote t)"
  by (induction u) simp_all

lemma go_unquote_hex:
  assumes "hex_width e = k" "0 < k" "n < 16 ^ k"
  shows "go_unquote ([bslash, e] @ to_hex k n @ t) =
    prepend (if e = CHR ''x'' then [byte n] else EncodeRune n) (go_unquote t)"
  using assms by (simp add: from_to_hex)

lemma go_unquote_letter:
  assumes "letter_escape r = Some c"
  shows "go_unquote ([bslash, c] @ t) = prepend [byte r] (go_unquote t)"
  using assms by (auto simp: letter_escape_def letter_unescape_def hex_width_def split: if_splits)

lemma go_unquote_rune:
  assumes d: "DecodeRune (x # xs) = (r, w)" and ok: "\<not> (r = RuneError \<and> w = 1)"
  shows "go_unquote (quote_rune is_print r @ t) = prepend (take w (x # xs)) (go_unquote t)"
proof -
  have enc: "EncodeRune r = take w (x # xs)" using EncodeRune_DecodeRune [OF d ok] .
  have bound: "r < 16 ^ 8" using DecodeRune_bound [of "x # xs"] d by simp
  have small: "EncodeRune r = [byte r]" if "r < 0x80" using that by (simp add: EncodeRune_def)
  have raw: "list_all (\<lambda>e. e \<noteq> dquote \<and> e \<noteq> bslash) (EncodeRune r)"
    if ne: "r \<noteq> bc dquote" "r \<noteq> bc bslash"
  proof (cases "bc x < 0x80")
    case True
    with d DecodeRune_ascii_iff [of "x # xs"] have "r = bc x" "w = 1" by auto
    with ne enc show ?thesis by auto
  next
    case False
    have "0x80 \<le> bc e" if "e \<in> set (EncodeRune r)" for e
      using DecodeRune_bytes [OF d _ that [unfolded enc]] False by simp
    then show ?thesis by (fastforce simp: list_all_iff)
  qed
  consider "r = bc dquote \<or> r = bc bslash" | "r \<noteq> bc dquote" "r \<noteq> bc bslash" "printable is_print r"
    | c where "r \<noteq> bc dquote" "r \<noteq> bc bslash" "\<not> printable is_print r" "letter_escape r = Some c"
    | "r \<noteq> bc dquote" "r \<noteq> bc bslash" "\<not> printable is_print r" "letter_escape r = None"
    by (cases "letter_escape r") blast+
  then show ?thesis
  proof cases
    case 1
    then have "take w (x # xs) = [byte r]" using small enc by auto
    with 1 show ?thesis
      by (auto simp: quote_rune_def byte_special letter_unescape_def hex_width_def)
  next
    case 2
    then show ?thesis using go_unquote_raw [OF raw] enc by (simp only: quote_rune_def if_False if_True simp_thms)
  next
    case 3
    then have "r < 0x80" by (auto simp: letter_escape_def split: if_splits)
    with 3 small enc go_unquote_letter [OF 3(4)] show ?thesis
      by (simp only: quote_rune_def if_False simp_thms option.case)
  next
    case 4
    have w: "hex_width (CHR ''x'') = 2" "hex_width (CHR ''u'') = 4" "hex_width (CHR ''U'') = 8"
      by (simp_all add: hex_width_def)
    show ?thesis
      using go_unquote_hex [OF w(1), of r] go_unquote_hex [OF w(2), of r] go_unquote_hex [OF w(3), of r]
        4 small enc bound
      by (auto simp: quote_rune_def)
  qed
qed

lemma go_unquote_body: "go_unquote (quote_body is_print s @ t) = prepend s (go_unquote t)"
proof (induction is_print s rule: quote_body.induct)
  case (1 is_print s)
  show ?case
  proof (cases s)
    case Nil
    then show ?thesis by (simp add: quote_body.simps)
  next
    case (Cons x xs)
    then have ne: "s \<noteq> []" by simp
    obtain r w where d: "DecodeRune s = (r, w)" by fastforce
    let ?q = "if r = RuneError \<and> w = 1 then [bslash, CHR ''x''] @ to_hex 2 (bc (hd s)) else quote_rune is_print r"
    have "quote_body is_print s = ?q @ quote_body is_print (drop w s)"
      using ne d by (simp add: quote_body.simps [of _ s])
    moreover have "go_unquote (?q @ u) = prepend (take w s) (go_unquote u)" for u
    proof (cases "r = RuneError \<and> w = 1")
      case True
      have w: "hex_width (CHR ''x'') = 2" by (simp add: hex_width_def)
      have b: "bc x < 16 ^ 2" by (rule order.strict_trans2 [OF bc_less]) simp
      have "take w s = [byte (bc x)]" using True Cons by simp
      with go_unquote_hex [OF w _ b, of u] show ?thesis
        by (simp only: True if_True simp_thms Cons list.sel append_assoc)
    next
      case False
      with go_unquote_rune [of x xs r w is_print u] d Cons show ?thesis
        by (simp only: if_False simp_thms)
    qed
    ultimately show ?thesis using "1.IH" [OF ne d [symmetric]] by simp
  qed
qed

lemma Quote_self_delimiting:
  assumes "Quote p s @ t = Quote p s' @ t'"
  shows "s = s' \<and> t = t'"
proof -
  have "go_unquote (tl (Quote p s @ t)) = Some (s, t)" for s t
    by (simp add: Quote_def go_unquote_body)
  then have "Some (s, t) = Some (s', t')"
    by (metis assms)
  then show ?thesis by simp
qed

section \<open>Self-delimiting texts\<close>

text \<open>
  Texts that can be written one after the other and still be told apart: reading one back never
  depends on what follows it.
\<close>

locale self_delimiting =
  fixes enc :: "'a \<Rightarrow> string"
  assumes enc_split: "enc x @ s = enc y @ t \<Longrightarrow> x = y \<and> s = t"
    and enc_ne: "enc x \<noteq> []"
begin

lemma enc_inject [simp]: "enc x @ s = enc y @ t \<longleftrightarrow> x = y \<and> s = t"
  using enc_split by blast

lemma concat_inject: "concat (map enc xs) = concat (map enc ys) \<longleftrightarrow> xs = ys"
proof (induction xs arbitrary: ys)
  case Nil
  then show ?case by (cases ys) (simp_all add: enc_ne)
next
  case (Cons x xs)
  then show ?case by (cases ys) (simp_all add: enc_ne)
qed

end

interpretation quote: self_delimiting "Quote is_print" for is_print
proof
  show "Quote is_print x \<noteq> []" for x by (simp add: Quote_def)
qed (rule Quote_self_delimiting)

end
