(* ===== verification/Query.thy ===== *)
theory Query
  imports Compact Quote
begin

text \<open>
  Queries (\<open>internal/dcb/query.go\<close>): the three forms, the removal of duplicate items, matching an
  event in memory, validation, and the JSON forms. A Go slice that can be \<open>nil\<close> is an
  \<open>option\<close>: \<open>None\<close> is \<open>nil\<close>, \<open>Some []\<close> the empty array a client sent.
\<close>

section \<open>Data\<close>

record QueryItem =
  qi_types :: "string list option"
  qi_identifiers :: "Identifier list option"
  qi_metadata :: "Metadata list option"

datatype queryForm = formItems | formAll | formNone

record Query =
  q_form :: queryForm
  q_items :: "QueryItem list option"

text \<open>Ranging over a slice: \<open>nil\<close> has no elements.\<close>

abbreviation elems :: "'a list option \<Rightarrow> 'a list" where
  "elems xs \<equiv> (case xs of None \<Rightarrow> [] | Some ys \<Rightarrow> ys)"

definition MaxQueryItems :: nat where "MaxQueryItems = 100"

definition MaxQueryItemValues :: nat where "MaxQueryItemValues = 100"

section \<open>Duplicate items\<close>

definition type_line :: "(nat \<Rightarrow> bool) \<Rightarrow> string \<Rightarrow> string" where
  "type_line is_print t = ''t:'' @ Quote is_print t @ [newline_c]"

definition identifier_line :: "(nat \<Rightarrow> bool) \<Rightarrow> Identifier \<Rightarrow> string" where
  "identifier_line is_print i = ''i:'' @ Quote is_print (id_name i) @ ''='' @ Quote is_print (id_value i) @ [newline_c]"

definition metadata_line :: "(nat \<Rightarrow> bool) \<Rightarrow> Metadata \<Rightarrow> string" where
  "metadata_line is_print m = ''m:'' @ Quote is_print (md_name m) @ ''='' @ Quote is_print (md_value m) @ [newline_c]"

definition queryItemKey :: "(nat \<Rightarrow> bool) \<Rightarrow> QueryItem \<Rightarrow> string" where
  "queryItemKey is_print item =
     (let types = sort (elems (qi_types item));
          ids = sort (elems (qi_identifiers item));
          meta = sort (elems (qi_metadata item))
      in concat (map (type_line is_print) types) @
         concat (map (identifier_line is_print) ids) @
         concat (map (metadata_line is_print) meta))"

text \<open>The loop of \<open>dedupeQueryItems\<close>, with the keys seen and the items kept so far.\<close>

fun dedupe_loop :: "(nat \<Rightarrow> bool) \<Rightarrow> string set \<Rightarrow> QueryItem list \<Rightarrow> QueryItem list \<Rightarrow> QueryItem list" where
  "dedupe_loop is_print seen out [] = out"
| "dedupe_loop is_print seen out (item # items) =
     (let key = queryItemKey is_print item
      in if key \<in> seen then dedupe_loop is_print seen out items
         else dedupe_loop is_print (insert key seen) (out @ [item]) items)"

definition dedupeQueryItems :: "(nat \<Rightarrow> bool) \<Rightarrow> QueryItem list option \<Rightarrow> QueryItem list option" where
  "dedupeQueryItems is_print items =
     (if length (elems items) < 2 then items
      else Some (dedupe_loop is_print {} [] (elems items)))"

definition QueryAll :: Query where
  "QueryAll = \<lparr>q_form = formAll, q_items = None\<rparr>"

definition QueryNone :: Query where
  "QueryNone = \<lparr>q_form = formNone, q_items = None\<rparr>"

definition NewQuery :: "(nat \<Rightarrow> bool) \<Rightarrow> QueryItem list option \<Rightarrow> Query" where
  "NewQuery is_print items = \<lparr>q_form = formItems, q_items = dedupeQueryItems is_print items\<rparr>"

section \<open>Matching\<close>

definition QueryItem_matches :: "QueryItem \<Rightarrow> EventData \<Rightarrow> bool" where
  "QueryItem_matches i e =
     (if (case qi_types i of None \<Rightarrow> False | Some ts \<Rightarrow> \<not> List.member ts (ed_type e)) then False
      else if \<not> list_all (List.member (ed_identifiers e)) (elems (qi_identifiers i)) then False
      else if \<not> list_all (List.member (ed_metadata e)) (elems (qi_metadata i)) then False
      else True)"

definition Query_Matches :: "Query \<Rightarrow> EventData \<Rightarrow> bool" where
  "Query_Matches q e =
     (case q_form q of
        formAll \<Rightarrow> True
      | formNone \<Rightarrow> False
      | formItems \<Rightarrow> list_ex (\<lambda>item. QueryItem_matches item e) (elems (q_items q)))"

section \<open>Validation\<close>

definition QueryItem_Validate :: "QueryItem \<Rightarrow> dcb_error option" where
  "QueryItem_Validate i =
     (if qi_types i = None \<and> qi_identifiers i = None \<and> qi_metadata i = None then Some ErrEmptyQueryItem
      else if qi_types i = Some [] then Some ErrEmptyQueryItemArray
      else if qi_identifiers i = Some [] then Some ErrEmptyQueryItemArray
      else if qi_metadata i = Some [] then Some ErrEmptyQueryItemArray
      else if length (elems (qi_types i)) + length (elems (qi_identifiers i)) +
              length (elems (qi_metadata i)) > MaxQueryItemValues then Some ErrQueryTooLarge
      else None)"

definition Query_Validate :: "Query \<Rightarrow> dcb_error option" where
  "Query_Validate q =
     (if q_form q \<noteq> formItems then None
      else if length (elems (q_items q)) = 0 then Some ErrEmptyQuery
      else if length (elems (q_items q)) > MaxQueryItems then Some ErrQueryTooLarge
      else first_err QueryItem_Validate (elems (q_items q)))"

record AppendCondition =
  FailIfEventsMatch :: Query
  AfterSequence :: int

section \<open>JSON\<close>

definition marshal_tag :: "string \<times> string \<Rightarrow> string" where
  "marshal_tag p =
     ''{'' @ commas [marshal_string ''name'' @ '':'' @ marshal_string (fst p),
                     marshal_string ''value'' @ '':'' @ marshal_string (snd p)] @ ''}''"

text \<open>\<open>omitempty\<close>: a key is written when its slice has an element.\<close>

definition omitempty :: "string \<Rightarrow> ('a \<Rightarrow> string) \<Rightarrow> 'a list option \<Rightarrow> string list" where
  "omitempty k f xs =
     (if elems xs = [] then []
      else [marshal_string k @ '':['' @ commas (map f (elems xs)) @ '']''])"

definition marshal_item :: "QueryItem \<Rightarrow> string" where
  "marshal_item i =
     ''{'' @ commas
       (omitempty ''types'' marshal_string (qi_types i) @
        omitempty ''identifiers'' (\<lambda>x. marshal_tag (id_pair x)) (qi_identifiers i) @
        omitempty ''metadata'' (\<lambda>x. marshal_tag (md_pair x)) (qi_metadata i)) @ ''}''"

definition Query_MarshalJSON :: "Query \<Rightarrow> string" where
  "Query_MarshalJSON q =
     (case q_form q of
        formAll \<Rightarrow> marshal_string ''all''
      | formNone \<Rightarrow> marshal_string ''none''
      | formItems \<Rightarrow>
          (case q_items q of
             None \<Rightarrow> ''null''
           | Some items \<Rightarrow> ''['' @ commas (map marshal_item items) @ '']''))"

text \<open>
  How \<open>encoding/json\<close> finds the field of a key: exactly, or with the case folded. Two runes
  outside ASCII fold to an ASCII letter: U+017F to S, and U+212A to K.
\<close>

definition fold_byte :: "char \<Rightarrow> char" where
  "fold_byte c = (if 97 \<le> bc c \<and> bc c \<le> 122 then byte (bc c - 32) else c)"

fun foldName :: "string \<Rightarrow> string" where
  "foldName (a # b # c # s) =
     (if bc a = 0xC5 \<and> bc b = 0xBF then CHR ''S'' # foldName (c # s)
      else if bc a = 0xE2 \<and> bc b = 0x84 \<and> bc c = 0xAA then CHR ''K'' # foldName s
      else fold_byte a # foldName (b # c # s))"
| "foldName [a, b] = (if bc a = 0xC5 \<and> bc b = 0xBF then ''S'' else [fold_byte a, fold_byte b])"
| "foldName [a] = [fold_byte a]"
| "foldName [] = []"

definition is_field :: "string \<Rightarrow> string \<Rightarrow> bool" where
  "is_field field key \<longleftrightarrow> foldName key = foldName field"

text \<open>
  Decoding into a variable that may hold something already: \<open>null\<close> leaves it as it is, and a
  key that comes twice decodes into what the first one left. The old value is the first
  argument.
\<close>

fun decode_string :: "string \<Rightarrow> json \<Rightarrow> string option" where
  "decode_string old (JString s) = Some s"
| "decode_string old JNull = Some old"
| "decode_string old _ = None"

fun decode_tag_fields :: "string \<times> string \<Rightarrow> (string \<times> json) list \<Rightarrow> (string \<times> string) option" where
  "decode_tag_fields (n, v) [] = Some (n, v)"
| "decode_tag_fields (n, v) ((key, j) # kvs) =
     (if is_field ''name'' key then
        (case decode_string n j of None \<Rightarrow> None | Some n' \<Rightarrow> decode_tag_fields (n', v) kvs)
      else if is_field ''value'' key then
        (case decode_string v j of None \<Rightarrow> None | Some v' \<Rightarrow> decode_tag_fields (n, v') kvs)
      else decode_tag_fields (n, v) kvs)"

fun decode_tag :: "string \<times> string \<Rightarrow> json \<Rightarrow> (string \<times> string) option" where
  "decode_tag old (JObject kvs) = decode_tag_fields old kvs"
| "decode_tag old JNull = Some old"
| "decode_tag old _ = None"

text \<open>
  A slice keeps the memory behind it: element \<open>i\<close> of a new array decodes into what element
  \<open>i\<close> of that memory holds. A slice being decoded is its value and its memory.
\<close>

fun decode_elems :: "('a \<Rightarrow> json \<Rightarrow> 'a option) \<Rightarrow> 'a \<Rightarrow> 'a list \<Rightarrow> json list \<Rightarrow> 'a list option" where
  "decode_elems dec zero old [] = Some []"
| "decode_elems dec zero old (j # js) =
     (case dec (case old of [] \<Rightarrow> zero | x # _ \<Rightarrow> x) j of
        None \<Rightarrow> None
      | Some x \<Rightarrow> map_option ((#) x) (decode_elems dec zero (tl old) js))"

fun decode_slice :: "('a \<Rightarrow> json \<Rightarrow> 'a option) \<Rightarrow> 'a \<Rightarrow> 'a list option \<times> 'a list \<Rightarrow> json
    \<Rightarrow> ('a list option \<times> 'a list) option" where
  "decode_slice dec zero (v, mem) (JArray js) =
     (case decode_elems dec zero mem js of
        None \<Rightarrow> None
      | Some xs \<Rightarrow> Some (Some xs, if xs = [] then [] else xs @ drop (length xs) mem))"
| "decode_slice dec zero (v, mem) JNull = Some (None, [])"
| "decode_slice dec zero (v, mem) _ = None"

text \<open>The three fields of a query item while its keys are read.\<close>

fun decode_item_fields :: "(string list option \<times> string list)
    \<times> ((string \<times> string) list option \<times> (string \<times> string) list)
    \<times> ((string \<times> string) list option \<times> (string \<times> string) list)
    \<Rightarrow> (string \<times> json) list \<Rightarrow> QueryItem option" where
  "decode_item_fields (ts, is, ms) [] =
     Some \<lparr>qi_types = fst ts,
           qi_identifiers = map_option (map (\<lambda>(n, v). Identifier n v)) (fst is),
           qi_metadata = map_option (map (\<lambda>(n, v). Metadata n v)) (fst ms)\<rparr>"
| "decode_item_fields (ts, is, ms) ((key, j) # kvs) =
     (if is_field ''types'' key then
        (case decode_slice decode_string [] ts j of
           None \<Rightarrow> None | Some ts' \<Rightarrow> decode_item_fields (ts', is, ms) kvs)
      else if is_field ''identifiers'' key then
        (case decode_slice decode_tag ([], []) is j of
           None \<Rightarrow> None | Some is' \<Rightarrow> decode_item_fields (ts, is', ms) kvs)
      else if is_field ''metadata'' key then
        (case decode_slice decode_tag ([], []) ms j of
           None \<Rightarrow> None | Some ms' \<Rightarrow> decode_item_fields (ts, is, ms') kvs)
      else decode_item_fields (ts, is, ms) kvs)"

fun decode_item :: "json \<Rightarrow> QueryItem option" where
  "decode_item (JObject kvs) = decode_item_fields ((None, []), (None, []), (None, [])) kvs"
| "decode_item JNull = decode_item_fields ((None, []), (None, []), (None, [])) []"
| "decode_item _ = None"

fun decode_items :: "json list \<Rightarrow> QueryItem list option" where
  "decode_items [] = Some []"
| "decode_items (j # js) =
     (case decode_item j of None \<Rightarrow> None | Some x \<Rightarrow> map_option ((#) x) (decode_items js))"

datatype query_json_error = BadQueryString string | NotAQuery

definition Query_UnmarshalJSON :: "(nat \<Rightarrow> bool) \<Rightarrow> json \<Rightarrow> query_json_error + Query" where
  "Query_UnmarshalJSON is_print data =
     (case unmarshal_string data of
        Some s \<Rightarrow>
          (if s = ''all'' then Inr QueryAll
           else if s = ''none'' then Inr QueryNone
           else Inl (BadQueryString s))
      | None \<Rightarrow>
          (case data of
             JArray js \<Rightarrow>
               (case decode_items js of
                  None \<Rightarrow> Inl NotAQuery
                | Some items \<Rightarrow>
                    Inr \<lparr>q_form = formItems, q_items = dedupeQueryItems is_print (Some items)\<rparr>)
           | _ \<Rightarrow> Inl NotAQuery))"

section \<open>The key of an item\<close>

datatype field = FType string | FIdentifier Identifier | FMetadata Metadata

fun field_line :: "(nat \<Rightarrow> bool) \<Rightarrow> field \<Rightarrow> string" where
  "field_line is_print (FType t) = type_line is_print t"
| "field_line is_print (FIdentifier i) = identifier_line is_print i"
| "field_line is_print (FMetadata m) = metadata_line is_print m"

definition item_fields :: "QueryItem \<Rightarrow> field list" where
  "item_fields item =
     map FType (sort (elems (qi_types item))) @ map FIdentifier (sort (elems (qi_identifiers item))) @
     map FMetadata (sort (elems (qi_metadata item)))"

lemmas line_defs = type_line_def identifier_line_def metadata_line_def

interpretation lines: self_delimiting "field_line is_print" for is_print
proof
  fix x y s t
  assume "field_line is_print x @ s = field_line is_print y @ t"
  then show "x = y \<and> s = t"
    by (cases x; cases y) (auto simp: line_defs intro: Identifier.expand Metadata.expand)
next
  show "field_line is_print x \<noteq> []" for x
    by (cases x) (simp_all add: line_defs)
qed

lemma queryItemKey_fields: "queryItemKey is_print item = concat (map (field_line is_print) (item_fields item))"
  by (simp add: queryItemKey_def item_fields_def Let_def comp_def)

lemma map_field_split:
  "map FType ts @ map FIdentifier is @ map FMetadata ms = map FType ts' @ map FIdentifier is' @ map FMetadata ms'
   \<longleftrightarrow> ts = ts' \<and> is = is' \<and> ms = ms'"
proof (induction ts arbitrary: ts')
  case Nil
  show ?case
  proof (cases ts')
    case Nil
    have "map FIdentifier is @ map FMetadata ms = map FIdentifier is' @ map FMetadata ms' \<longleftrightarrow> is = is' \<and> ms = ms'"
    proof (induction "is" arbitrary: is')
      case Nil
      show ?case by (cases is'; cases ms) (auto simp: inj_map_eq_map inj_def)
    next
      case (Cons a as)
      then show ?case by (cases is'; cases ms') (auto simp: inj_map_eq_map inj_def)
    qed
    with Nil show ?thesis by simp
  next
    case (Cons t ts)
    then show ?thesis by (cases "is"; cases ms) auto
  qed
next
  case (Cons t ts)
  show ?case
  proof (cases ts')
    case Nil
    then show ?thesis by (cases is'; cases ms') auto
  next
    case (Cons t' ts'')
    with Cons.IH show ?thesis by auto
  qed
qed

lemma sort_eq_iff: "sort xs = sort ys \<longleftrightarrow> mset xs = mset ys"
  by (metis mset_sort sorted_list_of_multiset_mset)

definition same_item :: "QueryItem \<Rightarrow> QueryItem \<Rightarrow> bool" where
  "same_item i j \<longleftrightarrow>
     mset (elems (qi_types i)) = mset (elems (qi_types j)) \<and>
     mset (elems (qi_identifiers i)) = mset (elems (qi_identifiers j)) \<and>
     mset (elems (qi_metadata i)) = mset (elems (qi_metadata j))"

lemma queryItemKey_same: "queryItemKey is_print i = queryItemKey is_print j \<longleftrightarrow> same_item i j"
  by (simp only: queryItemKey_fields lines.concat_inject item_fields_def map_field_split sort_eq_iff same_item_def)

section \<open>What removing duplicates keeps\<close>

lemma dedupe_loop_append: "dedupe_loop p seen out items = out @ dedupe_loop p seen [] items"
proof (induction items arbitrary: seen out)
  case (Cons i items)
  have "dedupe_loop p seen' (out @ [i]) items = out @ dedupe_loop p seen' [i] items" for seen'
    using Cons [of seen' "out @ [i]"] Cons [of seen' "[i]"] by simp
  with Cons [of seen out] show ?case by (simp add: Let_def)
qed simp

lemma dedupe_loop_Cons:
  "dedupe_loop p seen [] (i # items) =
     (if queryItemKey p i \<in> seen then dedupe_loop p seen [] items
      else i # dedupe_loop p (insert (queryItemKey p i) seen) [] items)"
  using dedupe_loop_append [of p _ "[i]"] by (simp add: Let_def)

lemma dedupe_loop_keys:
  "distinct (map (queryItemKey p) (dedupe_loop p seen [] items)) \<and>
   queryItemKey p ` set (dedupe_loop p seen [] items) = queryItemKey p ` set items - seen \<and>
   set (dedupe_loop p seen [] items) \<subseteq> set items"
proof (induction items arbitrary: seen)
  case (Cons i items)
  show ?case
    using Cons [of seen] Cons [of "insert (queryItemKey p i) seen"]
    by (auto simp: dedupe_loop_Cons simp del: dedupe_loop.simps(2))
qed simp

lemma dedupe_loop_fixed:
  "distinct (map (queryItemKey p) items) \<Longrightarrow> queryItemKey p ` set items \<inter> seen = {} \<Longrightarrow>
   dedupe_loop p seen [] items = items"
  by (induction items arbitrary: seen) (auto simp: dedupe_loop_Cons simp del: dedupe_loop.simps(2))

lemma distinct_short: "length xs < 2 \<Longrightarrow> distinct (map f xs)"
  by (cases xs) auto

lemma dedupe_keys:
  "distinct (map (queryItemKey p) (elems (dedupeQueryItems p items)))"
  "queryItemKey p ` set (elems (dedupeQueryItems p items)) = queryItemKey p ` set (elems items)"
  "set (elems (dedupeQueryItems p items)) \<subseteq> set (elems items)"
  using dedupe_loop_keys [of p "{}" "elems items"] distinct_short [of "elems items" "queryItemKey p"]
  by (simp_all add: dedupeQueryItems_def)

lemma dedupe_idem: "dedupeQueryItems p (dedupeQueryItems p items) = dedupeQueryItems p items"
  using dedupe_loop_keys [of p "{}" "elems items"] dedupe_loop_fixed [of p "dedupe_loop p {} [] (elems items)" "{}"]
  by (auto simp: dedupeQueryItems_def)

lemma QueryItem_matches_iff:
  "QueryItem_matches i e \<longleftrightarrow>
     (case qi_types i of None \<Rightarrow> True | Some ts \<Rightarrow> ed_type e \<in> set ts) \<and>
     set (elems (qi_identifiers i)) \<subseteq> set (ed_identifiers e) \<and>
     set (elems (qi_metadata i)) \<subseteq> set (ed_metadata e)"
  by (auto simp: QueryItem_matches_def list_all_iff split: option.splits)

text \<open>Two items with one key select the same events, when neither has an empty array of types.\<close>

lemma same_item_matches:
  assumes "same_item i j" "qi_types i \<noteq> Some []" "qi_types j \<noteq> Some []"
  shows "QueryItem_matches i e = QueryItem_matches j e"
proof -
  from assms(1) have "set (elems (qi_types i)) = set (elems (qi_types j))"
    "set (elems (qi_identifiers i)) = set (elems (qi_identifiers j))"
    "set (elems (qi_metadata i)) = set (elems (qi_metadata j))"
    unfolding same_item_def using mset_eq_setD by blast+
  with assms(2,3) show ?thesis
    by (auto simp: QueryItem_matches_iff split: option.splits)
qed

lemma NewQuery_Matches:
  assumes "\<forall>i\<in>set (elems items). qi_types i \<noteq> Some []"
  shows "Query_Matches (NewQuery p items) e \<longleftrightarrow> (\<exists>i\<in>set (elems items). QueryItem_matches i e)"
proof -
  let ?out = "elems (dedupeQueryItems p items)"
  have "(\<exists>i\<in>set ?out. QueryItem_matches i e) \<longleftrightarrow> (\<exists>i\<in>set (elems items). QueryItem_matches i e)"
  proof
    assume "\<exists>i\<in>set (elems items). QueryItem_matches i e"
    then obtain i where i: "i \<in> set (elems items)" "QueryItem_matches i e" by blast
    with dedupe_keys(2) [of p items] obtain j where j: "j \<in> set ?out" "queryItemKey p i = queryItemKey p j"
      by (metis image_iff)
    with i assms dedupe_keys(3) [of p items] have "QueryItem_matches j e"
      using same_item_matches [of i j e] by (auto simp: queryItemKey_same)
    with j show "\<exists>i\<in>set ?out. QueryItem_matches i e" by blast
  qed (use dedupe_keys(3) in blast)
  then show ?thesis by (simp add: Query_Matches_def NewQuery_def list_ex_iff)
qed

section \<open>What validation accepts\<close>

definition item_ok :: "QueryItem \<Rightarrow> bool" where
  "item_ok i \<longleftrightarrow>
     (qi_types i \<noteq> None \<or> qi_identifiers i \<noteq> None \<or> qi_metadata i \<noteq> None) \<and>
     qi_types i \<noteq> Some [] \<and> qi_identifiers i \<noteq> Some [] \<and> qi_metadata i \<noteq> Some [] \<and>
     length (elems (qi_types i)) + length (elems (qi_identifiers i)) + length (elems (qi_metadata i)) \<le> 100"

definition query_ok :: "Query \<Rightarrow> bool" where
  "query_ok q \<longleftrightarrow>
     q_form q = formItems \<longrightarrow>
       elems (q_items q) \<noteq> [] \<and> length (elems (q_items q)) \<le> 100 \<and> list_all item_ok (elems (q_items q))"

interpretation query_item: validator QueryItem_Validate item_ok
  by unfold_locales (auto simp: QueryItem_Validate_def item_ok_def MaxQueryItemValues_def)

interpretation query: validator Query_Validate query_ok
  by unfold_locales (auto simp: Query_Validate_def query_ok_def MaxQueryItems_def query_item.first_err_None)

section \<open>JSON there and back\<close>

definition tag_tree :: "string \<times> string \<Rightarrow> json" where
  "tag_tree p = JObject [(''name'', JString (fst p)), (''value'', JString (snd p))]"

definition key_tree :: "string \<Rightarrow> ('a \<Rightarrow> json) \<Rightarrow> 'a list option \<Rightarrow> (string \<times> json) list" where
  "key_tree k f xs = (if elems xs = [] then [] else [(k, JArray (map f (elems xs)))])"

definition item_tree :: "QueryItem \<Rightarrow> json" where
  "item_tree i = JObject
     (key_tree ''types'' JString (qi_types i) @
      key_tree ''identifiers'' (\<lambda>x. tag_tree (id_pair x)) (qi_identifiers i) @
      key_tree ''metadata'' (\<lambda>x. tag_tree (md_pair x)) (qi_metadata i))"

text \<open>The JSON value a query is written as.\<close>

definition query_tree :: "Query \<Rightarrow> json" where
  "query_tree q =
     (case q_form q of
        formAll \<Rightarrow> JString ''all''
      | formNone \<Rightarrow> JString ''none''
      | formItems \<Rightarrow> (case q_items q of None \<Rightarrow> JNull | Some items \<Rightarrow> JArray (map item_tree items)))"

lemma encode_tag_tree: "encode (tag_tree p) = marshal_tag p"
  by (simp add: tag_tree_def marshal_tag_def)

lemma encode_item_tree: "encode (item_tree i) = marshal_item i"
  by (simp add: item_tree_def marshal_item_def key_tree_def omitempty_def encode_tag_tree comp_def)

lemma Query_MarshalJSON_encode: "Query_MarshalJSON q = encode (query_tree q)"
  by (simp add: Query_MarshalJSON_def query_tree_def encode_item_tree comp_def split: queryForm.split option.split)

lemma field_names:
  "is_field ''types'' ''types''" "is_field ''identifiers'' ''identifiers''" "is_field ''metadata'' ''metadata''"
  "\<not> is_field ''types'' ''identifiers''" "\<not> is_field ''types'' ''metadata''"
  "\<not> is_field ''identifiers'' ''metadata''"
  "is_field ''name'' ''name''" "is_field ''value'' ''value''" "\<not> is_field ''name'' ''value''"
  by code_simp+

lemma decode_tag_tree: "decode_tag old (tag_tree p) = Some p"
  by (cases old; cases p) (simp add: tag_tree_def field_names)

lemma decode_elems_map:
  assumes "\<And>old x. dec old (f x) = Some (g x)"
  shows "decode_elems dec zero old (map f xs) = Some (map g xs)"
  by (induction xs arbitrary: old) (simp_all add: assms)

lemma decode_slice_map:
  assumes "\<And>old x. dec old (f x) = Some (g x)"
  shows "decode_slice dec zero (v, []) (JArray (map f xs)) = Some (Some (map g xs), map g xs)"
  using decode_elems_map [of dec f g zero "[]" xs, OF assms] by (cases xs) simp_all

lemma Identifier_of_pair: "(case id_pair x of (n, v) \<Rightarrow> Identifier n v) = x"
  by (simp add: id_pair_def)

lemma Metadata_of_pair: "(case md_pair x of (n, v) \<Rightarrow> Metadata n v) = x"
  by (simp add: md_pair_def)

lemma decode_item_tree:
  assumes "item_ok i"
  shows "decode_item (item_tree i) = Some i"
proof -
  have t: "decode_slice decode_string [] (v, []) (JArray (map JString xs)) = Some (Some xs, xs)" for v xs
    using decode_slice_map [of decode_string JString "\<lambda>x. x" "[]" v xs] by simp
  have "decode_slice decode_tag ([], []) (v, []) (JArray (map (\<lambda>x. tag_tree (id_pair x)) xs)) =
      Some (Some (map id_pair xs), map id_pair xs)" for v xs
    by (rule decode_slice_map) (simp add: decode_tag_tree)
  moreover have "decode_slice decode_tag ([], []) (v, []) (JArray (map (\<lambda>x. tag_tree (md_pair x)) xs)) =
      Some (Some (map md_pair xs), map md_pair xs)" for v xs
    by (rule decode_slice_map) (simp add: decode_tag_tree)
  ultimately show ?thesis
    using assms
    by (cases i; cases "qi_types i"; cases "qi_identifiers i"; cases "qi_metadata i")
      (simp_all add: item_tree_def key_tree_def item_ok_def field_names t comp_def Identifier_of_pair
        Metadata_of_pair del: decode_slice.simps)
qed

lemma decode_item_trees: "list_all item_ok items \<Longrightarrow> decode_items (map item_tree items) = Some items"
  by (induction items) (simp_all add: decode_item_tree)

text \<open>A valid query that one of the constructors built is read back as it was.\<close>

lemma Query_UnmarshalJSON_tree:
  assumes "q = QueryAll \<or> q = QueryNone \<or> q = NewQuery p items \<and> query_ok q"
  shows "Query_UnmarshalJSON p (query_tree q) = Inr q"
proof -
  consider "q = QueryAll" | "q = QueryNone" | "q = NewQuery p items" "query_ok q"
    using assms by blast
  then show ?thesis
  proof cases
    case 3
    then obtain its where its: "dedupeQueryItems p items = Some its"
      by (cases "dedupeQueryItems p items") (auto simp: query_ok_def NewQuery_def)
    with 3 have "list_all item_ok its" by (simp add: query_ok_def NewQuery_def)
    with 3 its dedupe_idem [of p items] show ?thesis
      by (simp add: Query_UnmarshalJSON_def query_tree_def NewQuery_def decode_item_trees)
  qed (simp_all add: Query_UnmarshalJSON_def query_tree_def QueryAll_def QueryNone_def)
qed

section \<open>Properties\<close>

text \<open>C35. The key that deduplication compares is injective up to order: two query items have one key
  exactly when they name the same types, identifiers and metadata with the same multiplicities,
  whatever bytes the names and values hold, and an absent array counts as an empty one.\<close>

theorem queryItemKey_exact:
  "queryItemKey is_print i = queryItemKey is_print j \<longleftrightarrow>
     mset (elems (qi_types i)) = mset (elems (qi_types j)) \<and>
     mset (elems (qi_identifiers i)) = mset (elems (qi_identifiers j)) \<and>
     mset (elems (qi_metadata i)) = mset (elems (qi_metadata j))"
  unfolding queryItemKey_same same_item_def by (rule refl)

text \<open>Dropping repeated items does not change what a query matches: a query built from items
  matches an event exactly when one of the items given does.\<close>

lemma dedupe_keeps_matches:
  assumes "\<forall>i\<in>set items. qi_types i \<noteq> Some []"
  shows "Query_Matches (NewQuery is_print (Some items)) e \<longleftrightarrow> (\<exists>i\<in>set items. QueryItem_matches i e)"
  using NewQuery_Matches [of "Some items"] assms by simp

text \<open>\<open>Query.Validate\<close> accepts a query exactly when it is \<open>all\<close> or \<open>none\<close>, or holds 1 to 100
  items, each with at least one of its three arrays, none of them empty, and at most 100 values.\<close>

lemma Query_Validate_exact:
  "Query_Validate q = None \<longleftrightarrow>
     (case q_form q of formAll \<Rightarrow> True | formNone \<Rightarrow> True
      | formItems \<Rightarrow>
          0 < length (elems (q_items q)) \<and> length (elems (q_items q)) \<le> 100 \<and>
          list_all (\<lambda>i. \<not> (qi_types i = None \<and> qi_identifiers i = None \<and> qi_metadata i = None) \<and>
            qi_types i \<noteq> Some [] \<and> qi_identifiers i \<noteq> Some [] \<and> qi_metadata i \<noteq> Some [] \<and>
            length (elems (qi_types i)) + length (elems (qi_identifiers i)) + length (elems (qi_metadata i)) \<le> 100)
          (elems (q_items q)))"
  by (cases "q_form q") (auto simp: query.check_None query_ok_def item_ok_def list_all_iff)



end
