(* ===== verification/Projection.thy ===== *)
theory Projection
  imports Query
begin

text \<open>
  Projections (\<open>internal/projection/projection.go\<close>): the writes a client sends, and their
  validation. A payload is \<open>None\<close> when its key was missing or null, and a list \<open>None\<close> when the
  key was absent from the request.
\<close>

record Create =
  c_type :: string
  c_id :: string
  c_payload :: "string option"

record Replace =
  r_type :: string
  r_id :: string
  r_version :: string
  r_payload :: "string option"

record Key =
  k_type :: string
  k_id :: string

record Delete =
  d_type :: string
  d_id :: string
  d_version :: string

record Writes =
  w_create :: "Create list option"
  w_replace :: "Replace list option"
  w_delete :: "Delete list option"

definition Writes_Len :: "Writes \<Rightarrow> nat" where
  "Writes_Len w = length (elems (w_create w)) + length (elems (w_replace w)) + length (elems (w_delete w))"

text \<open>The sentinels of package projection.\<close>

datatype projection_error =
    PErrMissingType | PErrMissingID | PErrInvalidType | PErrInvalidID | PErrMissingPayload
  | PErrMissingVersion

definition validateKey :: "string \<Rightarrow> string \<Rightarrow> projection_error option" where
  "validateKey typ ident =
     (if typ = [] then Some PErrMissingType
      else if ident = [] then Some PErrMissingID
      else if \<not> ValidName typ then Some PErrInvalidType
      else if \<not> ValidValue ident then Some PErrInvalidID
      else None)"

definition validateVersion :: "string \<Rightarrow> projection_error option" where
  "validateVersion version = (if version = [] then Some PErrMissingVersion else None)"

definition validatePayload :: "string option \<Rightarrow> projection_error option" where
  "validatePayload payload = (if payload = None then Some PErrMissingPayload else None)"

definition Key_Validate :: "Key \<Rightarrow> projection_error option" where
  "Key_Validate k = validateKey (k_type k) (k_id k)"

definition Key_String :: "Key \<Rightarrow> string" where
  "Key_String k = k_type k @ ''/'' @ k_id k"

definition Create_Validate :: "Create \<Rightarrow> projection_error option" where
  "Create_Validate c =
     (case validateKey (c_type c) (c_id c) of
        Some err \<Rightarrow> Some err
      | None \<Rightarrow> validatePayload (c_payload c))"

definition Replace_Validate :: "Replace \<Rightarrow> projection_error option" where
  "Replace_Validate r =
     (case validateKey (r_type r) (r_id r) of
        Some err \<Rightarrow> Some err
      | None \<Rightarrow>
          (case validateVersion (r_version r) of
             Some err \<Rightarrow> Some err
           | None \<Rightarrow> validatePayload (r_payload r)))"

definition Delete_Validate :: "Delete \<Rightarrow> projection_error option" where
  "Delete_Validate d =
     (case validateKey (d_type d) (d_id d) of
        Some err \<Rightarrow> Some err
      | None \<Rightarrow> validateVersion (d_version d))"

section \<open>What validation accepts\<close>

definition key_ok :: "string \<Rightarrow> string \<Rightarrow> bool" where
  "key_ok typ ident \<longleftrightarrow> ValidName typ \<and> ValidValue ident"

lemma ValidValue_Nil [simp]: "\<not> ValidValue []"
  by (simp add: ValidValue_def)

lemma validateKey_None: "validateKey typ ident = None \<longleftrightarrow> key_ok typ ident"
  by (auto simp: validateKey_def key_ok_def)

interpretation proj_key: validator Key_Validate "\<lambda>k. key_ok (k_type k) (k_id k)"
  by unfold_locales (simp add: Key_Validate_def validateKey_None)

interpretation proj_create: validator Create_Validate
  "\<lambda>c. key_ok (c_type c) (c_id c) \<and> c_payload c \<noteq> None"
  by unfold_locales
    (auto simp: Create_Validate_def validatePayload_def validateKey_None [symmetric] split: option.splits)

interpretation proj_replace: validator Replace_Validate
  "\<lambda>r. key_ok (r_type r) (r_id r) \<and> r_version r \<noteq> [] \<and> r_payload r \<noteq> None"
  by unfold_locales
    (auto simp: Replace_Validate_def validateVersion_def validatePayload_def validateKey_None [symmetric]
      split: option.splits)

interpretation proj_delete: validator Delete_Validate
  "\<lambda>d. key_ok (d_type d) (d_id d) \<and> d_version d \<noteq> []"
  by unfold_locales
    (auto simp: Delete_Validate_def validateVersion_def validateKey_None [symmetric] split: option.splits)

end
