(* ===== verification/Sql.thy ===== *)
theory Sql
  imports Projection
begin

text \<open>
  The SQL that the store writes (\<open>internal/store/query.go\<close>, and the statements of
  \<open>read.go\<close> and \<open>append.go\<close>): first the text and the bound arguments, built as the code builds
  them, then a tree for the conditions that text states, and what such a condition says of a
  row. The lemmas show that the text is the text of the tree, that it binds one argument for
  each placeholder, and that it selects what \<open>Query.Matches\<close> selects.
\<close>

section \<open>Text and arguments\<close>

datatype arg = AInt int | AText string

text \<open>\<open>strings.Join\<close>, and \<open>strings.Repeat\<close>.\<close>

fun Join :: "string list \<Rightarrow> string \<Rightarrow> string" where
  "Join [] sep = []"
| "Join [x] sep = x"
| "Join (x # y # xs) sep = x @ sep @ Join (y # xs) sep"

definition Repeat :: "string \<Rightarrow> nat \<Rightarrow> string" where
  "Repeat s n = concat (replicate n s)"

definition TrimSuffix :: "string \<Rightarrow> string \<Rightarrow> string" where
  "TrimSuffix s suf =
     (if length suf \<le> length s \<and> drop (length s - length suf) s = suf then take (length s - length suf) s else s)"

text \<open>The clause of one tag, the same text for every tag of its kind.\<close>

definition identifier_clause :: string where
  "identifier_clause =
     ''events.sequence IN (SELECT event_sequence FROM identifiers WHERE identifiers.name = ? AND identifiers.value = ? AND identifiers.event_sequence > ?)''"

definition metadata_clause :: string where
  "metadata_clause =
     ''events.sequence IN (SELECT event_sequence FROM metadata WHERE metadata.name = ? AND metadata.value = ? AND metadata.event_sequence > ?)''"

definition queryItemToSQL :: "QueryItem \<Rightarrow> int \<Rightarrow> string \<times> arg list" where
  "queryItemToSQL item after =
     (let (clauses0, args0) =
            (if length (elems (qi_types item)) > 0 then
               (let placeholders = TrimSuffix (Repeat ''?,'' (length (elems (qi_types item)))) '',''
                in ([''events.type IN ('' @ placeholders @ '')''], map AText (elems (qi_types item))))
             else ([], []));
          (clauses1, args1) =
            fold (\<lambda>id (cs, as).
                (cs @ [identifier_clause],
                 as @ [AText (id_name id), AText (id_value id), AInt after]))
              (elems (qi_identifiers item)) (clauses0, args0);
          (clauses2, args2) =
            fold (\<lambda>md (cs, as).
                (cs @ [metadata_clause],
                 as @ [AText (md_name md), AText (md_value md), AInt after]))
              (elems (qi_metadata item)) (clauses1, args1)
      in if length clauses2 = 0 then ([], [])
         else (''('' @ Join clauses2 '' AND '' @ '')'', args2))"

text \<open>The loop over the items, with the clauses and arguments so far.\<close>

fun queryToSQL_loop :: "int \<Rightarrow> string list \<Rightarrow> arg list \<Rightarrow> QueryItem list \<Rightarrow> string \<times> arg list" where
  "queryToSQL_loop after clauses args [] = (''('' @ Join clauses '' OR '' @ '')'', args)"
| "queryToSQL_loop after clauses args (item # items) =
     (let (clause, itemArgs) = queryItemToSQL item after
      in if clause = [] then ([], [])
         else queryToSQL_loop after (clauses @ [clause]) (args @ itemArgs) items)"

definition queryToSQL :: "Query \<Rightarrow> int \<Rightarrow> string \<times> arg list" where
  "queryToSQL q after =
     (if q_form q = formAll then ([], [])
      else if q_form q = formNone \<or> length (elems (q_items q)) = 0 then (''0'', [])
      else queryToSQL_loop after [] [] (elems (q_items q)))"

definition buildEventsSQL :: "Query \<Rightarrow> int \<Rightarrow> bool \<Rightarrow> string \<times> arg list" where
  "buildEventsSQL q after backwards =
     (let b = ''SELECT events.sequence, events.time, events.type, events.payload,'' @ [newline_c] @
              ''  events.identifiers, events.metadata'' @ [newline_c] @
              ''FROM events'' @ [newline_c] @ ''WHERE events.sequence > ?'';
          (whr, whereArgs) = queryToSQL q after;
          (b', args') = (if whr \<noteq> [] then (b @ '' AND '' @ whr, [AInt after] @ whereArgs) else (b, [AInt after]))
      in (b' @ (if backwards then '' ORDER BY events.sequence DESC'' else '' ORDER BY events.sequence ASC''), args'))"

text \<open>A read's filter (\<open>ReadFilter\<close>), and a decision's (\<open>DecisionFilter\<close>).\<close>

record ReadFilter =
  rf_query :: Query
  rf_after :: "int option"
  rf_limit :: int
  rf_backwards :: bool

record DecisionFilter =
  df_query :: Query
  df_backwards :: bool
  df_limit :: int

definition buildReadSQL :: "ReadFilter \<Rightarrow> string \<times> arg list" where
  "buildReadSQL f =
     (let after = (case rf_after f of Some a \<Rightarrow> a | None \<Rightarrow> 0);
          (sqlStr, args) = buildEventsSQL (rf_query f) after (rf_backwards f)
      in (sqlStr @ '' LIMIT ?'', args @ [AInt (i64 (rf_limit f + 1))]))"

definition conditionSQL :: "Query \<Rightarrow> int \<Rightarrow> string \<times> arg list" where
  "conditionSQL q after =
     (let b = ''SELECT EXISTS (SELECT 1 FROM events WHERE events.sequence > ?'';
          (whr, whereArgs) = queryToSQL q after;
          (b', args') = (if whr \<noteq> [] then (b @ '' AND '' @ whr, [AInt after] @ whereArgs) else (b, [AInt after]))
      in (b' @ '' LIMIT 1)'', args'))"

definition maxBatchVariables :: nat where "maxBatchVariables = 32000"

text \<open>One multi-row INSERT of \<open>execBatchInsert\<close>, for the rows of one chunk.\<close>

definition insertSQL :: "string \<Rightarrow> nat \<Rightarrow> arg list list \<Rightarrow> string \<times> arg list" where
  "insertSQL insertPrefix colsPerRow chunk =
     (let placeholder = ''('' @ Repeat ''?, '' (colsPerRow - 1) @ ''?)''
      in (insertPrefix @ Join (map (\<lambda>_. placeholder) chunk) '', '', concat chunk))"

text \<open>
  The chunks the loop of \<open>execBatchInsert\<close> runs one INSERT for: from \<open>start\<close> on,
  \<open>rowsPerChunk\<close> rows at a time.
\<close>

function chunks :: "nat \<Rightarrow> 'a list \<Rightarrow> 'a list list" where
  "chunks rowsPerChunk rows =
     (if rows = [] \<or> rowsPerChunk = 0 then []
      else take rowsPerChunk rows # chunks rowsPerChunk (drop rowsPerChunk rows))"
  by pat_completeness auto
termination
  by (relation "measure (\<lambda>(n, rows). length rows)") auto

declare chunks.simps [simp del]

definition batches :: "nat \<Rightarrow> 'a list \<Rightarrow> 'a list list" where
  "batches colsPerRow rows = chunks (maxBatchVariables div colsPerRow) rows"

section \<open>The condition as a tree\<close>

datatype cond =
    CTypes "string list"
  | CIdentifier string string int
  | CMetadata string string int
  | CAnd "cond list"
  | COr "cond list"
  | CFalse

fun render :: "cond \<Rightarrow> string" where
  "render (CTypes ts) = ''events.type IN ('' @ Join (map (\<lambda>_. ''?'') ts) '','' @ '')''"
| "render (CIdentifier n v a) =
     identifier_clause"
| "render (CMetadata n v a) =
     metadata_clause"
| "render (CAnd cs) = ''('' @ Join (map render cs) '' AND '' @ '')''"
| "render (COr cs) = ''('' @ Join (map render cs) '' OR '' @ '')''"
| "render CFalse = ''0''"

fun binds :: "cond \<Rightarrow> arg list" where
  "binds (CTypes ts) = map AText ts"
| "binds (CIdentifier n v a) = [AText n, AText v, AInt a]"
| "binds (CMetadata n v a) = [AText n, AText v, AInt a]"
| "binds (CAnd cs) = concat (map binds cs)"
| "binds (COr cs) = concat (map binds cs)"
| "binds CFalse = []"

definition item_conds :: "QueryItem \<Rightarrow> int \<Rightarrow> cond list" where
  "item_conds item after =
     (if elems (qi_types item) = [] then [] else [CTypes (elems (qi_types item))]) @
     map (\<lambda>i. CIdentifier (id_name i) (id_value i) after) (elems (qi_identifiers item)) @
     map (\<lambda>m. CMetadata (md_name m) (md_value m) after) (elems (qi_metadata item))"

text \<open>\<open>None\<close>: no condition.\<close>

definition query_cond :: "Query \<Rightarrow> int \<Rightarrow> cond option" where
  "query_cond q after =
     (if q_form q = formAll then None
      else if q_form q = formNone \<or> elems (q_items q) = [] then Some CFalse
      else if list_ex (\<lambda>item. item_conds item after = []) (elems (q_items q)) then None
      else Some (COr (map (\<lambda>item. CAnd (item_conds item after)) (elems (q_items q)))))"

section \<open>The text is the text of the tree\<close>

lemma Repeat_placeholders: "TrimSuffix (Repeat ''?,'' (length ts)) '','' = Join (map (\<lambda>_. ''?'') ts) '',''"
proof -
  have join: "ts \<noteq> [] \<Longrightarrow> Repeat ''?,'' (length ts) = Join (map (\<lambda>_. ''?'') ts) '','' @ '',''"
  proof (induction ts rule: induct_list012)
    case (3 x y zs)
    then show ?case by (simp add: Repeat_def)
  qed (simp_all add: Repeat_def)
  show ?thesis
  proof (cases "ts = []")
    case False
    then show ?thesis by (simp add: join TrimSuffix_def)
  qed (simp add: Repeat_def TrimSuffix_def)
qed

lemma fold_clauses:
  "fold (\<lambda>x (cs, as). (cs @ [f x], as @ g x)) xs (cs, as) = (cs @ map f xs, as @ concat (map g xs))"
  by (induction xs arbitrary: cs as) auto

lemma queryItemToSQL_conds:
  "queryItemToSQL item after =
     (if item_conds item after = [] then ([], [])
      else (render (CAnd (item_conds item after)), binds (CAnd (item_conds item after))))"
  by (simp add: queryItemToSQL_def item_conds_def fold_clauses Repeat_placeholders Let_def comp_def del: Join.simps)

lemma queryToSQL_loop_conds:
  "queryToSQL_loop after clauses args items =
     (if list_ex (\<lambda>item. item_conds item after = []) items then ([], [])
      else (''('' @ Join (clauses @ map (\<lambda>item. render (CAnd (item_conds item after))) items) '' OR '' @ '')'',
            args @ concat (map (\<lambda>item. binds (CAnd (item_conds item after))) items)))"
  by (induction items arbitrary: clauses args) (auto simp: queryItemToSQL_conds simp del: Join.simps)

lemma queryToSQL_cond:
  "queryToSQL q after = (case query_cond q after of None \<Rightarrow> ([], []) | Some c \<Rightarrow> (render c, binds c))"
  by (simp add: queryToSQL_def query_cond_def queryToSQL_loop_conds comp_def del: Join.simps split: option.splits)

lemma render_nonempty: "render c \<noteq> []"
  by (cases c) (auto simp: identifier_clause_def metadata_clause_def)

text \<open>Every placeholder has its argument.\<close>

definition placeholders :: "string \<Rightarrow> nat" where
  "placeholders s = count_list s (CHR ''?'')"

lemma placeholders_append [simp]: "placeholders (s @ t) = placeholders s + placeholders t"
  by (simp add: placeholders_def count_list_append)

lemma placeholders_Cons [simp]: "placeholders (c # s) = (if c = CHR ''?'' then 1 else 0) + placeholders s"
  by (simp add: placeholders_def)

lemma placeholders_Nil [simp]: "placeholders [] = 0"
  by (simp add: placeholders_def)

lemma placeholders_Join: "placeholders sep = 0 \<Longrightarrow> placeholders (Join xs sep) = sum_list (map placeholders xs)"
  by (induction xs sep rule: Join.induct) auto

lemma length_concat_sum: "length (concat (map f xs)) = sum_list (map (\<lambda>x. length (f x)) xs)"
  by (induction xs) auto

lemma sum_list_cong: "(\<And>x. x \<in> set xs \<Longrightarrow> f x = g x) \<Longrightarrow> sum_list (map f xs) = sum_list (map g xs)"
  by (induction xs) auto

lemma placeholders_clause [simp]: "placeholders identifier_clause = 3" "placeholders metadata_clause = 3"
  by code_simp+

lemma placeholders_render: "placeholders (render c) = length (binds c)"
proof (induction c)
  case (CTypes ts)
  have "sum_list (map (placeholders \<circ> (\<lambda>_. ''?'')) ts) = length ts" by (induction ts) auto
  then show ?case by (simp add: placeholders_Join del: Join.simps)
next
  case (CAnd cs)
  then have "sum_list (map (placeholders \<circ> render) cs) = sum_list (map (length \<circ> binds) cs)"
    by (intro sum_list_cong) simp
  then show ?case by (simp add: placeholders_Join length_concat del: Join.simps)
next
  case (COr cs)
  then have "sum_list (map (placeholders \<circ> render) cs) = sum_list (map (length \<circ> binds) cs)"
    by (intro sum_list_cong) simp
  then show ?case by (simp add: placeholders_Join length_concat del: Join.simps)
qed simp_all

lemma queryToSQL_binds: "queryToSQL q after = (s, as) \<Longrightarrow> placeholders s = length as"
  by (auto simp: queryToSQL_cond placeholders_render split: option.splits)

lemma buildEventsSQL_binds: "buildEventsSQL q after backwards = (s, as) \<Longrightarrow> placeholders s = length as"
  using queryToSQL_binds [of q after]
  by (cases "queryToSQL q after") (auto simp: buildEventsSQL_def Let_def split: if_splits)

lemma conditionSQL_binds: "conditionSQL q after = (s, as) \<Longrightarrow> placeholders s = length as"
  using queryToSQL_binds [of q after]
  by (cases "queryToSQL q after") (auto simp: conditionSQL_def Let_def split: if_splits)

lemma buildReadSQL_binds: "buildReadSQL f = (s, as) \<Longrightarrow> placeholders s = length as"
  using buildEventsSQL_binds [of "rf_query f" _ "rf_backwards f"]
  by (auto simp: buildReadSQL_def Let_def split: prod.splits option.splits)

text \<open>A validated query stays well under SQLite's limit of 32766 bound parameters.\<close>

lemma item_binds_bound:
  assumes "item_ok item"
  shows "length (binds (CAnd (item_conds item after))) \<le> 300"
proof -
  have 1: "length (concat (map (binds \<circ> (\<lambda>i. CIdentifier (id_name i) (id_value i) after)) is)) = 3 * length is" for "is"
    by (induction "is") auto
  have 2: "length (concat (map (binds \<circ> (\<lambda>m. CMetadata (md_name m) (md_value m) after)) ms)) = 3 * length ms" for ms
    by (induction ms) auto
  have "length (binds (CAnd (item_conds item after))) \<le>
      length (elems (qi_types item)) + 3 * length (elems (qi_identifiers item)) + 3 * length (elems (qi_metadata item))"
    by (simp only: item_conds_def binds.simps map_append concat_append length_append map_map 1 2) simp
  with assms show ?thesis unfolding item_ok_def by linarith
qed

lemma queryToSQL_bound:
  assumes "query_ok q"
  shows "length (snd (queryToSQL q after)) \<le> 30000"
proof (cases "query_cond q after")
  case (Some c)
  show ?thesis
  proof (cases "c = CFalse")
    case False
    with Some have c: "c = COr (map (\<lambda>item. CAnd (item_conds item after)) (elems (q_items q)))"
      "q_form q = formItems"
      by (auto simp: query_cond_def split: if_splits) (metis queryForm.exhaust)
    have "length (binds c) = sum_list (map (\<lambda>item. length (binds (CAnd (item_conds item after)))) (elems (q_items q)))"
      by (simp only: c(1) binds.simps(5) length_concat_sum map_map comp_def)
    also have "\<dots> \<le> length (elems (q_items q)) * 300"
      using assms c(2) by (intro sum_list_le_bound item_binds_bound) (simp add: query_ok_def list_all_iff)
    also have "\<dots> \<le> 30000" using assms c(2) by (simp add: query_ok_def)
    finally show ?thesis by (simp add: queryToSQL_cond Some)
  qed (simp add: queryToSQL_cond Some)
qed (simp add: queryToSQL_cond)

section \<open>The inserts\<close>

lemma chunks_concat: "0 < n \<Longrightarrow> concat (chunks n rows) = rows"
proof (induction n rows rule: chunks.induct)
  case (1 n rows)
  then show ?case by (cases "rows = []") (simp_all add: chunks.simps [of n rows] chunks.simps [of n "[]"])
qed

lemma chunks_length: "c \<in> set (chunks n rows) \<Longrightarrow> c \<noteq> [] \<and> length c \<le> n"
proof (induction n rows rule: chunks.induct)
  case (1 n rows)
  then show ?case by (auto simp: chunks.simps [of n rows] split: if_splits)
qed

lemma insertSQL_binds:
  assumes "insertSQL insertPrefix cols chunk = (s, as)" "0 < cols"
    and "\<forall>row\<in>set chunk. length row = cols" "placeholders insertPrefix = 0"
  shows "placeholders s = length as" "length as = length chunk * cols"
proof -
  have rep: "placeholders (Repeat ''?, '' n) = n" for n
    by (induction n) (simp_all add: Repeat_def)
  have len: "length (concat chunk) = length chunk * cols"
    using assms(3) by (induction chunk) auto
  have "sum_list (map (\<lambda>_. Suc (cols - 1)) chunk) = length chunk * cols"
    using assms(2) by (induction chunk) auto
  with assms len show "placeholders s = length as" "length as = length chunk * cols"
    by (auto simp: insertSQL_def Let_def placeholders_Join comp_def rep)
qed

lemma batches_vars:
  assumes "chunk \<in> set (batches cols rows)" "\<forall>row\<in>set rows. length row = cols" "0 < cols"
  shows "length chunk * cols \<le> 32000"
proof -
  have "length chunk \<le> 32000 div cols"
    using chunks_length [OF assms(1) [unfolded batches_def]] by (simp add: maxBatchVariables_def)
  then have "length chunk * cols \<le> 32000 div cols * cols" by (rule mult_le_mono1)
  also have "\<dots> \<le> 32000" by (rule div_times_less_eq_dividend)
  finally show ?thesis .
qed

lemma batches_concat: "0 < cols \<Longrightarrow> cols \<le> 32000 \<Longrightarrow> concat (batches cols rows) = rows"
  by (simp add: batches_def maxBatchVariables_def chunks_concat div_greater_zero_iff)

section \<open>Properties\<close>

text \<open>Every statement that the store builds binds one argument for each placeholder, in the order
  of the text: the text is that of the tree of conditions, and the arguments are the tree's.\<close>

lemma statements_bind_their_arguments:
  "queryToSQL q after = (case query_cond q after of None \<Rightarrow> ([], []) | Some c \<Rightarrow> (render c, binds c)) \<and>
   placeholders (fst (queryToSQL q after)) = length (snd (queryToSQL q after)) \<and>
   placeholders (fst (conditionSQL q after)) = length (snd (conditionSQL q after)) \<and>
   placeholders (fst (buildReadSQL f)) = length (snd (buildReadSQL f))"
  using queryToSQL_cond queryToSQL_binds [of q after] conditionSQL_binds [of q after] buildReadSQL_binds [of f]
  by (metis prod.collapse)

text \<open>C39. A query that passed validation binds at most 30000 arguments, below SQLite's limit of
  32766 variables.\<close>

theorem query_arguments_bounded:
  assumes "Query_Validate q = None"
  shows "length (snd (queryToSQL q after)) \<le> 30000"
  using queryToSQL_bound assms by (simp add: query.check_None)

theorem query_arguments_bounded_witness:
  "length (snd (queryToSQL (NewQuery (\<lambda>_. True) (Some
     [\<lparr>qi_types = Some [''A''], qi_identifiers = None, qi_metadata = Some [Metadata ''k'' ''v'']\<rparr>])) 7)) \<le> 30000"
proof -
  have "Query_Validate (NewQuery (\<lambda>_. True) (Some
     [\<lparr>qi_types = Some [''A''], qi_identifiers = None, qi_metadata = Some [Metadata ''k'' ''v'']\<rparr>])) = None"
    by (simp add: query.check_None query_ok_def NewQuery_def dedupeQueryItems_def item_ok_def)
  then show ?thesis by (rule query_arguments_bounded)
qed

text \<open>A batch insert loses no row, repeats none and keeps their order, and no statement of it binds
  more than 32000 variables; each binds one for each placeholder.\<close>

lemma batches_complete_and_bounded:
  assumes "0 < cols" "cols \<le> 32000" "\<forall>row\<in>set rows. length row = cols" "placeholders insertPrefix = 0"
  shows "concat (batches cols rows) = rows \<and>
    (\<forall>chunk \<in> set (batches cols rows).
       length (snd (insertSQL insertPrefix cols chunk)) \<le> 32000 \<and>
       placeholders (fst (insertSQL insertPrefix cols chunk)) = length (snd (insertSQL insertPrefix cols chunk)))"
proof (intro conjI ballI)
  show rows: "concat (batches cols rows) = rows" using assms by (simp add: batches_concat)
  fix chunk assume c: "chunk \<in> set (batches cols rows)"
  then have "set chunk \<subseteq> set rows" by (subst rows [symmetric]) auto
  then have "\<forall>row\<in>set chunk. length row = cols" using assms(3) by blast
  note binds = insertSQL_binds [OF prod.collapse [symmetric] assms(1) this assms(4)]
  show "length (snd (insertSQL insertPrefix cols chunk)) \<le> 32000"
    using binds(2) batches_vars [OF c assms(3,1)] by simp
  show "placeholders (fst (insertSQL insertPrefix cols chunk)) = length (snd (insertSQL insertPrefix cols chunk))"
    by (rule binds(1))
qed

end
