(* ===== verification/Tables.thy ===== *)
theory Tables
  imports Sql
begin

text \<open>
  The tables of the database file (the schema of \<open>internal/store/schema.go\<close>), and what each SQL
  statement of the store does to them: its effect on the rows, the constraints the schema
  declares (primary keys, foreign keys), and the rows a SELECT returns. A statement that breaks a
  constraint, or that SQLite fails for a reason of its own (a full disk, a damaged file), returns an
  error and changes nothing: \<open>faults\<close> says which statements fail, and how.
\<close>

section \<open>Rows\<close>

record event_row =
  er_sequence :: int
  er_time :: string
  er_type :: string
  er_payload :: string
  er_identifiers :: string
  er_metadata :: string

type_synonym tag_row = "int \<times> string \<times> string"

record tables =
  t_events :: "event_row list"
  t_identifiers :: "tag_row list"
  t_metadata :: "tag_row list"
  t_projections :: "(string \<times> string) \<rightharpoonup> (string \<times> string)"
  t_paused_at :: "string option"

text \<open>The tables of a new file.\<close>

definition empty_tables :: tables where
  "empty_tables =
     \<lparr>t_events = [], t_identifiers = [], t_metadata = [], t_projections = Map.empty, t_paused_at = None\<rparr>"

text \<open>An error of the driver: one of SQLite's extended result codes, or anything else.\<close>

datatype sql_error = Sqlite int | Other

definition constraint_primary_key :: int where "constraint_primary_key = 1555"

definition constraint_foreign_key :: int where "constraint_foreign_key = 787"

section \<open>Statements that write\<close>

definition insert_events :: "event_row list \<Rightarrow> tables \<Rightarrow> sql_error + unit \<times> tables" where
  "insert_events rows db =
     (if distinct (map er_sequence (t_events db @ rows))
      then Inr ((), db\<lparr>t_events := t_events db @ rows\<rparr>)
      else Inl (Sqlite constraint_primary_key))"

definition references_event :: "tables \<Rightarrow> tag_row \<Rightarrow> bool" where
  "references_event db row \<longleftrightarrow> fst row \<in> set (map er_sequence (t_events db))"

definition insert_identifiers :: "tag_row list \<Rightarrow> tables \<Rightarrow> sql_error + unit \<times> tables" where
  "insert_identifiers rows db =
     (if \<not> distinct (t_identifiers db @ rows) then Inl (Sqlite constraint_primary_key)
      else if \<not> list_all (references_event db) rows then Inl (Sqlite constraint_foreign_key)
      else Inr ((), db\<lparr>t_identifiers := t_identifiers db @ rows\<rparr>))"

definition insert_metadata :: "tag_row list \<Rightarrow> tables \<Rightarrow> sql_error + unit \<times> tables" where
  "insert_metadata rows db =
     (if \<not> distinct (t_metadata db @ rows) then Inl (Sqlite constraint_primary_key)
      else if \<not> list_all (references_event db) rows then Inl (Sqlite constraint_foreign_key)
      else Inr ((), db\<lparr>t_metadata := t_metadata db @ rows\<rparr>))"

text \<open>The conditional writes of projections, with the number of rows each one touched.\<close>

definition create_projection ::
    "string \<times> string \<Rightarrow> string \<Rightarrow> string \<Rightarrow> tables \<Rightarrow> sql_error + nat \<times> tables" where
  "create_projection k version payload db =
     (case t_projections db k of
        Some _ \<Rightarrow> Inr (0, db)
      | None \<Rightarrow> Inr (1, db\<lparr>t_projections := (t_projections db)(k \<mapsto> (version, payload))\<rparr>))"

definition replace_projection ::
    "string \<times> string \<Rightarrow> string \<Rightarrow> string \<Rightarrow> string \<Rightarrow> tables \<Rightarrow> sql_error + nat \<times> tables" where
  "replace_projection k old version payload db =
     (case t_projections db k of
        Some (stored, _) \<Rightarrow>
          (if stored = old
           then Inr (1, db\<lparr>t_projections := (t_projections db)(k \<mapsto> (version, payload))\<rparr>)
           else Inr (0, db))
      | None \<Rightarrow> Inr (0, db))"

definition delete_projection :: "string \<times> string \<Rightarrow> string \<Rightarrow> tables \<Rightarrow> sql_error + nat \<times> tables" where
  "delete_projection k old db =
     (case t_projections db k of
        Some (stored, _) \<Rightarrow>
          (if stored = old then Inr (1, db\<lparr>t_projections := (t_projections db)(k := None)\<rparr>) else Inr (0, db))
      | None \<Rightarrow> Inr (0, db))"

definition delete_projections_of :: "string \<Rightarrow> tables \<Rightarrow> sql_error + unit \<times> tables" where
  "delete_projections_of typ db =
     Inr ((), db\<lparr>t_projections := (\<lambda>k. if fst k = typ then None else t_projections db k)\<rparr>)"

definition delete_projections :: "tables \<Rightarrow> sql_error + unit \<times> tables" where
  "delete_projections db = Inr ((), db\<lparr>t_projections := Map.empty\<rparr>)"

definition delete_identifiers :: "tables \<Rightarrow> sql_error + unit \<times> tables" where
  "delete_identifiers db = Inr ((), db\<lparr>t_identifiers := []\<rparr>)"

definition delete_metadata :: "tables \<Rightarrow> sql_error + unit \<times> tables" where
  "delete_metadata db = Inr ((), db\<lparr>t_metadata := []\<rparr>)"

text \<open>No event a tag refers to can be deleted.\<close>

definition delete_events :: "tables \<Rightarrow> sql_error + unit \<times> tables" where
  "delete_events db =
     (if list_ex (references_event db) (t_identifiers db @ t_metadata db)
      then Inl (Sqlite constraint_foreign_key)
      else Inr ((), db\<lparr>t_events := []\<rparr>))"

definition update_paused_at :: "string option \<Rightarrow> tables \<Rightarrow> sql_error + unit \<times> tables" where
  "update_paused_at at db = Inr ((), db\<lparr>t_paused_at := at\<rparr>)"

section \<open>Statements that read\<close>

text \<open>What the condition says of one row of \<open>events\<close>.\<close>

fun eval :: "tables \<Rightarrow> event_row \<Rightarrow> cond \<Rightarrow> bool" where
  "eval db r (CTypes ts) \<longleftrightarrow> List.member ts (er_type r)"
| "eval db r (CIdentifier n v after) \<longleftrightarrow>
     list_ex (\<lambda>(s, n', v'). n' = n \<and> v' = v \<and> s > after \<and> s = er_sequence r) (t_identifiers db)"
| "eval db r (CMetadata n v after) \<longleftrightarrow>
     list_ex (\<lambda>(s, n', v'). n' = n \<and> v' = v \<and> s > after \<and> s = er_sequence r) (t_metadata db)"
| "eval db r (CAnd cs) \<longleftrightarrow> list_all (eval db r) cs"
| "eval db r (COr cs) \<longleftrightarrow> list_ex (eval db r) cs"
| "eval db r CFalse \<longleftrightarrow> False"

text \<open>A SELECT of events: its condition, the position it reads from, its order, its LIMIT.\<close>

record select =
  s_where :: "cond option"
  s_after :: int
  s_backwards :: bool
  s_limit :: "int option"

definition select_where :: "tables \<Rightarrow> cond option \<Rightarrow> int \<Rightarrow> event_row list" where
  "select_where db c after =
     filter (\<lambda>r. er_sequence r > after \<and> (case c of None \<Rightarrow> True | Some c \<Rightarrow> eval db r c)) (t_events db)"

text \<open>A negative LIMIT is no limit.\<close>

definition limit_rows :: "int option \<Rightarrow> 'a list \<Rightarrow> 'a list" where
  "limit_rows lim rows =
     (case lim of None \<Rightarrow> rows | Some n \<Rightarrow> if n < 0 then rows else take (nat n) rows)"

definition run_select :: "tables \<Rightarrow> select \<Rightarrow> event_row list" where
  "run_select db s =
     (let rows = sort_key er_sequence (select_where db (s_where s) (s_after s))
      in limit_rows (s_limit s) (if s_backwards s then rev rows else rows))"

text \<open>\<open>SELECT coalesce(max(sequence), 0) FROM events\<close>.\<close>

definition max_sequence :: "tables \<Rightarrow> int" where
  "max_sequence db = (if t_events db = [] then 0 else foldr max (map er_sequence (tl (t_events db))) (er_sequence (hd (t_events db))))"

text \<open>The text of a SELECT and the arguments it binds.\<close>

definition select_text :: "select \<Rightarrow> string \<times> arg list" where
  "select_text s =
     (''SELECT events.sequence, events.time, events.type, events.payload,'' @ [newline_c] @
      ''  events.identifiers, events.metadata'' @ [newline_c] @
      ''FROM events'' @ [newline_c] @ ''WHERE events.sequence > ?'' @
      (case s_where s of None \<Rightarrow> [] | Some c \<Rightarrow> '' AND '' @ render c) @
      (if s_backwards s then '' ORDER BY events.sequence DESC'' else '' ORDER BY events.sequence ASC'') @
      (case s_limit s of None \<Rightarrow> [] | Some n \<Rightarrow> '' LIMIT ?''),
      [AInt (s_after s)] @ (case s_where s of None \<Rightarrow> [] | Some c \<Rightarrow> binds c) @
      (case s_limit s of None \<Rightarrow> [] | Some n \<Rightarrow> [AInt n]))"

text \<open>The SELECTs the store runs.\<close>

definition events_select :: "Query \<Rightarrow> int \<Rightarrow> bool \<Rightarrow> int option \<Rightarrow> select" where
  "events_select q after backwards lim =
     \<lparr>s_where = query_cond q after, s_after = after, s_backwards = backwards, s_limit = lim\<rparr>"

definition read_select :: "ReadFilter \<Rightarrow> select" where
  "read_select f =
     events_select (rf_query f) (case rf_after f of Some a \<Rightarrow> a | None \<Rightarrow> 0) (rf_backwards f)
       (Some (i64 (rf_limit f + 1)))"

lemma events_select_text: "select_text (events_select q after backwards None) = buildEventsSQL q after backwards"
  by (auto simp: select_text_def events_select_def buildEventsSQL_def queryToSQL_cond render_nonempty
      split: option.split)

lemma read_select_text: "select_text (read_select f) = buildReadSQL f"
  unfolding buildReadSQL_def Let_def events_select_text [symmetric] read_select_def
  by (simp add: select_text_def events_select_def)

section \<open>The log the tables hold\<close>

definition row_of :: "Event \<Rightarrow> event_row" where
  "row_of e =
     \<lparr>er_sequence = ev_sequence e, er_time = format_time (ev_time e), er_type = ed_type (ev_data e),
      er_payload = ed_payload (ev_data e),
      er_identifiers = IdentifierSet_MarshalJSON (ed_identifiers (ev_data e)),
      er_metadata = MetadataSet_MarshalJSON (ed_metadata (ev_data e))\<rparr>"

definition identifier_rows :: "Event list \<Rightarrow> tag_row list" where
  "identifier_rows evs =
     concat (map (\<lambda>e. map (\<lambda>i. (ev_sequence e, id_name i, id_value i)) (ed_identifiers (ev_data e))) evs)"

definition metadata_rows :: "Event list \<Rightarrow> tag_row list" where
  "metadata_rows evs =
     concat (map (\<lambda>e. map (\<lambda>m. (ev_sequence e, md_name m, md_value m)) (ed_metadata (ev_data e))) evs)"

text \<open>
  The abstraction: the tables hold the events of \<open>evs\<close>, a log in the order of its Sequence
  Positions, and their tags, and nothing else.
\<close>

definition db_log :: "tables \<Rightarrow> Event list \<Rightarrow> bool" where
  "db_log db evs \<longleftrightarrow>
     sorted_wrt (<) (map ev_sequence evs) \<and>
     mset (t_events db) = mset (map row_of evs) \<and>
     distinct (t_identifiers db) \<and> set (t_identifiers db) = set (identifier_rows evs) \<and>
     distinct (t_metadata db) \<and> set (t_metadata db) = set (metadata_rows evs)"

lemma row_of_sequence [simp]: "er_sequence (row_of e) = ev_sequence e"
  by (simp add: row_of_def)

lemma row_of_type [simp]: "er_type (row_of e) = ed_type (ev_data e)"
  by (simp add: row_of_def)

lemma row_of_sequence_comp [simp]: "er_sequence \<circ> row_of = ev_sequence"
  by (simp add: comp_def)

lemma rows_append [simp]:
  "identifier_rows (xs @ ys) = identifier_rows xs @ identifier_rows ys"
  "metadata_rows (xs @ ys) = metadata_rows xs @ metadata_rows ys"
  by (simp_all add: identifier_rows_def metadata_rows_def)

lemma rows_Nil [simp]: "identifier_rows [] = []" "metadata_rows [] = []"
  by (simp_all add: identifier_rows_def metadata_rows_def)

lemma in_identifier_rows:
  "(s, n, v) \<in> set (identifier_rows evs) \<longleftrightarrow>
     (\<exists>e\<in>set evs. ev_sequence e = s \<and> Identifier n v \<in> set (ed_identifiers (ev_data e)))"
  by (force simp: identifier_rows_def)

lemma in_metadata_rows:
  "(s, n, v) \<in> set (metadata_rows evs) \<longleftrightarrow>
     (\<exists>e\<in>set evs. ev_sequence e = s \<and> Metadata n v \<in> set (ed_metadata (ev_data e)))"
  by (force simp: metadata_rows_def)

lemma db_log_sequences:
  assumes "db_log db evs"
  shows "set (map er_sequence (t_events db)) = ev_sequence ` set evs"
proof -
  have "set (t_events db) = set (map row_of evs)"
    using assms by (intro mset_eq_setD) (simp add: db_log_def)
  then show ?thesis by (simp add: image_image)
qed

lemma db_log_distinct: "db_log db evs \<Longrightarrow> distinct (map ev_sequence evs)"
  unfolding db_log_def by (metis strict_sorted_iff)

lemma sequence_inj:
  assumes "db_log db evs" "e \<in> set evs" "e' \<in> set evs" "ev_sequence e = ev_sequence e'"
  shows "e = e'"
  using db_log_distinct [OF assms(1)] assms(2-4) by (auto simp: distinct_map inj_on_def)

lemma empty_db_log: "db_log empty_tables []"
  by (simp add: db_log_def empty_tables_def)

section \<open>A SELECT returns what \<open>Query.Matches\<close> selects\<close>

text \<open>The queries of which the text and \<open>Matches\<close> speak alike: no item has an empty array of types.\<close>

definition query_wf :: "Query \<Rightarrow> bool" where
  "query_wf q \<longleftrightarrow> q_form q = formItems \<longrightarrow> list_all (\<lambda>i. qi_types i \<noteq> Some []) (elems (q_items q))"

lemma query_ok_wf: "query_ok q \<Longrightarrow> query_wf q"
  by (auto simp: query_ok_def query_wf_def list_all_iff item_ok_def)

lemma eval_identifier:
  assumes "db_log db evs" "e \<in> set evs" "after < ev_sequence e"
  shows "eval db (row_of e) (CIdentifier (id_name i) (id_value i) after) \<longleftrightarrow> i \<in> set (ed_identifiers (ev_data e))"
proof -
  have "(ev_sequence e, id_name i, id_value i) \<in> set (t_identifiers db) \<longleftrightarrow> i \<in> set (ed_identifiers (ev_data e))"
    using assms sequence_inj [OF assms(1)] by (auto simp: db_log_def in_identifier_rows)
  with assms(3) show ?thesis by (auto simp: list_ex_iff)
qed

lemma eval_metadata:
  assumes "db_log db evs" "e \<in> set evs" "after < ev_sequence e"
  shows "eval db (row_of e) (CMetadata (md_name m) (md_value m) after) \<longleftrightarrow> m \<in> set (ed_metadata (ev_data e))"
proof -
  have "(ev_sequence e, md_name m, md_value m) \<in> set (t_metadata db) \<longleftrightarrow> m \<in> set (ed_metadata (ev_data e))"
    using assms sequence_inj [OF assms(1)] by (auto simp: db_log_def in_metadata_rows)
  with assms(3) show ?thesis by (auto simp: list_ex_iff)
qed

lemma eval_item:
  assumes "db_log db evs" "e \<in> set evs" "after < ev_sequence e" "qi_types item \<noteq> Some []"
  shows "eval db (row_of e) (CAnd (item_conds item after)) \<longleftrightarrow> QueryItem_matches item (ev_data e)"
proof -
  have "list_all (eval db (row_of e)) (map (\<lambda>i. CIdentifier (id_name i) (id_value i) after) is) \<longleftrightarrow>
      set is \<subseteq> set (ed_identifiers (ev_data e))" for "is"
    using eval_identifier [OF assms(1-3)] by (auto simp: list_all_iff simp del: eval.simps)
  moreover have "list_all (eval db (row_of e)) (map (\<lambda>m. CMetadata (md_name m) (md_value m) after) ms) \<longleftrightarrow>
      set ms \<subseteq> set (ed_metadata (ev_data e))" for ms
    using eval_metadata [OF assms(1-3)] by (auto simp: list_all_iff simp del: eval.simps)
  ultimately show ?thesis
    using assms(4)
    by (cases "qi_types item")
      (auto simp: item_conds_def QueryItem_matches_iff simp del: eval.simps(2,3))
qed

text \<open>The SQL condition and \<open>Matches\<close> agree on every event after the position read from.\<close>

lemma query_cond_matches:
  assumes "db_log db evs" "e \<in> set evs" "after < ev_sequence e" "query_wf q"
  shows "(case query_cond q after of None \<Rightarrow> True | Some c \<Rightarrow> eval db (row_of e) c) \<longleftrightarrow> Query_Matches q (ev_data e)"
proof (cases "q_form q")
  case formItems
  define items where "items = elems (q_items q)"
  have item: "eval db (row_of e) (CAnd (item_conds i after)) \<longleftrightarrow> QueryItem_matches i (ev_data e)"
    if "i \<in> set items" for i
    using eval_item [OF assms(1-3)] that assms(4) formItems by (simp add: query_wf_def list_all_iff items_def)
  have ex: "list_ex (eval db (row_of e)) (map (\<lambda>i. CAnd (item_conds i after)) items) \<longleftrightarrow>
      list_ex (\<lambda>i. QueryItem_matches i (ev_data e)) items"
    using item by (auto simp: list_ex_iff simp del: eval.simps)
  have none: "list_ex (\<lambda>i. QueryItem_matches i (ev_data e)) items"
    if "list_ex (\<lambda>i. item_conds i after = []) items"
  proof -
    from that obtain i where i: "i \<in> set items" "item_conds i after = []" by (auto simp: list_ex_iff)
    with item [OF i(1)] have "QueryItem_matches i (ev_data e)" by simp
    with i(1) show ?thesis by (auto simp: list_ex_iff)
  qed
  have c: "query_cond q after =
      (if items = [] then Some CFalse
       else if list_ex (\<lambda>i. item_conds i after = []) items then None
       else Some (COr (map (\<lambda>i. CAnd (item_conds i after)) items)))"
    by (simp add: query_cond_def formItems items_def)
  have m: "Query_Matches q (ev_data e) = list_ex (\<lambda>i. QueryItem_matches i (ev_data e)) items"
    by (simp add: Query_Matches_def formItems items_def)
  show ?thesis
    using ex none by (cases "items = []") (auto simp: c m simp del: eval.simps(4))
qed (simp_all add: query_cond_def Query_Matches_def)

lemma sort_key_unique:
  assumes "mset xs = mset ys" "sorted_wrt (<) (map f ys)"
  shows "sort_key f xs = ys"
proof -
  have d: "sorted (map f ys)" "distinct (map f ys)"
    using assms(2) by (auto simp: strict_sorted_iff)
  have same: "mset (sort_key f xs) = mset ys" using assms(1) by simp
  then have "set (sort_key f xs) = set ys" by (rule mset_eq_setD)
  moreover from same have "distinct (map f (sort_key f xs))"
    using d(2) mset_eq_imp_distinct_iff [of "map f (sort_key f xs)" "map f ys"] by (metis mset_map)
  moreover have "inj_on f (set (sort_key f xs) \<union> set ys)"
    using d(2) calculation(1) by (simp add: distinct_map)
  ultimately show ?thesis
    using d by (intro map_sorted_distinct_set_unique [of f]) simp_all
qed

text \<open>The events a read is about: those after a position that the query matches, in order.\<close>

definition matching :: "Event list \<Rightarrow> Query \<Rightarrow> int \<Rightarrow> Event list" where
  "matching evs q after = filter (\<lambda>e. after < ev_sequence e \<and> Query_Matches q (ev_data e)) evs"

lemma sorted_wrt_filter_map: "sorted_wrt (<) (map f xs) \<Longrightarrow> sorted_wrt (<) (map f (filter P xs))"
  by (induction xs) auto

lemma select_where_matching:
  assumes "db_log db evs" "query_wf q"
  shows "mset (select_where db (query_cond q after) after) = mset (map row_of (matching evs q after))"
proof -
  let ?P = "\<lambda>r. er_sequence r > after \<and> (case query_cond q after of None \<Rightarrow> True | Some c \<Rightarrow> eval db r c)"
  have "mset (select_where db (query_cond q after) after) = filter_mset ?P (mset (map row_of evs))"
    using assms(1) by (simp only: select_where_def mset_filter db_log_def)
  also have "\<dots> = mset (filter ?P (map row_of evs))" by (simp only: mset_filter)
  also have "filter ?P (map row_of evs) = map row_of (filter (\<lambda>e. ?P (row_of e)) evs)"
    by (simp only: filter_map comp_def)
  also have "filter (\<lambda>e. ?P (row_of e)) evs = matching evs q after"
    unfolding matching_def using query_cond_matches [OF assms(1) _ _ assms(2)]
    by (intro filter_cong) auto
  finally show ?thesis .
qed

lemma run_select_matching:
  assumes "db_log db evs" "query_wf q"
  shows "run_select db (events_select q after backwards lim) =
    map row_of (limit_rows lim (if backwards then rev (matching evs q after) else matching evs q after))"
proof -
  have "sort_key er_sequence (select_where db (query_cond q after) after) = map row_of (matching evs q after)"
    using assms(1)
    by (intro sort_key_unique select_where_matching [OF assms])
      (simp add: matching_def sorted_wrt_filter_map db_log_def)
  then show ?thesis
    by (auto simp: run_select_def events_select_def limit_rows_def rev_map take_map split: option.split)
qed

lemma sorted_le_last: "sorted xs \<Longrightarrow> y \<in> set xs \<Longrightarrow> y \<le> last xs"
  by (induction xs) auto

lemma max_sequence_log:
  assumes "db_log db evs" "\<forall>e\<in>set evs. 0 < ev_sequence e"
  shows "max_sequence db = (if evs = [] then 0 else ev_sequence (last evs))"
proof -
  have len: "t_events db = [] \<longleftrightarrow> evs = []"
    using assms(1) unfolding db_log_def by (metis mset_zero_iff_right map_is_Nil_conv)
  have fold: "foldr max xs (x::int) = Max (set (x # xs))" for x xs
    by (induction xs) (auto simp: max.commute insert_commute max.left_commute)
  show ?thesis
  proof (cases "evs = []")
    case False
    with len have "max_sequence db = Max (set (map er_sequence (t_events db)))"
      by (cases "t_events db") (simp_all add: max_sequence_def fold)
    also have "\<dots> = Max (ev_sequence ` set evs)" by (simp only: db_log_sequences [OF assms(1)])
    also have "\<dots> = ev_sequence (last evs)"
    proof (rule Max_eqI)
      fix y assume "y \<in> ev_sequence ` set evs"
      moreover have "sorted (map ev_sequence evs)"
        using assms(1) by (simp add: db_log_def strict_sorted_iff)
      ultimately show "y \<le> ev_sequence (last evs)"
        using False sorted_le_last [of "map ev_sequence evs" y] by (simp add: last_map)
    qed (use False in auto)
    finally show ?thesis using False by simp
  qed (use len in \<open>simp add: max_sequence_def\<close>)
qed

section \<open>Properties\<close>

text \<open>C12. The statement that reads a page selects what the in-memory matcher selects: on tables that
  hold a log, it returns the rows of exactly the events after the position that the query
  matches, in the order asked for, at most as many as its limit.\<close>

theorem select_equals_Matches:
  assumes "db_log db evs" "query_wf (rf_query f)"
  shows "select_text (read_select f) = buildReadSQL f \<and>
    run_select db (read_select f) =
      map row_of (limit_rows (Some (i64 (rf_limit f + 1)))
        (let found = filter (\<lambda>e. (case rf_after f of Some a \<Rightarrow> a | None \<Rightarrow> 0) < ev_sequence e \<and>
             Query_Matches (rf_query f) (ev_data e)) evs
         in if rf_backwards f then rev found else found))"
  using run_select_matching [OF assms] read_select_text by (simp add: read_select_def matching_def Let_def)

theorem select_equals_Matches_witness:
  "run_select empty_tables (read_select \<lparr>rf_query = QueryAll, rf_after = Some 3, rf_limit = 10, rf_backwards = True\<rparr>) = []"
  using select_equals_Matches [OF empty_db_log, of "\<lparr>rf_query = QueryAll, rf_after = Some 3, rf_limit = 10, rf_backwards = True\<rparr>"]
  by (simp add: query_wf_def QueryAll_def limit_rows_def)

end
