(* ===== verification/Store.thy ===== *)
theory Store
  imports Tables
begin

text \<open>
  The store (\<open>internal/store\<close>: \<open>append.go\<close>, \<open>read.go\<close>, \<open>projection.go\<close>,
  \<open>import.go\<close>, \<open>pause.go\<close>, \<open>errors.go\<close>, and the operations of \<open>sqlite.go\<close> on an open
  store). The state of a store is its committed tables, the counter of Sequence Positions, and the
  time of the pause. A write runs on a connection that holds the tables as its transaction
  left them so far: its end commits them, or rolls them back by keeping the old ones.
\<close>

section \<open>Errors\<close>

datatype store_error =
    Sql sql_error
  | ConditionConflictError nat
  | ProjectionConflictError string nat
  | NoTime nat
  | NilPayload
  | BadLimit int
  | SchemaVersionError int int
  | ErrDatabaseLocked
  | NoSchema
  | MissingRow
  | BadPauseTime
  | FileError

definition IsFatal :: "store_error \<Rightarrow> bool" where
  "IsFatal err =
     (case err of
        Sql (Sqlite code) \<Rightarrow> code mod 256 = 10 \<or> code mod 256 = 11 \<or> code mod 256 = 14 \<or> code mod 256 = 26
      | _ \<Rightarrow> False)"

definition IsStorageFull :: "store_error \<Rightarrow> bool" where
  "IsStorageFull err = (case err of Sql (Sqlite code) \<Rightarrow> code mod 256 = 13 | _ \<Rightarrow> False)"

text \<open>\<open>errors.Is(err, ErrConcurrencyConflict)\<close>.\<close>

fun is_conflict :: "store_error \<Rightarrow> bool" where
  "is_conflict (ConditionConflictError i) = True"
| "is_conflict (ProjectionConflictError op i) = True"
| "is_conflict _ = False"

section \<open>A connection\<close>

text \<open>
  The statements run so far are counted: \<open>faults n = Some e\<close> makes statement \<open>n\<close> fail with
  \<open>e\<close>, whatever it is.
\<close>

type_synonym faults = "nat \<Rightarrow> sql_error option"

abbreviation no_faults :: faults where "no_faults \<equiv> \<lambda>_. None"

record conn =
  c_tables :: tables
  c_tick :: nat

type_synonym 'a statement = "tables \<Rightarrow> sql_error + 'a \<times> tables"

definition exec :: "faults \<Rightarrow> 'a statement \<Rightarrow> conn \<Rightarrow> store_error + 'a \<times> conn" where
  "exec faults stmt c =
     (case faults (c_tick c) of
        Some e \<Rightarrow> Inl (Sql e)
      | None \<Rightarrow>
          (case stmt (c_tables c) of
             Inl e \<Rightarrow> Inl (Sql e)
           | Inr (x, db) \<Rightarrow> Inr (x, \<lparr>c_tables = db, c_tick = Suc (c_tick c)\<rparr>)))"

text \<open>BEGIN, COMMIT, and the preparation of a statement change no row.\<close>

definition no_rows :: "unit statement" where
  "no_rows db = Inr ((), db)"

section \<open>The store\<close>

record Store =
  st_db :: tables
  st_nextSeq :: int
  st_pausedAt :: gotime

definition open_conn :: "Store \<Rightarrow> conn" where
  "open_conn s = \<lparr>c_tables = st_db s, c_tick = 0\<rparr>"

definition LastSequence :: "Store \<Rightarrow> int" where
  "LastSequence s = i64 (st_nextSeq s - 1)"

definition reserveSequences :: "nat \<Rightarrow> Store \<Rightarrow> int \<times> Store" where
  "reserveSequences n s = (st_nextSeq s, s\<lparr>st_nextSeq := i64 (st_nextSeq s + int n)\<rparr>)"

definition releaseSequences :: "int \<Rightarrow> Store \<Rightarrow> Store" where
  "releaseSequences start s = s\<lparr>st_nextSeq := start\<rparr>"

section \<open>Append Conditions\<close>

definition resolveWithoutQuery :: "Query \<Rightarrow> int \<Rightarrow> int \<Rightarrow> bool \<times> bool" where
  "resolveWithoutQuery failIfEventsMatch after lastAssigned =
     (if q_form failIfEventsMatch = formNone then (True, True)
      else if after = lastAssigned then (True, True)
      else (False, False))"

text \<open>The SELECT EXISTS of \<open>checkFailIfEventsMatchSQL\<close>.\<close>

definition event_exists :: "Query \<Rightarrow> int \<Rightarrow> bool statement" where
  "event_exists q after db = Inr (select_where db (query_cond q after) after \<noteq> [], db)"

definition checkFailIfEventsMatchSQL :: "faults \<Rightarrow> Query \<Rightarrow> int \<Rightarrow> conn \<Rightarrow> store_error + bool \<times> conn" where
  "checkFailIfEventsMatchSQL faults q after c =
     bind_err (exec faults (event_exists q after) c) (\<lambda>(matches, c'). Inr (\<not> matches, c'))"

definition checkCondition :: "faults \<Rightarrow> int \<Rightarrow> AppendCondition \<Rightarrow> conn \<Rightarrow> store_error + bool \<times> conn" where
  "checkCondition faults lastAssigned cond c =
     (let (holds, decided) = resolveWithoutQuery (FailIfEventsMatch cond) (AfterSequence cond) lastAssigned
      in if decided then Inr (holds, c)
         else checkFailIfEventsMatchSQL faults (FailIfEventsMatch cond) (AfterSequence cond) c)"

fun check_conditions :: "faults \<Rightarrow> int \<Rightarrow> nat \<Rightarrow> AppendCondition list \<Rightarrow> conn \<Rightarrow> store_error + conn" where
  "check_conditions faults lastAssigned i [] c = Inr c"
| "check_conditions faults lastAssigned i (cond # conds) c =
     (case checkCondition faults lastAssigned cond c of
        Inl e \<Rightarrow> Inl e
      | Inr (holds, c') \<Rightarrow>
          (if \<not> holds then Inl (ConditionConflictError i)
           else check_conditions faults lastAssigned (Suc i) conds c'))"

section \<open>Projections\<close>

record ProjectionRead =
  pr_found :: bool
  pr_version :: string
  pr_payload :: string

record Versions =
  v_create :: "string list"
  v_replace :: "string list"

definition checkWritten :: "string \<Rightarrow> nat \<Rightarrow> store_error + nat \<times> conn \<Rightarrow> store_error + conn" where
  "checkWritten op index res =
     (case res of
        Inl e \<Rightarrow> Inl e
      | Inr (n, c) \<Rightarrow> (if n = 0 then Inl (ProjectionConflictError op index) else Inr c))"

text \<open>
  The loop of \<open>execEach\<close>. A statement is \<open>None\<close> when its arguments can't be built: a nil
  payload panics.
\<close>

fun exec_loop :: "faults \<Rightarrow> string \<Rightarrow> nat \<Rightarrow> nat statement option list \<Rightarrow> conn \<Rightarrow> store_error + conn" where
  "exec_loop faults op i [] c = Inr c"
| "exec_loop faults op i (None # stmts) c = Inl NilPayload"
| "exec_loop faults op i (Some stmt # stmts) c =
     (case checkWritten op i (exec faults stmt c) of
        Inl e \<Rightarrow> Inl e
      | Inr c' \<Rightarrow> exec_loop faults op (Suc i) stmts c')"

definition execEach :: "faults \<Rightarrow> string \<Rightarrow> nat statement option list \<Rightarrow> conn \<Rightarrow> store_error + conn" where
  "execEach faults op stmts c =
     (if length stmts = 0 then Inr c
      else bind_err (exec faults no_rows c) (\<lambda>(_, c'). exec_loop faults op 0 stmts c'))"

text \<open>
  The statements of \<open>writeProjections\<close>. \<open>uuids\<close> are the random UUIDs it draws, in order: one
  for each create, then one for each replace.
\<close>

definition create_statements :: "(nat \<Rightarrow> string) \<Rightarrow> Writes \<Rightarrow> nat statement option list" where
  "create_statements uuids w =
     map (\<lambda>(i, c). map_option (create_projection (c_type c, c_id c) (uuids i)) (c_payload c))
       (enumerate 0 (elems (w_create w)))"

definition replace_statements :: "(nat \<Rightarrow> string) \<Rightarrow> Writes \<Rightarrow> nat statement option list" where
  "replace_statements uuids w =
     map (\<lambda>(i, r). map_option (replace_projection (r_type r, r_id r) (r_version r) (uuids i)) (r_payload r))
       (enumerate (length (elems (w_create w))) (elems (w_replace w)))"

definition delete_statements :: "Writes \<Rightarrow> nat statement option list" where
  "delete_statements w =
     map (\<lambda>d. Some (delete_projection (d_type d, d_id d) (d_version d))) (elems (w_delete w))"

definition writeProjections :: "faults \<Rightarrow> (nat \<Rightarrow> string) \<Rightarrow> Writes \<Rightarrow> conn \<Rightarrow> store_error + Versions \<times> conn" where
  "writeProjections faults uuids w c =
     (let n = length (elems (w_create w)); m = length (elems (w_replace w)) in
      bind_err (execEach faults ''create'' (create_statements uuids w) c) (\<lambda>c1.
      bind_err (execEach faults ''replace'' (replace_statements uuids w) c1) (\<lambda>c2.
      bind_err (execEach faults ''delete'' (delete_statements w) c2) (\<lambda>c3.
      Inr (\<lparr>v_create = map uuids [0..<n], v_replace = map uuids [n..<n + m]\<rparr>, c3)))))"

section \<open>Inserting events\<close>

fun batch_loop :: "faults \<Rightarrow> ('r list \<Rightarrow> unit statement) \<Rightarrow> 'r list list \<Rightarrow> conn \<Rightarrow> store_error + conn" where
  "batch_loop faults stmt [] c = Inr c"
| "batch_loop faults stmt (chunk # cs) c =
     (case exec faults (stmt chunk) c of
        Inl e \<Rightarrow> Inl e
      | Inr (_, c') \<Rightarrow> batch_loop faults stmt cs c')"

definition execBatchInsert ::
    "faults \<Rightarrow> ('r list \<Rightarrow> unit statement) \<Rightarrow> nat \<Rightarrow> 'r list \<Rightarrow> conn \<Rightarrow> store_error + conn" where
  "execBatchInsert faults stmt colsPerRow rows c =
     (if length rows = 0 then Inr c else batch_loop faults stmt (batches colsPerRow rows) c)"

definition insertEventsBatch :: "faults \<Rightarrow> Event list \<Rightarrow> conn \<Rightarrow> store_error + conn" where
  "insertEventsBatch faults rows c = execBatchInsert faults insert_events 6 (map row_of rows) c"

definition insertIdentifiersBatch :: "faults \<Rightarrow> Event list \<Rightarrow> conn \<Rightarrow> store_error + conn" where
  "insertIdentifiersBatch faults rows c = execBatchInsert faults insert_identifiers 3 (identifier_rows rows) c"

definition insertMetadataBatch :: "faults \<Rightarrow> Event list \<Rightarrow> conn \<Rightarrow> store_error + conn" where
  "insertMetadataBatch faults rows c = execBatchInsert faults insert_metadata 3 (metadata_rows rows) c"

text \<open>The three inserts, in the order of \<open>insertEvents\<close> and of \<open>Import\<close>.\<close>

definition insert_batches :: "faults \<Rightarrow> Event list \<Rightarrow> conn \<Rightarrow> store_error + conn" where
  "insert_batches faults evs c =
     bind_err (insertEventsBatch faults evs c) (\<lambda>c1.
     bind_err (insertIdentifiersBatch faults evs c1) (insertMetadataBatch faults evs))"

definition sequenced :: "int \<Rightarrow> PendingEvent list \<Rightarrow> Event list" where
  "sequenced start events =
     map (\<lambda>(i, e). \<lparr>ev_sequence = i64 (start + int i), ev_time = pe_time e, ev_data = pe_data e\<rparr>)
       (enumerate 0 events)"

definition insertEvents :: "faults \<Rightarrow> PendingEvent list \<Rightarrow> int \<Rightarrow> conn \<Rightarrow> store_error + Event list \<times> conn" where
  "insertEvents faults events start c =
     (if length events = 0 then Inr ([], c)
      else bind_err (insert_batches faults (sequenced start events) c) (\<lambda>c'. Inr (sequenced start events, c')))"

section \<open>Append\<close>

record AppendResult =
  ar_events :: "Event list"
  ar_versions :: Versions

definition no_versions :: Versions where
  "no_versions = \<lparr>v_create = [], v_replace = []\<rparr>"

fun no_time :: "nat \<Rightarrow> PendingEvent list \<Rightarrow> nat option" where
  "no_time i [] = None"
| "no_time i (e # es) = (if IsZero (pe_time e) then Some i else no_time (Suc i) es)"

text \<open>What comes before the positions are reserved, then what comes after.\<close>

definition append_checks :: "faults \<Rightarrow> (nat \<Rightarrow> string) \<Rightarrow> Store \<Rightarrow> AppendCondition list \<Rightarrow> Writes \<Rightarrow>
    store_error + Versions \<times> conn" where
  "append_checks faults uuids s conditions projections =
     bind_err (exec faults no_rows (open_conn s)) (\<lambda>(_, c).
     bind_err (check_conditions faults (LastSequence s) 0 conditions c) (\<lambda>c1.
     writeProjections faults uuids projections c1))"

definition append_inserts :: "faults \<Rightarrow> PendingEvent list \<Rightarrow> int \<Rightarrow> conn \<Rightarrow> store_error + Event list \<times> tables" where
  "append_inserts faults events start c =
     bind_err (insertEvents faults events start c) (\<lambda>(appended, c1).
     bind_err (exec faults no_rows c1) (\<lambda>(_, c2). Inr (appended, c_tables c2)))"

definition Append :: "faults \<Rightarrow> (nat \<Rightarrow> string) \<Rightarrow> Store \<Rightarrow> PendingEvent list \<Rightarrow> AppendCondition list \<Rightarrow>
    Writes \<Rightarrow> (store_error + AppendResult) \<times> Store" where
  "Append faults uuids s events conditions projections =
     (case no_time 0 events of
        Some i \<Rightarrow> (Inl (NoTime i), s)
      | None \<Rightarrow>
          if length events = 0 \<and> length conditions = 0 \<and> Writes_Len projections = 0
          then (Inr \<lparr>ar_events = [], ar_versions = no_versions\<rparr>, s)
          else
            (case append_checks faults uuids s conditions projections of
               Inl e \<Rightarrow> (Inl e, s)
             | Inr (versions, c) \<Rightarrow>
                 (let (start, s1) = reserveSequences (length events) s
                  in case append_inserts faults events start c of
                       Inl e \<Rightarrow> (Inl e, releaseSequences start s1)
                     | Inr (appended, db) \<Rightarrow>
                         (Inr \<lparr>ar_events = appended, ar_versions = versions\<rparr>, s1\<lparr>st_db := db\<rparr>))))"

section \<open>Import and deletion\<close>

definition highest_sequence :: "Event list \<Rightarrow> int" where
  "highest_sequence events =
     fold (\<lambda>ev highest. if ev_sequence ev > highest then ev_sequence ev else highest) events 0"

definition Import :: "faults \<Rightarrow> Store \<Rightarrow> Event list \<Rightarrow> store_error option \<times> Store" where
  "Import faults s events =
     (if length events = 0 then (None, s)
      else case
          bind_err (exec faults no_rows (open_conn s)) (\<lambda>(_, c).
          bind_err (insert_batches faults events c) (\<lambda>c1.
          exec faults no_rows c1)) of
        Inl e \<Rightarrow> (Some e, s)
      | Inr (_, c) \<Rightarrow>
          (let highest = highest_sequence events; s1 = s\<lparr>st_db := c_tables c\<rparr>
           in (None, if i64 (highest + 1) > st_nextSeq s then s1\<lparr>st_nextSeq := i64 (highest + 1)\<rparr> else s1)))"

text \<open>A statement run on its own commits by itself.\<close>

definition run_statement :: "faults \<Rightarrow> unit statement \<Rightarrow> Store \<Rightarrow> store_error option \<times> Store" where
  "run_statement faults stmt s =
     (case exec faults stmt (open_conn s) of
        Inl e \<Rightarrow> (Some e, s)
      | Inr (_, c) \<Rightarrow> (None, s\<lparr>st_db := c_tables c\<rparr>))"

definition DeleteAllEvents :: "faults \<Rightarrow> Store \<Rightarrow> store_error option \<times> Store" where
  "DeleteAllEvents faults s =
     (case
        bind_err (exec faults no_rows (open_conn s)) (\<lambda>(_, c).
        bind_err (exec faults delete_identifiers c) (\<lambda>(_, c1).
        bind_err (exec faults delete_metadata c1) (\<lambda>(_, c2).
        bind_err (exec faults delete_events c2) (\<lambda>(_, c3).
        exec faults no_rows c3)))) of
        Inl e \<Rightarrow> (Some e, s)
      | Inr (_, c) \<Rightarrow> (None, s\<lparr>st_db := c_tables c\<rparr>))"

definition DeleteProjectionsByType :: "faults \<Rightarrow> Store \<Rightarrow> string \<Rightarrow> store_error option \<times> Store" where
  "DeleteProjectionsByType faults s typ = run_statement faults (delete_projections_of typ) s"

definition DeleteAllProjections :: "faults \<Rightarrow> Store \<Rightarrow> store_error option \<times> Store" where
  "DeleteAllProjections faults s = run_statement faults delete_projections s"

section \<open>The pause\<close>

definition PausedAt :: "Store \<Rightarrow> gotime \<times> bool" where
  "PausedAt s = (st_pausedAt s, \<not> IsZero (st_pausedAt s))"

definition SetPause :: "faults \<Rightarrow> Store \<Rightarrow> gotime \<Rightarrow> (store_error + int) \<times> Store" where
  "SetPause faults s at =
     (case run_statement faults (update_paused_at (Some (format_time at))) s of
        (Some e, s') \<Rightarrow> (Inl e, s')
      | (None, s') \<Rightarrow> (Inr (LastSequence s'), s'\<lparr>st_pausedAt := at\<rparr>))"

definition ClearPause :: "faults \<Rightarrow> Store \<Rightarrow> store_error option \<times> Store" where
  "ClearPause faults s =
     (case run_statement faults (update_paused_at None) s of
        (Some e, s') \<Rightarrow> (Some e, s')
      | (None, s') \<Rightarrow> (None, s'\<lparr>st_pausedAt := 0\<rparr>))"

section \<open>Reads\<close>

record ReadEvent =
  re_sequence :: int
  re_time :: string
  re_type :: string
  re_identifiers :: string
  re_metadata :: string
  re_payload :: string

definition scanEvent :: "event_row \<Rightarrow> ReadEvent" where
  "scanEvent r =
     \<lparr>re_sequence = er_sequence r, re_time = er_time r, re_type = er_type r,
      re_identifiers = er_identifiers r, re_metadata = er_metadata r, re_payload = er_payload r\<rparr>"

record Page =
  pg_events :: "ReadEvent list"
  pg_has_more :: bool

record Decision =
  dn_events :: "ReadEvent list"
  dn_position :: int

text \<open>\<open>queryEvents\<close>: the rows of a SELECT, each one scanned.\<close>

definition queryEvents :: "faults \<Rightarrow> select \<Rightarrow> conn \<Rightarrow> store_error + ReadEvent list \<times> conn" where
  "queryEvents faults sel c = exec faults (\<lambda>db. Inr (map scanEvent (run_select db sel), db)) c"

definition Read :: "faults \<Rightarrow> Store \<Rightarrow> ReadFilter \<Rightarrow> store_error + Page" where
  "Read faults s f =
     (if rf_limit f < 1 then Inl (BadLimit (rf_limit f))
      else
        bind_err (exec faults no_rows (open_conn s)) (\<lambda>(_, c).
        bind_err (queryEvents faults (read_select f) c) (\<lambda>(events, _).
        if int (length events) > rf_limit f
        then Inr \<lparr>pg_events = take (nat (rf_limit f)) events, pg_has_more = True\<rparr>
        else Inr \<lparr>pg_events = events, pg_has_more = False\<rparr>)))"

definition ReadDecision :: "faults \<Rightarrow> Store \<Rightarrow> DecisionFilter \<Rightarrow> store_error + Decision" where
  "ReadDecision faults s f =
     bind_err (exec faults no_rows (open_conn s)) (\<lambda>(_, c).
     bind_err (exec faults (\<lambda>db. Inr (max_sequence db, db)) c) (\<lambda>(position, c1).
     if q_form (df_query f) = formNone then Inr \<lparr>dn_events = [], dn_position = position\<rparr>
     else
       bind_err
         (queryEvents faults
           (events_select (df_query f) 0 (df_backwards f) (if df_limit f > 0 then Some (df_limit f) else None)) c1)
         (\<lambda>(events, _). Inr \<lparr>dn_events = events, dn_position = position\<rparr>)))"

definition GetProjection :: "faults \<Rightarrow> Store \<Rightarrow> string \<Rightarrow> string \<Rightarrow> store_error + ProjectionRead" where
  "GetProjection faults s typ ident =
     bind_err (exec faults (\<lambda>db. Inr (t_projections db (typ, ident), db)) (open_conn s)) (\<lambda>(row, _).
     case row of
       None \<Rightarrow> Inr \<lparr>pr_found = False, pr_version = [], pr_payload = []\<rparr>
     | Some (version, payload) \<Rightarrow> Inr \<lparr>pr_found = True, pr_version = version, pr_payload = payload\<rparr>)"

definition Ping :: "faults \<Rightarrow> Store \<Rightarrow> store_error option" where
  "Ping faults s = (case exec faults no_rows (open_conn s) of Inl e \<Rightarrow> Some e | Inr _ \<Rightarrow> None)"

text \<open>The planner statistics aren't modelled: \<open>PRAGMA optimize\<close> changes no row.\<close>

definition Store_Optimize :: "faults \<Rightarrow> Store \<Rightarrow> store_error option \<times> Store" where
  "Store_Optimize faults s = run_statement faults no_rows s"

section \<open>A write that fails changes nothing\<close>

lemma exec_no_rows: "exec faults no_rows c = Inr (x, c') \<Longrightarrow> c_tables c' = c_tables c"
  by (auto simp: exec_def no_rows_def split: option.splits)

lemma exec_ok: "faults (c_tick c) = None \<Longrightarrow> stmt (c_tables c) = Inr (x, db) \<Longrightarrow>
    exec faults stmt c = Inr (x, \<lparr>c_tables = db, c_tick = Suc (c_tick c)\<rparr>)"
  by (simp add: exec_def)

lemma exec_Inr: "exec faults stmt c = Inr (x, c') \<Longrightarrow> stmt (c_tables c) = Inr (x, c_tables c')"
  by (auto simp: exec_def split: option.splits sum.splits)

lemma Store_eq: "s\<lparr>st_nextSeq := st_nextSeq s\<rparr> = s" for s :: Store
  by simp

lemma Append_failed:
  assumes "Append faults uuids s events conditions projections = (Inl e, s')"
  shows "s' = s"
  using assms
  by (auto simp: Append_def reserveSequences_def releaseSequences_def Let_def
      split: option.splits if_splits sum.splits)

lemma Import_failed:
  assumes "Import faults s events = (Some e, s')"
  shows "s' = s"
  using assms by (auto simp: Import_def Let_def split: if_splits sum.splits)

lemma run_statement_failed: "run_statement faults stmt s = (Some e, s') \<Longrightarrow> s' = s"
  by (auto simp: run_statement_def split: sum.splits)

lemma DeleteAllEvents_failed: "DeleteAllEvents faults s = (Some e, s') \<Longrightarrow> s' = s"
  by (auto simp: DeleteAllEvents_def split: sum.splits)

lemma SetPause_failed: "SetPause faults s at = (Inl e, s') \<Longrightarrow> s' = s"
  by (auto simp: SetPause_def dest: run_statement_failed split: prod.splits option.splits)

lemma ClearPause_failed: "ClearPause faults s = (Some e, s') \<Longrightarrow> s' = s"
  by (auto simp: ClearPause_def dest: run_statement_failed split: prod.splits option.splits)

end
