(* ===== verification/Eventlog.thy ===== *)
theory Eventlog
  imports Store
begin

text \<open>
  What the store promises, and that it keeps it. The abstract store is a log of events in the
  order of their Sequence Positions, the next position, and a map of projections. \<open>store_rep\<close>
  relates a store to it, \<open>spec_append\<close> is the promise of \<open>Append\<close>, and
  the refinement in Storelog says that \<open>Append\<close> does that, or fails with an error of SQLite and does
  nothing.
\<close>

section \<open>The abstract store\<close>

record spec =
  sp_log :: "Event list"
  sp_next :: int
  sp_projections :: "(string \<times> string) \<rightharpoonup> (string \<times> string)"

definition store_rep :: "Store \<Rightarrow> spec \<Rightarrow> bool" where
  "store_rep s a \<longleftrightarrow>
     db_log (st_db s) (sp_log a) \<and>
     (\<forall>e\<in>set (sp_log a). 0 < ev_sequence e \<and> ev_sequence e < sp_next a) \<and>
     st_nextSeq s = sp_next a \<and> 0 < sp_next a \<and> sp_next a \<le> max_i64 \<and>
     t_projections (st_db s) = sp_projections a"

text \<open>An Append Condition holds when no event after its position matches its query.\<close>

definition condition_holds :: "Event list \<Rightarrow> AppendCondition \<Rightarrow> bool" where
  "condition_holds evs c \<longleftrightarrow> matching evs (FailIfEventsMatch c) (AfterSequence c) = []"

fun first_failing :: "Event list \<Rightarrow> nat \<Rightarrow> AppendCondition list \<Rightarrow> nat option" where
  "first_failing evs i [] = None"
| "first_failing evs i (c # cs) = (if condition_holds evs c then first_failing evs (Suc i) cs else Some i)"

text \<open>
  A conditional write of a projection: the key, what must be stored there, and what is stored
  then.
\<close>

type_synonym row = "(string \<times> string) option"
type_synonym cond_write = "(string \<times> string) \<times> (row \<Rightarrow> bool) \<times> row"

fun run_writes :: "string \<Rightarrow> nat \<Rightarrow> cond_write list \<Rightarrow> ((string \<times> string) \<rightharpoonup> (string \<times> string)) \<Rightarrow>
    store_error + ((string \<times> string) \<rightharpoonup> (string \<times> string))" where
  "run_writes op i [] m = Inr m"
| "run_writes op i ((k, ok, row) # ws) m =
     (if ok (m k) then run_writes op (Suc i) ws (m(k := row)) else Inl (ProjectionConflictError op i))"

definition at_version :: "string \<Rightarrow> row \<Rightarrow> bool" where
  "at_version v row \<longleftrightarrow> (case row of None \<Rightarrow> False | Some (v', _) \<Rightarrow> v' = v)"

definition payload_of :: "string option \<Rightarrow> string" where
  "payload_of p = (case p of None \<Rightarrow> [] | Some x \<Rightarrow> x)"

definition creates :: "(nat \<Rightarrow> string) \<Rightarrow> Writes \<Rightarrow> cond_write list" where
  "creates uuids w =
     map (\<lambda>(i, c). ((c_type c, c_id c), (\<lambda>row. row = None), Some (uuids i, payload_of (c_payload c))))
       (enumerate 0 (elems (w_create w)))"

definition replaces :: "(nat \<Rightarrow> string) \<Rightarrow> Writes \<Rightarrow> cond_write list" where
  "replaces uuids w =
     map (\<lambda>(i, r). ((r_type r, r_id r), at_version (r_version r), Some (uuids i, payload_of (r_payload r))))
       (enumerate (length (elems (w_create w))) (elems (w_replace w)))"

definition deletes :: "Writes \<Rightarrow> cond_write list" where
  "deletes w = map (\<lambda>d. ((d_type d, d_id d), at_version (d_version d), None)) (elems (w_delete w))"

definition spec_writes :: "(nat \<Rightarrow> string) \<Rightarrow> Writes \<Rightarrow> ((string \<times> string) \<rightharpoonup> (string \<times> string)) \<Rightarrow>
    store_error + ((string \<times> string) \<rightharpoonup> (string \<times> string))" where
  "spec_writes uuids w m =
     bind_err (run_writes ''create'' 0 (creates uuids w) m) (\<lambda>m1.
     bind_err (run_writes ''replace'' 0 (replaces uuids w) m1) (\<lambda>m2.
     run_writes ''delete'' 0 (deletes w) m2))"

definition versions_of :: "(nat \<Rightarrow> string) \<Rightarrow> Writes \<Rightarrow> Versions" where
  "versions_of uuids w =
     (let n = length (elems (w_create w)); m = length (elems (w_replace w))
      in \<lparr>v_create = map uuids [0..<n], v_replace = map uuids [n..<n + m]\<rparr>)"

text \<open>The events of a write, at the positions from \<open>next\<close> on.\<close>

definition placed :: "int \<Rightarrow> PendingEvent list \<Rightarrow> Event list" where
  "placed next events =
     map (\<lambda>(i, e). \<lparr>ev_sequence = next + int i, ev_time = pe_time e, ev_data = pe_data e\<rparr>)
       (enumerate 0 events)"

definition spec_append :: "(nat \<Rightarrow> string) \<Rightarrow> spec \<Rightarrow> PendingEvent list \<Rightarrow> AppendCondition list \<Rightarrow>
    Writes \<Rightarrow> (store_error + AppendResult) \<times> spec" where
  "spec_append uuids a events conditions w =
     (case first_failing (sp_log a) 0 conditions of
        Some i \<Rightarrow> (Inl (ConditionConflictError i), a)
      | None \<Rightarrow>
          (case spec_writes uuids w (sp_projections a) of
             Inl e \<Rightarrow> (Inl e, a)
           | Inr m \<Rightarrow>
               (Inr \<lparr>ar_events = placed (sp_next a) events, ar_versions = versions_of uuids w\<rparr>,
                \<lparr>sp_log = sp_log a @ placed (sp_next a) events,
                 sp_next = sp_next a + int (length events), sp_projections = m\<rparr>)))"

text \<open>A result, or an error that SQLite itself gave.\<close>

definition from_fault :: "faults \<Rightarrow> store_error \<Rightarrow> bool" where
  "from_fault faults e \<longleftrightarrow> (\<exists>n x. faults n = Some x \<and> e = Sql x)"

lemma no_fault [simp]: "\<not> from_fault no_faults e"
  by (simp add: from_fault_def)

lemma exec_cases:
  assumes "stmt (c_tables c) = Inr (x, db)"
  obtains e where "exec faults stmt c = Inl e" "from_fault faults e"
    | n where "exec faults stmt c = Inr (x, \<lparr>c_tables = db, c_tick = n\<rparr>)"
  using assms by (cases "faults (c_tick c)") (auto simp: exec_def from_fault_def)

section \<open>Conditions\<close>

lemma LastSequence_rep: "store_rep s a \<Longrightarrow> LastSequence s = sp_next a - 1"
  by (simp add: LastSequence_def store_rep_def i64_id)

lemma event_exists_rep:
  assumes "db_log db evs" "query_wf q"
  shows "event_exists q after db = Inr (matching evs q after \<noteq> [], db)"
proof -
  have "select_where db (query_cond q after) after = [] \<longleftrightarrow> matching evs q after = []"
    using select_where_matching [OF assms, of after] by (metis map_is_Nil_conv mset_zero_iff_right mset.simps(1))
  then show ?thesis by (simp add: event_exists_def)
qed

text \<open>The shortcut answers what the SELECT would.\<close>

lemma resolveWithoutQuery_sound:
  assumes "resolveWithoutQuery q after lastAssigned = (holds, True)" "\<forall>e\<in>set evs. ev_sequence e \<le> lastAssigned"
  shows "holds \<longleftrightarrow> matching evs q after = []"
  using assms by (auto simp: resolveWithoutQuery_def matching_def filter_empty_conv Query_Matches_def split: if_splits)

lemma checkCondition_cases:
  assumes "db_log (c_tables c) evs" "query_wf (FailIfEventsMatch cond)" "\<forall>e\<in>set evs. ev_sequence e \<le> lastAssigned"
  obtains e where "checkCondition faults lastAssigned cond c = Inl e" "from_fault faults e"
    | n where "checkCondition faults lastAssigned cond c =
        Inr (condition_holds evs cond, \<lparr>c_tables = c_tables c, c_tick = n\<rparr>)"
proof (cases "snd (resolveWithoutQuery (FailIfEventsMatch cond) (AfterSequence cond) lastAssigned)")
  case True
  then obtain holds where "resolveWithoutQuery (FailIfEventsMatch cond) (AfterSequence cond) lastAssigned = (holds, True)"
    by (metis prod.collapse)
  with resolveWithoutQuery_sound [OF this assms(3)] that(2) [of "c_tick c"] show ?thesis
    by (simp add: checkCondition_def condition_holds_def)
next
  case False
  then obtain holds where r: "resolveWithoutQuery (FailIfEventsMatch cond) (AfterSequence cond) lastAssigned = (holds, False)"
    by (metis prod.collapse)
  show ?thesis
  proof (cases rule: exec_cases [of "event_exists (FailIfEventsMatch cond) (AfterSequence cond)" c _ _ faults,
        OF event_exists_rep [OF assms(1,2), of "AfterSequence cond"]])
    case (1 e)
    with r that(1) show ?thesis by (simp add: checkCondition_def checkFailIfEventsMatchSQL_def)
  next
    case (2 n)
    with r that(2) show ?thesis
      by (simp add: checkCondition_def checkFailIfEventsMatchSQL_def condition_holds_def)
  qed
qed

lemma check_conditions_cases:
  assumes "db_log (c_tables c) evs" "\<forall>cond\<in>set conds. query_wf (FailIfEventsMatch cond)"
    and "\<forall>e\<in>set evs. ev_sequence e \<le> lastAssigned"
  shows "case check_conditions faults lastAssigned i conds c of
      Inl e \<Rightarrow> from_fault faults e \<or> (\<exists>j. e = ConditionConflictError j \<and> first_failing evs i conds = Some j)
    | Inr c' \<Rightarrow> c_tables c' = c_tables c \<and> first_failing evs i conds = None"
  using assms
proof (induction conds arbitrary: i c)
  case (Cons cond conds)
  then have wf: "query_wf (FailIfEventsMatch cond)" by simp
  show ?case
  proof (cases rule: checkCondition_cases [OF Cons.prems(1) wf Cons.prems(3), of faults])
    case (2 n)
    with Cons.IH [of "\<lparr>c_tables = c_tables c, c_tick = n\<rparr>" "Suc i"] Cons.prems show ?thesis
      by (auto split: sum.splits)
  qed simp
qed simp

section \<open>Projections\<close>

definition write_statement :: "cond_write \<Rightarrow> nat statement" where
  "write_statement w db =
     (case w of (k, ok, row) \<Rightarrow>
        if ok (t_projections db k) then Inr (1, db\<lparr>t_projections := (t_projections db)(k := row)\<rparr>)
        else Inr (0, db))"

lemma projection_statements:
  "create_projection k v p = write_statement (k, (\<lambda>row. row = None), Some (v, p))"
  "replace_projection k old v p = write_statement (k, at_version old, Some (v, p))"
  "delete_projection k old = write_statement (k, at_version old, None)"
  by (auto simp: fun_eq_iff create_projection_def replace_projection_def delete_projection_def
      write_statement_def at_version_def split: option.splits)

definition set_projections where
  "set_projections m db = db\<lparr>t_projections := m\<rparr>"

lemma write_statement_set:
  "write_statement (k, ok, row) db =
     Inr (if ok (t_projections db k) then (1, set_projections ((t_projections db)(k := row)) db) else (0, db))"
  by (simp add: write_statement_def set_projections_def)

lemma set_projections_twice [simp]: "set_projections m (set_projections m' db) = set_projections m db"
  by (simp add: set_projections_def)

lemma set_projections_get [simp]: "t_projections (set_projections m db) = m"
  by (simp add: set_projections_def)

lemma set_projections_same [simp]: "set_projections (t_projections db) db = db"
  by (simp add: set_projections_def)

lemma exec_loop_cases:
  "case exec_loop faults op i (map (\<lambda>w. Some (write_statement w)) ws) c of
      Inl e \<Rightarrow> from_fault faults e \<or> run_writes op i ws (t_projections (c_tables c)) = Inl e
    | Inr c' \<Rightarrow> \<exists>m. run_writes op i ws (t_projections (c_tables c)) = Inr m \<and>
        c_tables c' = set_projections m (c_tables c)"
proof (induction ws arbitrary: i c)
  case Nil
  then show ?case by simp
next
  case (Cons w ws)
  obtain k ok row where w: "w = (k, ok, row)" by (metis prod_cases3)
  show ?case
  proof (cases "faults (c_tick c)")
    case (Some e)
    then show ?thesis by (auto simp: exec_def checkWritten_def from_fault_def)
  next
    case None
    then show ?thesis
      using Cons.IH [of "Suc i" "\<lparr>c_tables = set_projections ((t_projections (c_tables c))(k := row)) (c_tables c), c_tick = Suc (c_tick c)\<rparr>"]
      by (auto simp: w exec_def checkWritten_def write_statement_set simp del: fun_upd_apply split: sum.splits)
  qed
qed

lemma execEach_cases:
  "case execEach faults op (map (\<lambda>w. Some (write_statement w)) ws) c of
      Inl e \<Rightarrow> from_fault faults e \<or> run_writes op 0 ws (t_projections (c_tables c)) = Inl e
    | Inr c' \<Rightarrow> \<exists>m. run_writes op 0 ws (t_projections (c_tables c)) = Inr m \<and>
        c_tables c' = set_projections m (c_tables c)"
proof (cases "ws = []")
  case True
  then show ?thesis by (simp add: execEach_def)
next
  case False
  show ?thesis
  proof (cases rule: exec_cases [of no_rows c _ _ faults, OF no_rows_def])
    case (2 n)
    with exec_loop_cases [of faults op 0 ws "\<lparr>c_tables = c_tables c, c_tick = n\<rparr>"] False show ?thesis
      by (auto simp: execEach_def split: sum.splits)
  qed (simp add: execEach_def False)
qed

definition writes_wf :: "Writes \<Rightarrow> bool" where
  "writes_wf w \<longleftrightarrow>
     list_all (\<lambda>c. c_payload c \<noteq> None) (elems (w_create w)) \<and>
     list_all (\<lambda>r. r_payload r \<noteq> None) (elems (w_replace w))"

lemma statements_writes:
  assumes "writes_wf w"
  shows "create_statements uuids w = map (\<lambda>w. Some (write_statement w)) (creates uuids w)"
    and "replace_statements uuids w = map (\<lambda>w. Some (write_statement w)) (replaces uuids w)"
    and "delete_statements w = map (\<lambda>w. Some (write_statement w)) (deletes w)"
  using assms
  by (auto simp: writes_wf_def create_statements_def creates_def replace_statements_def replaces_def
      delete_statements_def deletes_def projection_statements payload_of_def list_all_iff
      dest!: in_set_enumerate_eq [THEN iffD1] bspec [OF _ nth_mem] split: option.splits)

lemma writeProjections_cases:
  assumes "writes_wf w"
  shows "case writeProjections faults uuids w c of
      Inl e \<Rightarrow> from_fault faults e \<or> spec_writes uuids w (t_projections (c_tables c)) = Inl e
    | Inr (v, c') \<Rightarrow> v = versions_of uuids w \<and>
        (\<exists>m. spec_writes uuids w (t_projections (c_tables c)) = Inr m \<and> c_tables c' = set_projections m (c_tables c))"
proof (cases "execEach faults ''create'' (create_statements uuids w) c")
  case (Inl e)
  with execEach_cases [of faults "''create''" "creates uuids w" c] show ?thesis
    by (auto simp: statements_writes(1) [OF assms] writeProjections_def spec_writes_def Let_def)
next
  case (Inr c1)
  with execEach_cases [of faults "''create''" "creates uuids w" c] obtain m1 where
    m1: "run_writes ''create'' 0 (creates uuids w) (t_projections (c_tables c)) = Inr m1"
      "c_tables c1 = set_projections m1 (c_tables c)"
    by (auto simp: statements_writes(1) [OF assms])
  show ?thesis
  proof (cases "execEach faults ''replace'' (replace_statements uuids w) c1")
    case (Inl e)
    with Inr m1 execEach_cases [of faults "''replace''" "replaces uuids w" c1] show ?thesis
      by (auto simp: statements_writes(2) [OF assms] writeProjections_def spec_writes_def Let_def)
  next
    case (Inr c2)
    with execEach_cases [of faults "''replace''" "replaces uuids w" c1] m1 obtain m2 where
      m2: "run_writes ''replace'' 0 (replaces uuids w) m1 = Inr m2" "c_tables c2 = set_projections m2 (c_tables c)"
      by (auto simp: statements_writes(2) [OF assms])
    from execEach_cases [of faults "''delete''" "deletes w" c2] \<open>execEach _ ''create'' _ c = _\<close> Inr m1 m2 show ?thesis
      by (auto simp: statements_writes(3) [OF assms] writeProjections_def spec_writes_def versions_of_def Let_def
          split: sum.splits)
  qed
qed

section \<open>Inserts\<close>

lemma batch_loop_events:
  assumes "distinct (map er_sequence (t_events (c_tables c) @ concat cs))"
  shows "case batch_loop faults insert_events cs c of
      Inl e \<Rightarrow> from_fault faults e
    | Inr c' \<Rightarrow> c_tables c' = (c_tables c)\<lparr>t_events := t_events (c_tables c) @ concat cs\<rparr>"
  using assms
proof (induction cs arbitrary: c)
  case (Cons chunk cs)
  let ?db = "(c_tables c)\<lparr>t_events := t_events (c_tables c) @ chunk\<rparr>"
  have ok: "insert_events chunk (c_tables c) = Inr ((), ?db)"
    using Cons.prems by (auto simp: insert_events_def)
  show ?case
  proof (cases rule: exec_cases [of "insert_events chunk" c _ _ faults, OF ok])
    case (2 n)
    with Cons.IH [of "\<lparr>c_tables = ?db, c_tick = n\<rparr>"] Cons.prems show ?thesis
      by (auto split: sum.splits)
  qed simp
qed simp

lemma batch_loop_tags:
  assumes stmt: "\<And>rows db. stmt rows db =
      (if \<not> distinct (get db @ rows) then Inl (Sqlite constraint_primary_key)
       else if \<not> list_all (references_event db) rows then Inl (Sqlite constraint_foreign_key)
       else Inr ((), put db (get db @ rows)))"
    and put: "\<And>db rows. get (put db rows) = rows" "\<And>db x y. put (put db x) y = put db y"
      "\<And>db. put db (get db) = db" "\<And>db rows. references_event (put db rows) = references_event db"
    and "distinct (get (c_tables c) @ concat cs)" "list_all (references_event (c_tables c)) (concat cs)"
  shows "case batch_loop faults stmt cs c of
      Inl e \<Rightarrow> from_fault faults e
    | Inr c' \<Rightarrow> c_tables c' = put (c_tables c) (get (c_tables c) @ concat cs)"
  using assms(6,7)
proof (induction cs arbitrary: c)
  case Nil
  then show ?case by (simp add: put)
next
  case (Cons chunk cs)
  let ?db = "put (c_tables c) (get (c_tables c) @ chunk)"
  have ok: "stmt chunk (c_tables c) = Inr ((), ?db)"
    using Cons.prems by (auto simp: stmt)
  show ?case
  proof (cases rule: exec_cases [of "stmt chunk" c _ _ faults, OF ok])
    case (2 n)
    with Cons.IH [of "\<lparr>c_tables = ?db, c_tick = n\<rparr>"] Cons.prems show ?thesis
      by (auto simp: put split: sum.splits)
  qed simp
qed

lemmas batch_loop_identifiers =
  batch_loop_tags [of insert_identifiers t_identifiers "\<lambda>db rows. db\<lparr>t_identifiers := rows\<rparr>",
    OF insert_identifiers_def]

lemmas batch_loop_metadata =
  batch_loop_tags [of insert_metadata t_metadata "\<lambda>db rows. db\<lparr>t_metadata := rows\<rparr>",
    OF insert_metadata_def]

lemma references_event_put [simp]:
  "references_event (db\<lparr>t_identifiers := rows\<rparr>) = references_event db"
  "references_event (db\<lparr>t_metadata := rows\<rparr>) = references_event db"
  by (simp_all add: references_event_def fun_eq_iff)

text \<open>The events a store can take: their positions are new, and no event repeats a tag.\<close>

definition insertable :: "Event list \<Rightarrow> Event list \<Rightarrow> bool" where
  "insertable old new \<longleftrightarrow>
     distinct (map ev_sequence (old @ new)) \<and>
     list_all (\<lambda>e. distinct (ed_identifiers (ev_data e)) \<and> distinct (ed_metadata (ev_data e))) new"

lemma distinct_tag_rows:
  assumes "distinct (map ev_sequence evs)" "\<And>e. e \<in> set evs \<Longrightarrow> distinct (tags e)" "inj pair"
  shows "distinct (concat (map (\<lambda>e. map (\<lambda>i. (ev_sequence e, pair i)) (tags e)) evs))"
  using assms(1,2)
proof (induction evs)
  case (Cons e evs)
  have "distinct (map (\<lambda>i. (ev_sequence e, pair i)) (tags e))"
    using Cons.prems(2) [of e] assms(3) by (auto simp: distinct_map inj_on_def dest: injD)
  with Cons show ?case by (auto simp: image_iff)
qed simp

lemma identifier_rows_pair:
  "identifier_rows evs = concat (map (\<lambda>e. map (\<lambda>i. (ev_sequence e, id_pair i)) (ed_identifiers (ev_data e))) evs)"
  by (simp add: identifier_rows_def id_pair_def)

lemma metadata_rows_pair:
  "metadata_rows evs = concat (map (\<lambda>e. map (\<lambda>m. (ev_sequence e, md_pair m)) (ed_metadata (ev_data e))) evs)"
  by (simp add: metadata_rows_def md_pair_def)

lemma tag_rows_events:
  "row \<in> set (identifier_rows evs) \<Longrightarrow> fst row \<in> ev_sequence ` set evs"
  "row \<in> set (metadata_rows evs) \<Longrightarrow> fst row \<in> ev_sequence ` set evs"
  by (auto simp: identifier_rows_def metadata_rows_def)

lemma insertable_rows:
  assumes "db_log db old" "insertable old new"
  shows "distinct (map er_sequence (t_events db @ map row_of new))"
    "distinct (t_identifiers db @ identifier_rows new)" "distinct (t_metadata db @ metadata_rows new)"
proof -
  have disj: "ev_sequence ` set old \<inter> ev_sequence ` set new = {}" and new: "distinct (map ev_sequence new)"
    using assms(2) by (auto simp: insertable_def)
  have "mset (map er_sequence (t_events db)) = mset (map ev_sequence old)"
    using assms(1) by (metis (no_types) db_log_def map_map mset_map row_of_sequence_comp)
  then have "distinct (map er_sequence (t_events db))"
    using db_log_distinct [OF assms(1)] mset_eq_imp_distinct_iff by blast
  then show "distinct (map er_sequence (t_events db @ map row_of new))"
    using new disj db_log_sequences [OF assms(1)] by (simp add: comp_def image_image)
  have "distinct (identifier_rows new)"
    unfolding identifier_rows_pair
    by (rule distinct_tag_rows [OF new _ inj_id_pair]) (use assms(2) in \<open>auto simp: insertable_def list_all_iff\<close>)
  then show "distinct (t_identifiers db @ identifier_rows new)"
    using assms(1) disj tag_rows_events(1) [of _ old] tag_rows_events(1) [of _ new]
    by (fastforce simp: db_log_def)
  have "distinct (metadata_rows new)"
    unfolding metadata_rows_pair
    by (rule distinct_tag_rows [OF new _ inj_md_pair]) (use assms(2) in \<open>auto simp: insertable_def list_all_iff\<close>)
  then show "distinct (t_metadata db @ metadata_rows new)"
    using assms(1) disj tag_rows_events(2) [of _ old] tag_rows_events(2) [of _ new]
    by (fastforce simp: db_log_def)
qed

definition with_events :: "tables \<Rightarrow> Event list \<Rightarrow> tables" where
  "with_events db new =
     db\<lparr>t_events := t_events db @ map row_of new, t_identifiers := t_identifiers db @ identifier_rows new,
        t_metadata := t_metadata db @ metadata_rows new\<rparr>"

lemma db_log_with_events:
  assumes "db_log db old" "insertable old new"
  shows "db_log (with_events db new) (sort_key ev_sequence (old @ new))"
proof -
  let ?all = "sort_key ev_sequence (old @ new)"
  have "sorted (map ev_sequence ?all)" by simp
  moreover have "distinct (map ev_sequence ?all)"
    using assms(2) mset_eq_imp_distinct_iff [of "map ev_sequence ?all" "map ev_sequence (old @ new)"]
    by (simp add: insertable_def)
  moreover have "set (identifier_rows ?all) = set (identifier_rows (old @ new))"
    "set (metadata_rows ?all) = set (metadata_rows (old @ new))"
    by (simp_all only: identifier_rows_def metadata_rows_def set_concat set_map set_sort)
  moreover have "mset (map row_of ?all) = mset (map row_of (old @ new))"
    by (simp only: mset_map mset_sort)
  ultimately show ?thesis
    using assms(1) insertable_rows [OF assms]
    by (simp add: db_log_def with_events_def strict_sorted_iff)
qed

lemma batches_rows: "0 < k \<Longrightarrow> k \<le> 6 \<Longrightarrow> concat (batches k rows) = rows"
  by (rule batches_concat) auto

lemma execBatchInsert_loop:
  "0 < k \<Longrightarrow> k \<le> 6 \<Longrightarrow> execBatchInsert faults stmt k rows c = batch_loop faults stmt (batches k rows) c"
  by (simp add: execBatchInsert_def batches_def chunks.simps)

lemma insert_batches_cases:
  assumes "db_log (c_tables c) old" "insertable old new"
  shows "case insert_batches faults new c of
      Inl e \<Rightarrow> from_fault faults e
    | Inr c' \<Rightarrow> c_tables c' = with_events (c_tables c) new"
proof -
  note d = insertable_rows [OF assms]
  have ref: "references_event (db\<lparr>t_events := t_events db @ map row_of new\<rparr>) row"
    if "fst row \<in> ev_sequence ` set new" for db row
    using that by (auto simp: references_event_def image_image)
  have refs: "list_all (references_event ((c_tables c)\<lparr>t_events := t_events (c_tables c) @ map row_of new\<rparr>)) (identifier_rows new)"
    "list_all (references_event ((c_tables c)\<lparr>t_events := t_events (c_tables c) @ map row_of new\<rparr>)) (metadata_rows new)"
    unfolding list_all_iff using ref tag_rows_events by blast+
  have 1: "case insertEventsBatch faults new c of
      Inl e \<Rightarrow> from_fault faults e
    | Inr c' \<Rightarrow> c_tables c' = (c_tables c)\<lparr>t_events := t_events (c_tables c) @ map row_of new\<rparr>"
    using batch_loop_events [of c "batches 6 (map row_of new)" faults] d(1)
    by (auto simp: insertEventsBatch_def execBatchInsert_loop batches_rows split: sum.splits)
  have 2: "case insertIdentifiersBatch faults new c1 of
      Inl e \<Rightarrow> from_fault faults e
    | Inr c' \<Rightarrow> c_tables c' = (c_tables c1)\<lparr>t_identifiers := t_identifiers (c_tables c1) @ identifier_rows new\<rparr>"
    if "c_tables c1 = (c_tables c)\<lparr>t_events := t_events (c_tables c) @ map row_of new\<rparr>" for c1
    using batch_loop_identifiers [of c1 "batches 3 (identifier_rows new)" faults] d(2) that refs(1)
    by (auto simp: insertIdentifiersBatch_def execBatchInsert_loop batches_rows split: sum.splits)
  have 3: "case insertMetadataBatch faults new c2 of
      Inl e \<Rightarrow> from_fault faults e
    | Inr c' \<Rightarrow> c_tables c' = (c_tables c2)\<lparr>t_metadata := t_metadata (c_tables c2) @ metadata_rows new\<rparr>"
    if "c_tables c2 = (c_tables c)\<lparr>t_events := t_events (c_tables c) @ map row_of new,
          t_identifiers := t_identifiers (c_tables c) @ identifier_rows new\<rparr>" for c2
    using batch_loop_metadata [of c2 "batches 3 (metadata_rows new)" faults] d(3) that refs(2)
    by (auto simp: insertMetadataBatch_def execBatchInsert_loop batches_rows split: sum.splits)
  show ?thesis
  proof (cases "insertEventsBatch faults new c")
    case (Inl e)
    with 1 show ?thesis by (simp add: insert_batches_def)
  next
    case (Inr c1)
    with 1 have t1: "c_tables c1 = (c_tables c)\<lparr>t_events := t_events (c_tables c) @ map row_of new\<rparr>" by simp
    show ?thesis
    proof (cases "insertIdentifiersBatch faults new c1")
      case (Inl e)
      with 2 [OF t1] Inr show ?thesis by (simp add: insert_batches_def)
    next
      case (Inr c2)
      with 2 [OF t1] t1 have t2: "c_tables c2 = (c_tables c)\<lparr>t_events := t_events (c_tables c) @ map row_of new,
          t_identifiers := t_identifiers (c_tables c) @ identifier_rows new\<rparr>" by simp
      from 3 [OF this] t2 Inr \<open>insertEventsBatch faults new c = Inr c1\<close> show ?thesis
        by (auto simp: insert_batches_def with_events_def split: sum.splits)
    qed
  qed
qed

section \<open>Properties\<close>

text \<open>C34. Answering a condition without a query is sound: when the counter decides a condition, the
  answer is what evaluating the condition on the log would give.\<close>

theorem resolve_sound:
  fixes evs :: "Event list"
  assumes "resolveWithoutQuery q after lastAssigned = (holds, True)" "\<forall>e\<in>set evs. ev_sequence e \<le> lastAssigned"
  shows "holds \<longleftrightarrow> \<not> list_ex (\<lambda>e. after < ev_sequence e \<and> Query_Matches q (ev_data e)) evs"
  using resolveWithoutQuery_sound [OF assms] by (simp add: matching_def filter_empty_conv list_ex_iff)

theorem resolve_sound_witness:
  "resolveWithoutQuery QueryAll 7 7 = (True, True) \<and>
   \<not> list_ex (\<lambda>e. 7 < ev_sequence e \<and> Query_Matches QueryAll (ev_data e))
      [\<lparr>ev_sequence = 7, ev_time = 1, ev_data = \<lparr>ed_type = ''A'', ed_identifiers = [], ed_metadata = [], ed_payload = []\<rparr>\<rparr>]"
proof -
  have "resolveWithoutQuery QueryAll 7 7 = (True, True)" by (simp add: resolveWithoutQuery_def QueryAll_def)
  with resolve_sound [OF this] show ?thesis by simp
qed

end
