(* ===== verification/Storelog.thy ===== *)
theory Storelog
  imports Eventlog
begin

text \<open>
  The store refines its abstract log: appends, imports, deletions and reads, each against what it
  promises. The contract the transactions rely on is the locale \<open>event_store\<close>.
\<close>

section \<open>Append\<close>

lemma map_enumerate: "map (\<lambda>x. f (snd x)) (enumerate n xs) = map f xs"
  "map (\<lambda>x. g (fst x)) (enumerate n xs) = map g [n..<n + length xs]"
proof -
  have "map f (map snd (enumerate n xs)) = map f xs" by (simp only: map_snd_enumerate)
  then show "map (\<lambda>x. f (snd x)) (enumerate n xs) = map f xs" by (simp only: map_map comp_def)
  have "map g (map fst (enumerate n xs)) = map g [n..<n + length xs]" by (simp only: map_fst_enumerate)
  then show "map (\<lambda>x. g (fst x)) (enumerate n xs) = map g [n..<n + length xs]" by (simp only: map_map comp_def)
qed

lemma placed_Nil [simp]: "placed n [] = []"
  by (simp add: placed_def)

lemma length_placed [simp]: "length (placed n events) = length events"
  by (simp add: placed_def)

lemma placed_sequences: "map ev_sequence (placed n events) = map (\<lambda>i. n + int i) [0..<length events]"
  using map_enumerate(2) [of "\<lambda>i. n + int i" 0 events] by (simp add: placed_def comp_def case_prod_unfold)

lemma placed_in: "e \<in> set (placed n events) \<Longrightarrow> n \<le> ev_sequence e \<and> ev_sequence e < n + int (length events)"
  by (auto simp: placed_def in_set_enumerate_eq)

lemma placed_data: "map ev_data (placed n events) = map pe_data events"
  by (simp add: placed_def comp_def case_prod_unfold map_enumerate)

lemma placed_time: "map ev_time (placed n events) = map pe_time events"
  by (simp add: placed_def comp_def case_prod_unfold map_enumerate)

lemma sequenced_placed:
  assumes "0 < n" "n + int (length events) \<le> max_i64"
  shows "sequenced n events = placed n events"
  using assms by (auto simp: sequenced_def placed_def in_set_enumerate_eq i64_id)

lemma sorted_placed: "sorted_wrt (<) (map ev_sequence (placed n events))"
  by (simp add: placed_sequences sorted_wrt_map)

lemma sorted_log_placed:
  assumes "sorted_wrt (<) (map ev_sequence evs)" "\<forall>e\<in>set evs. ev_sequence e < n"
  shows "sorted_wrt (<) (map ev_sequence (evs @ placed n events))"
  using assms sorted_placed [of n events] placed_in [of _ n events]
  by (fastforce simp: sorted_wrt_append)

lemma sort_log_placed:
  assumes "sorted_wrt (<) (map ev_sequence evs)" "\<forall>e\<in>set evs. ev_sequence e < n"
  shows "sort_key ev_sequence (evs @ placed n events) = evs @ placed n events"
  by (rule sort_key_unique [OF refl sorted_log_placed [OF assms]])

definition tags_distinct :: "EventData \<Rightarrow> bool" where
  "tags_distinct e \<longleftrightarrow> distinct (ed_identifiers e) \<and> distinct (ed_metadata e)"

lemma event_ok_tags: "event_ok e \<Longrightarrow> tags_distinct e"
  by (simp add: event_ok_def tags_distinct_def)

lemma insertable_placed:
  assumes "sorted_wrt (<) (map ev_sequence evs)" "\<forall>e\<in>set evs. ev_sequence e < n"
    and "\<forall>e\<in>set events. tags_distinct (pe_data e)"
  shows "insertable evs (placed n events)"
proof -
  have "set (map ev_data (placed n events)) = set (map pe_data events)" by (simp only: placed_data)
  then have "\<forall>e\<in>set (placed n events). tags_distinct (ev_data e)"
    using assms(3) by (metis imageE image_eqI list.set_map)
  moreover have "distinct (map ev_sequence (evs @ placed n events))"
    using sorted_log_placed [OF assms(1,2)] strict_sorted_iff by blast
  ultimately show ?thesis by (simp add: insertable_def tags_distinct_def list_all_iff)
qed

text \<open>What a caller of \<open>Append\<close> has validated.\<close>

definition append_wf :: "spec \<Rightarrow> PendingEvent list \<Rightarrow> AppendCondition list \<Rightarrow> Writes \<Rightarrow> bool" where
  "append_wf a events conditions w \<longleftrightarrow>
     (\<forall>e\<in>set events. pe_time e \<noteq> 0 \<and> tags_distinct (pe_data e)) \<and>
     (\<forall>c\<in>set conditions. query_wf (FailIfEventsMatch c)) \<and> writes_wf w \<and>
     sp_next a + int (length events) \<le> max_i64"

lemma no_time_None: "\<forall>e\<in>set events. pe_time e \<noteq> 0 \<Longrightarrow> no_time i events = None"
  by (induction events arbitrary: i) (auto simp: IsZero_def)

lemma append_checks_cases:
  assumes rep: "store_rep s a" and wf: "append_wf a events conditions w"
  shows "case append_checks faults uuids s conditions w of
      Inl e \<Rightarrow> from_fault faults e \<or> spec_append uuids a events conditions w = (Inl e, a)
    | Inr (v, c) \<Rightarrow> first_failing (sp_log a) 0 conditions = None \<and> v = versions_of uuids w \<and>
        (\<exists>m. spec_writes uuids w (sp_projections a) = Inr m \<and> c_tables c = set_projections m (st_db s))"
proof (cases rule: exec_cases [of no_rows "open_conn s" _ _ faults, OF no_rows_def])
  case (2 n)
  let ?c = "\<lparr>c_tables = st_db s, c_tick = n\<rparr>"
  have db: "db_log (st_db s) (sp_log a)" "t_projections (st_db s) = sp_projections a"
    "\<forall>e\<in>set (sp_log a). ev_sequence e \<le> LastSequence s"
    using rep by (auto simp: store_rep_def LastSequence_rep [OF rep])
  have conds: "case check_conditions faults (LastSequence s) 0 conditions ?c of
      Inl e \<Rightarrow> from_fault faults e \<or>
        (\<exists>j. e = ConditionConflictError j \<and> first_failing (sp_log a) 0 conditions = Some j)
    | Inr c' \<Rightarrow> c_tables c' = st_db s \<and> first_failing (sp_log a) 0 conditions = None"
    using check_conditions_cases [of ?c "sp_log a" conditions "LastSequence s" faults 0] db wf
    by (auto simp: append_wf_def split: sum.splits)
  show ?thesis
  proof (cases "check_conditions faults (LastSequence s) 0 conditions ?c")
    case (Inl e)
    with conds 2 show ?thesis by (auto simp: append_checks_def spec_append_def open_conn_def)
  next
    case (Inr c1)
    with conds have c1: "c_tables c1 = st_db s" "first_failing (sp_log a) 0 conditions = None" by simp_all
    have "writes_wf w" using wf by (simp add: append_wf_def)
    from writeProjections_cases [OF this, of faults uuids c1] 2 Inr c1 db(2) show ?thesis
      by (auto simp: append_checks_def spec_append_def open_conn_def split: sum.splits)
  qed
qed (simp add: append_checks_def)

lemma append_inserts_cases:
  assumes "db_log (c_tables c) evs" "\<forall>e\<in>set evs. ev_sequence e < n" "0 < n"
    and "n + int (length events) \<le> max_i64" "\<forall>e\<in>set events. tags_distinct (pe_data e)"
  shows "case append_inserts faults events n c of
      Inl e \<Rightarrow> from_fault faults e
    | Inr (appended, db) \<Rightarrow> appended = placed n events \<and> db = with_events (c_tables c) (placed n events)"
proof -
  have sorted: "sorted_wrt (<) (map ev_sequence evs)" using assms(1) by (simp add: db_log_def)
  note seq = sequenced_placed [OF assms(3,4)]
  have ins: "case insertEvents faults events n c of
      Inl e \<Rightarrow> from_fault faults e
    | Inr (appended, c') \<Rightarrow> appended = placed n events \<and> c_tables c' = with_events (c_tables c) (placed n events)"
    using insert_batches_cases [OF assms(1) insertable_placed [OF sorted assms(2,5)], of faults]
    by (auto simp: insertEvents_def seq with_events_def split: sum.splits)
  show ?thesis
  proof (cases "insertEvents faults events n c")
    case (Inl e)
    with ins show ?thesis by (simp add: append_inserts_def)
  next
    case (Inr r)
    then obtain appended c' where r: "insertEvents faults events n c = Inr (appended, c')" by (cases r) simp
    with ins show ?thesis
      by (cases rule: exec_cases [of no_rows c' _ _ faults, OF no_rows_def]) (auto simp: append_inserts_def)
  qed
qed

lemma spec_append_rep:
  assumes rep: "store_rep s a" and wf: "append_wf a events conditions w"
    and spec: "spec_append uuids a events conditions w = (Inr r, a')"
    and m: "spec_writes uuids w (sp_projections a) = Inr m"
    and db: "db = with_events (set_projections m (st_db s)) (placed (sp_next a) events)"
  shows "store_rep (s\<lparr>st_nextSeq := sp_next a + int (length events), st_db := db\<rparr>) a'"
proof -
  let ?n = "sp_next a"
  have a: "db_log (st_db s) (sp_log a)" "\<forall>e\<in>set (sp_log a). ev_sequence e < ?n" "0 < ?n"
    and bound: "?n + int (length events) \<le> max_i64" and tags: "\<forall>e\<in>set events. tags_distinct (pe_data e)"
    using rep wf by (auto simp: store_rep_def append_wf_def)
  have log': "db_log (set_projections m (st_db s)) (sp_log a)"
    using a(1) by (simp add: db_log_def set_projections_def)
  have sorted: "sorted_wrt (<) (map ev_sequence (sp_log a))" using a(1) by (simp add: db_log_def)
  have "db_log db (sp_log a @ placed ?n events)"
    unfolding db
    using db_log_with_events [OF log' insertable_placed [OF sorted a(2) tags]]
    by (simp only: sort_log_placed [OF sorted a(2)])
  moreover have "sp_log a' = sp_log a @ placed ?n events" "sp_next a' = ?n + int (length events)" "sp_projections a' = m"
    using spec m by (auto simp: spec_append_def split: option.splits sum.splits)
  moreover have "t_projections db = m" by (simp add: db with_events_def set_projections_def)
  ultimately show ?thesis
    using rep bound placed_in [of _ ?n events] a(3) by (fastforce simp: store_rep_def)
qed

text \<open>\<open>Append\<close> does what it promises, or fails with an error of SQLite and does nothing.\<close>

lemma Append_refines_spec:
  assumes rep: "store_rep s a" and wf: "append_wf a events conditions w"
    and run: "Append faults uuids s events conditions w = (r, s')"
  shows "(\<exists>e. from_fault faults e \<and> r = Inl e \<and> s' = s) \<or>
    (\<exists>a'. spec_append uuids a events conditions w = (r, a') \<and> store_rep s' a')"
proof (cases "length events = 0 \<and> length conditions = 0 \<and> Writes_Len w = 0")
  case True
  then have "(r, s') = (Inr \<lparr>ar_events = [], ar_versions = no_versions\<rparr>, s)"
    using run by (simp add: Append_def)
  moreover have "spec_append uuids a events conditions w =
      (Inr \<lparr>ar_events = [], ar_versions = no_versions\<rparr>, a)"
    using True by (auto simp: spec_append_def spec_writes_def creates_def replaces_def deletes_def Writes_Len_def
        versions_of_def no_versions_def Let_def)
  ultimately show ?thesis using rep by auto
next
  case False
  have time: "no_time 0 events = None" using wf by (intro no_time_None) (auto simp: append_wf_def)
  let ?n = "sp_next a"
  have nx: "st_nextSeq s = ?n" "0 < ?n" "?n + int (length events) \<le> max_i64"
    using rep wf by (auto simp: store_rep_def append_wf_def)
  have i64: "i64 (?n + int (length events)) = ?n + int (length events)" using nx by (simp add: i64_id)
  note checks = append_checks_cases [OF rep wf, of faults uuids]
  show ?thesis
  proof (cases "append_checks faults uuids s conditions w")
    case (Inl e)
    with checks run False time rep show ?thesis by (auto simp: Append_def)
  next
    case (Inr vc)
    then obtain v c where vc: "append_checks faults uuids s conditions w = Inr (v, c)" by (cases vc) simp
    with checks obtain m where m: "first_failing (sp_log a) 0 conditions = None" "v = versions_of uuids w"
      "spec_writes uuids w (sp_projections a) = Inr m" "c_tables c = set_projections m (st_db s)" by auto
    have ins: "case append_inserts faults events ?n c of
        Inl e \<Rightarrow> from_fault faults e
      | Inr (appended, db) \<Rightarrow> appended = placed ?n events \<and> db = with_events (c_tables c) (placed ?n events)"
      using rep wf m(4)
      by (intro append_inserts_cases [of c "sp_log a"])
        (auto simp: store_rep_def append_wf_def db_log_def set_projections_def)
    show ?thesis
    proof (cases "append_inserts faults events ?n c")
      case (Inl e)
      with ins run False time vc nx show ?thesis
        by (auto simp: Append_def reserveSequences_def releaseSequences_def)
    next
      case (Inr r0)
      then obtain appended db where r0: "append_inserts faults events ?n c = Inr (appended, db)" by (cases r0) simp
      with ins m(4) have db: "appended = placed ?n events" "db = with_events (set_projections m (st_db s)) (placed ?n events)"
        by auto
      obtain a' where spec: "spec_append uuids a events conditions w = (Inr \<lparr>ar_events = appended, ar_versions = v\<rparr>, a')"
        by (simp add: spec_append_def m db(1))
      have "(r, s') = (Inr \<lparr>ar_events = appended, ar_versions = v\<rparr>, s\<lparr>st_nextSeq := ?n + int (length events), st_db := db\<rparr>)"
        using run False time vc r0 nx by (auto simp: Append_def reserveSequences_def i64 split: if_splits)
      with spec spec_append_rep [OF rep wf spec m(3) db(2)] show ?thesis by auto
    qed
  qed
qed

section \<open>Reads\<close>

text \<open>An event as a read returns it.\<close>

definition read_event :: "Event \<Rightarrow> ReadEvent" where
  "read_event e = scanEvent (row_of e)"

definition in_order :: "bool \<Rightarrow> 'a list \<Rightarrow> 'a list" where
  "in_order backwards xs = (if backwards then rev xs else xs)"

definition spec_page :: "Event list \<Rightarrow> ReadFilter \<Rightarrow> Page" where
  "spec_page evs f =
     (let found = in_order (rf_backwards f) (matching evs (rf_query f) (case rf_after f of Some a \<Rightarrow> a | None \<Rightarrow> 0));
          n = nat (rf_limit f)
      in \<lparr>pg_events = map read_event (take n found), pg_has_more = n < length found\<rparr>)"

definition last_position :: "Event list \<Rightarrow> int" where
  "last_position evs = (if evs = [] then 0 else ev_sequence (last evs))"

definition spec_decision :: "Event list \<Rightarrow> DecisionFilter \<Rightarrow> Decision" where
  "spec_decision evs f =
     (let found = in_order (df_backwards f) (matching evs (df_query f) 0)
      in \<lparr>dn_events = map read_event (if df_limit f > 0 then take (nat (df_limit f)) found else found),
          dn_position = last_position evs\<rparr>)"

lemma queryEvents_cases:
  assumes "db_log (c_tables c) evs" "query_wf q"
  shows "case queryEvents faults (events_select q after backwards lim) c of
      Inl e \<Rightarrow> from_fault faults e
    | Inr (found, _) \<Rightarrow> found = map read_event (limit_rows lim (in_order backwards (matching evs q after)))"
proof -
  have "map scanEvent (run_select (c_tables c) (events_select q after backwards lim)) =
      map read_event (limit_rows lim (in_order backwards (matching evs q after)))"
    by (simp add: run_select_matching [OF assms] in_order_def read_event_def comp_def)
  then show ?thesis
    by (cases rule: exec_cases [of "\<lambda>db. Inr (map scanEvent (run_select db (events_select q after backwards lim)), db)" c _ _ faults, OF refl])
      (simp_all add: queryEvents_def)
qed

lemma Read_spec:
  assumes rep: "store_rep s a" and wf: "query_wf (rf_query f)" and limit: "1 \<le> rf_limit f" "rf_limit f < max_i64"
  shows "case Read faults s f of Inl e \<Rightarrow> from_fault faults e | Inr p \<Rightarrow> p = spec_page (sp_log a) f"
proof (cases rule: exec_cases [of no_rows "open_conn s" _ _ faults, OF no_rows_def])
  case (2 n)
  let ?after = "case rf_after f of Some a \<Rightarrow> a | None \<Rightarrow> 0"
  let ?found = "in_order (rf_backwards f) (matching (sp_log a) (rf_query f) ?after)"
  let ?c = "\<lparr>c_tables = st_db s, c_tick = n\<rparr>"
  have i64: "i64 (rf_limit f + 1) = rf_limit f + 1" using limit by (simp add: i64_id)
  have q: "case queryEvents faults (read_select f) ?c of
      Inl e \<Rightarrow> from_fault faults e
    | Inr (found, _) \<Rightarrow> found = map read_event (take (Suc (nat (rf_limit f))) ?found)"
    using queryEvents_cases [of ?c "sp_log a" "rf_query f", where faults = faults and after = ?after
        and backwards = "rf_backwards f" and lim = "Some (rf_limit f + 1)"]
      rep wf limit
    by (auto simp: read_select_def i64 store_rep_def limit_rows_def nat_add_distrib split: sum.splits)
  show ?thesis
  proof (cases "queryEvents faults (read_select f) ?c")
    case (Inl e)
    with q 2 limit show ?thesis by (simp add: Read_def open_conn_def)
  next
    case (Inr r)
    then obtain found c' where r: "queryEvents faults (read_select f) ?c = Inr (found, c')" by (cases r) simp
    with q have found: "found = map read_event (take (Suc (nat (rf_limit f))) ?found)" by simp
    have len: "rf_limit f < int (length found) \<longleftrightarrow> nat (rf_limit f) < length ?found"
      using limit by (simp add: found nat_less_iff) linarith
    show ?thesis
      using r 2 limit len by (auto simp: Read_def open_conn_def spec_page_def Let_def found take_map min_def)
  qed
qed (use limit in \<open>simp add: Read_def\<close>)

lemma max_sequence_rep: "store_rep s a \<Longrightarrow> max_sequence (st_db s) = last_position (sp_log a)"
  by (simp add: store_rep_def last_position_def max_sequence_log)

lemma matching_None: "q_form q = formNone \<Longrightarrow> matching evs q after = []"
  by (simp add: matching_def Query_Matches_def)

lemma ReadDecision_spec:
  assumes rep: "store_rep s a" and wf: "query_wf (df_query f)"
  shows "case ReadDecision faults s f of Inl e \<Rightarrow> from_fault faults e | Inr d \<Rightarrow> d = spec_decision (sp_log a) f"
proof (cases rule: exec_cases [of no_rows "open_conn s" _ _ faults, OF no_rows_def])
  case (2 n)
  let ?c = "\<lparr>c_tables = st_db s, c_tick = n\<rparr>"
  show ?thesis
  proof (cases rule: exec_cases [of "\<lambda>db. Inr (max_sequence db, db)" ?c _ _ faults, OF refl])
    case 1
    with 2 show ?thesis by (simp add: ReadDecision_def open_conn_def)
  next
    case pos: (2 m)
    let ?lim = "if df_limit f > 0 then Some (df_limit f) else None"
    have q: "case queryEvents faults (events_select (df_query f) 0 (df_backwards f) ?lim) \<lparr>c_tables = st_db s, c_tick = m\<rparr> of
        Inl e \<Rightarrow> from_fault faults e
      | Inr (found, _) \<Rightarrow> found = map read_event (limit_rows ?lim (in_order (df_backwards f) (matching (sp_log a) (df_query f) 0)))"
      using queryEvents_cases [of "\<lparr>c_tables = st_db s, c_tick = m\<rparr>" "sp_log a" "df_query f", where faults = faults
          and after = 0 and backwards = "df_backwards f" and lim = ?lim] rep wf
      by (simp add: store_rep_def)
    show ?thesis
      using 2 pos q max_sequence_rep [OF rep]
      by (auto simp: ReadDecision_def open_conn_def spec_decision_def Let_def limit_rows_def matching_None in_order_def
          split: sum.splits if_splits)
  qed
qed (simp add: ReadDecision_def)

lemma GetProjection_spec:
  assumes "store_rep s a"
  shows "case GetProjection faults s typ ident of
      Inl e \<Rightarrow> from_fault faults e
    | Inr p \<Rightarrow> p = (case sp_projections a (typ, ident) of
          None \<Rightarrow> \<lparr>pr_found = False, pr_version = [], pr_payload = []\<rparr>
        | Some (v, pl) \<Rightarrow> \<lparr>pr_found = True, pr_version = v, pr_payload = pl\<rparr>)"
  using assms
  by (cases rule: exec_cases [of "\<lambda>db. Inr (t_projections db (typ, ident), db)" "open_conn s" _ _ faults, OF refl])
    (auto simp: GetProjection_def store_rep_def open_conn_def split: option.split)

section \<open>Import and deletion\<close>

lemma highest_sequence_Max: "highest_sequence evs = Max (insert 0 (ev_sequence ` set evs))"
proof -
  have step: "fold (\<lambda>ev h. if ev_sequence ev > h then ev_sequence ev else h) evs h =
      Max (insert h (ev_sequence ` set evs))" for h
  proof (induction evs arbitrary: h)
    case (Cons e evs)
    have "Max (insert h (insert (ev_sequence e) (ev_sequence ` set evs))) =
        Max (insert (max h (ev_sequence e)) (ev_sequence ` set evs))"
      by (cases "evs = []") (simp_all add: max.assoc)
    with Cons show ?case by (simp add: max_def not_less)
  qed simp
  show ?thesis unfolding highest_sequence_def by (rule step)
qed

lemma highest_sequence_ge: "e \<in> set evs \<Longrightarrow> ev_sequence e \<le> highest_sequence evs"
  by (simp add: highest_sequence_Max)

lemma highest_sequence_bound: "(\<forall>e\<in>set evs. ev_sequence e < n) \<Longrightarrow> 0 < n \<Longrightarrow> highest_sequence evs < n"
  by (simp add: highest_sequence_Max)

lemma highest_sequence_nonneg: "0 \<le> highest_sequence evs"
  by (simp add: highest_sequence_Max)

text \<open>The events an instance can import: new positions in the counter's range, and no repeated tag.\<close>

definition import_wf :: "spec \<Rightarrow> Event list \<Rightarrow> bool" where
  "import_wf a evs \<longleftrightarrow>
     insertable (sp_log a) evs \<and> (\<forall>e\<in>set evs. 0 < ev_sequence e \<and> ev_sequence e < max_i64)"

definition spec_import :: "spec \<Rightarrow> Event list \<Rightarrow> spec" where
  "spec_import a evs =
     a\<lparr>sp_log := sort_key ev_sequence (sp_log a @ evs),
       sp_next := max (sp_next a) (if evs = [] then 0 else highest_sequence evs + 1)\<rparr>"

lemma Import_spec:
  assumes rep: "store_rep s a" and wf: "import_wf a evs" and run: "Import faults s evs = (r, s')"
  shows "(\<exists>e. from_fault faults e \<and> r = Some e \<and> s' = s) \<or> (r = None \<and> store_rep s' (spec_import a evs))"
proof (cases "evs = []")
  case True
  have "sort_key ev_sequence (sp_log a) = sp_log a"
    using rep by (intro sort_key_unique) (simp_all add: store_rep_def db_log_def)
  with True run rep show ?thesis by (simp add: Import_def spec_import_def store_rep_def)
next
  case False
  let ?h = "highest_sequence evs"
  have h: "?h < max_i64" using wf by (intro highest_sequence_bound) (simp_all add: import_wf_def)
  have i64: "i64 (?h + 1) = ?h + 1" using h highest_sequence_nonneg [of evs] by (simp add: i64_id)
  have db: "db_log (st_db s) (sp_log a)" and ins: "insertable (sp_log a) evs"
    using rep wf by (simp_all add: store_rep_def import_wf_def)
  show ?thesis
  proof (cases rule: exec_cases [of no_rows "open_conn s" _ _ faults, OF no_rows_def])
    case (1 e)
    with run False show ?thesis by (auto simp: Import_def)
  next
    case (2 n)
    let ?c = "\<lparr>c_tables = st_db s, c_tick = n\<rparr>"
    have b: "case insert_batches faults evs ?c of Inl e \<Rightarrow> from_fault faults e
        | Inr c' \<Rightarrow> c_tables c' = with_events (st_db s) evs"
      using insert_batches_cases [of ?c "sp_log a" evs faults] db ins by (auto split: sum.splits)
    show ?thesis
    proof (cases "insert_batches faults evs ?c")
      case (Inl e)
      with b 2 run False show ?thesis by (auto simp: Import_def open_conn_def)
    next
      case (Inr c1)
      with b have c1: "c_tables c1 = with_events (st_db s) evs" by simp
      show ?thesis
      proof (cases rule: exec_cases [of no_rows c1 _ _ faults, OF no_rows_def])
        case (1 e)
        with Inr 2 run False show ?thesis by (auto simp: Import_def open_conn_def)
      next
        case commit: (2 m)
        have s': "r = None" "s' = s\<lparr>st_db := with_events (st_db s) evs, st_nextSeq := max (sp_next a) (?h + 1)\<rparr>"
          using commit Inr 2 run False rep c1
          by (auto simp: Import_def open_conn_def Let_def i64 store_rep_def split: if_splits)
        have "\<forall>e\<in>set (sp_log a @ evs). 0 < ev_sequence e \<and> ev_sequence e < max (sp_next a) (?h + 1)"
          using rep wf highest_sequence_ge [of _ evs] by (fastforce simp: store_rep_def import_wf_def)
        moreover have "0 < max (sp_next a) (?h + 1)" using rep by (simp add: store_rep_def max_def)
        ultimately show ?thesis
          using s' rep h False db_log_with_events [OF db ins]
          by (simp add: store_rep_def spec_import_def with_events_def)
      qed
    qed
  qed
qed

text \<open>Deleting every event keeps the counter, the projections and the pause.\<close>

lemma DeleteAllEvents_spec:
  assumes rep: "store_rep s a" and run: "DeleteAllEvents faults s = (r, s')"
  shows "(\<exists>e. from_fault faults e \<and> r = Some e \<and> s' = s) \<or>
    (r = None \<and> store_rep s' (a\<lparr>sp_log := []\<rparr>) \<and> st_pausedAt s' = st_pausedAt s \<and>
     t_paused_at (st_db s') = t_paused_at (st_db s))"
proof -
  have "from_fault faults e" if "r = Some e" for e
    using run that
    by (auto simp: DeleteAllEvents_def exec_def no_rows_def delete_identifiers_def delete_metadata_def
        delete_events_def from_fault_def open_conn_def split: option.splits sum.splits if_splits)
  moreover have "s' = s\<lparr>st_db := (st_db s)\<lparr>t_events := [], t_identifiers := [], t_metadata := []\<rparr>\<rparr>" if "r = None"
    using run that
    by (auto simp: DeleteAllEvents_def exec_def no_rows_def delete_identifiers_def delete_metadata_def
        delete_events_def open_conn_def split: option.splits sum.splits if_splits)
  ultimately show ?thesis
    using rep DeleteAllEvents_failed [of faults s _ s'] run
    by (cases r) (auto simp: store_rep_def db_log_def)
qed

lemma run_statement_cases:
  assumes "run_statement faults stmt s = (r, s')" "stmt (st_db s) = Inr ((), db)"
  shows "(\<exists>e. from_fault faults e \<and> r = Some e \<and> s' = s) \<or> (r = None \<and> s' = s\<lparr>st_db := db\<rparr>)"
  using assms by (auto simp: run_statement_def exec_def open_conn_def from_fault_def split: option.splits)

lemma DeleteProjectionsByType_spec:
  assumes "store_rep s a" "DeleteProjectionsByType faults s typ = (r, s')"
  shows "(\<exists>e. from_fault faults e \<and> r = Some e \<and> s' = s) \<or>
    (r = None \<and> store_rep s' (a\<lparr>sp_projections := (\<lambda>k. if fst k = typ then None else sp_projections a k)\<rparr>))"
  using run_statement_cases [OF assms(2) [unfolded DeleteProjectionsByType_def] delete_projections_of_def] assms(1)
  by (auto simp: store_rep_def db_log_def)

lemma DeleteAllProjections_spec:
  assumes "store_rep s a" "DeleteAllProjections faults s = (r, s')"
  shows "(\<exists>e. from_fault faults e \<and> r = Some e \<and> s' = s) \<or>
    (r = None \<and> store_rep s' (a\<lparr>sp_projections := Map.empty\<rparr>))"
  using run_statement_cases [OF assms(2) [unfolded DeleteAllProjections_def] delete_projections_def] assms(1)
  by (auto simp: store_rep_def db_log_def)

section \<open>The pause\<close>

text \<open>The pause is in the file and in memory, and they agree.\<close>

definition pause_rep :: "Store \<Rightarrow> bool" where
  "pause_rep s \<longleftrightarrow>
     t_paused_at (st_db s) = (if IsZero (st_pausedAt s) then None else Some (format_time (st_pausedAt s)))"

lemma SetPause_spec:
  assumes "store_rep s a" "SetPause faults s at = (r, s')" "at \<noteq> 0"
  shows "(\<exists>e. from_fault faults e \<and> r = Inl e \<and> s' = s) \<or>
    (r = Inr (sp_next a - 1) \<and> store_rep s' a \<and> PausedAt s' = (at, True) \<and> pause_rep s')"
proof -
  obtain r0 s0 where r0: "run_statement faults (update_paused_at (Some (format_time at))) s = (r0, s0)" by fastforce
  from run_statement_cases [OF r0 update_paused_at_def] show ?thesis
  proof (elim disjE exE conjE)
    assume *: "r0 = None" "s0 = s\<lparr>st_db := (st_db s)\<lparr>t_paused_at := Some (format_time at)\<rparr>\<rparr>"
    then have "store_rep s0 a" using assms(1) by (simp add: store_rep_def db_log_def)
    with * r0 assms LastSequence_rep [OF this] show ?thesis
      by (auto simp: SetPause_def PausedAt_def pause_rep_def IsZero_def store_rep_def)
  qed (use r0 assms in \<open>auto simp: SetPause_def\<close>)
qed

lemma ClearPause_spec:
  assumes "store_rep s a" "ClearPause faults s = (r, s')"
  shows "(\<exists>e. from_fault faults e \<and> r = Some e \<and> s' = s) \<or>
    (r = None \<and> store_rep s' a \<and> snd (PausedAt s') = False \<and> pause_rep s')"
proof -
  obtain r0 s0 where r0: "run_statement faults (update_paused_at None) s = (r0, s0)" by fastforce
  from run_statement_cases [OF r0 update_paused_at_def] show ?thesis
  proof (elim disjE exE conjE)
    assume "r0 = None" "s0 = s\<lparr>st_db := (st_db s)\<lparr>t_paused_at := None\<rparr>\<rparr>"
    with r0 assms show ?thesis
      by (auto simp: ClearPause_def PausedAt_def pause_rep_def IsZero_def store_rep_def db_log_def)
  qed (use r0 assms in \<open>auto simp: ClearPause_def\<close>)
qed

section \<open>The contract of an event store\<close>

text \<open>
  What a client that decides on a read, then appends under a condition, relies on: a decision
  holds every matching event and the position it was read at, and an append is the abstract one,
  or an error that isn't a conflict and changes nothing.
\<close>

text \<open>The condition a decision gives its write.\<close>

definition condition_of :: "DecisionFilter \<Rightarrow> Decision \<Rightarrow> AppendCondition" where
  "condition_of f d = \<lparr>FailIfEventsMatch = df_query f, AfterSequence = dn_position d\<rparr>"

lemma last_position_sorted:
  assumes "sorted_wrt (<) (map ev_sequence (evs @ new))" "\<forall>e\<in>set (evs @ new). 0 < ev_sequence e"
  shows "matching (evs @ new) q (last_position evs) = filter (\<lambda>e. Query_Matches q (ev_data e)) new"
proof -
  have s: "sorted (map ev_sequence evs)" "\<forall>e\<in>set evs. \<forall>e'\<in>set new. ev_sequence e < ev_sequence e'"
    using assms(1) by (auto simp: sorted_wrt_append strict_sorted_iff)
  have "\<not> last_position evs < ev_sequence e" if "e \<in> set evs" for e
    using that sorted_le_last [OF s(1), of "ev_sequence e"] by (auto simp: last_position_def last_map)
  then have "matching evs q (last_position evs) = []"
    by (simp add: matching_def filter_empty_conv)
  moreover have "last_position evs < ev_sequence e" if "e \<in> set new" for e
    using that s(2) assms(2) by (auto simp: last_position_def)
  then have "matching new q (last_position evs) = filter (\<lambda>e. Query_Matches q (ev_data e)) new"
    unfolding matching_def by (intro filter_cong) auto
  ultimately show ?thesis by (simp add: matching_def)
qed

locale event_store =
  fixes rep :: "'s \<Rightarrow> spec \<Rightarrow> bool"
    and decide :: "'s \<Rightarrow> DecisionFilter \<Rightarrow> 'e + Decision"
    and append :: "'s \<Rightarrow> PendingEvent list \<Rightarrow> AppendCondition list \<Rightarrow> Writes \<Rightarrow> (store_error + AppendResult) \<times> 's"
    and uuids :: "nat \<Rightarrow> string"
  assumes decide_spec: "rep s a \<Longrightarrow> query_wf (df_query f) \<Longrightarrow> decide s f = Inr d \<Longrightarrow> d = spec_decision (sp_log a) f"
    and append_spec: "rep s a \<Longrightarrow> append_wf a events conditions w \<Longrightarrow> append s events conditions w = (r, s') \<Longrightarrow>
      (\<exists>e. \<not> is_conflict e \<and> r = Inl e \<and> s' = s) \<or>
      (\<exists>a'. spec_append uuids a events conditions w = (r, a') \<and> rep s' a')"
    and rep_sorted: "rep s a \<Longrightarrow> sorted_wrt (<) (map ev_sequence (sp_log a)) \<and> (\<forall>e\<in>set (sp_log a). 0 < ev_sequence e)"
begin

lemma append_success:
  assumes "rep s a" "append_wf a events conditions w" "append s events conditions w = (Inr r, s')"
  shows "\<exists>a'. rep s' a' \<and> sp_log a' = sp_log a @ placed (sp_next a) events \<and>
    sp_next a' = sp_next a + int (length events) \<and> list_all (condition_holds (sp_log a)) conditions"
proof -
  have "first_failing evs i cs = None \<Longrightarrow> list_all (condition_holds evs) cs" for evs i cs
    by (induction cs arbitrary: i) (auto split: if_splits)
  with append_spec [OF assms] show ?thesis
    by (fastforce simp: spec_append_def split: option.splits sum.splits)
qed

text \<open>
  Nothing the decision didn't see slips under a write: if the write goes through on a log that
  grew since the read, then no event that came after the read matches the decision's query.
\<close>

lemma write_after_decision:
  assumes read: "rep s a" "query_wf (df_query f)" "decide s f = Inr d"
    and grown: "rep s2 a2" "sp_log a2 = sp_log a @ new"
    and wrt: "append_wf a2 events [condition_of f d] w" "append s2 events [condition_of f d] w = (r, s3)"
  shows "case r of
      Inr _ \<Rightarrow> list_all (\<lambda>e. \<not> Query_Matches (df_query f) (ev_data e)) new
    | Inl (ConditionConflictError i) \<Rightarrow> i = 0 \<and> list_ex (\<lambda>e. Query_Matches (df_query f) (ev_data e)) new
    | Inl _ \<Rightarrow> True"
proof -
  have d: "dn_position d = last_position (sp_log a)"
    using decide_spec [OF read] by (simp add: spec_decision_def Let_def)
  have holds: "condition_holds (sp_log a2) (condition_of f d) \<longleftrightarrow>
      list_all (\<lambda>e. \<not> Query_Matches (df_query f) (ev_data e)) new"
    using last_position_sorted [of "sp_log a" new "df_query f"] rep_sorted [OF grown(1)] grown(2)
    by (simp add: condition_holds_def condition_of_def d filter_empty_conv list_all_iff)
  from append_spec [OF grown(1) wrt] consider e where "\<not> is_conflict e" "r = Inl e"
    | a' where "spec_append uuids a2 events [condition_of f d] w = (r, a')" by blast
  then show ?thesis
  proof cases
    case 1
    then show ?thesis by (cases e) auto
  next
    case 2
    have conflict: "e \<noteq> ConditionConflictError i" if "spec_writes uuids w m = Inl e" for e i m
    proof -
      have "run_writes op j ws m \<noteq> Inl (ConditionConflictError i)" for op j ws m
        by (induction ws arbitrary: j m) (auto split: if_splits)
      with that show ?thesis by (auto simp: spec_writes_def bind_err_Inl_iff)
    qed
    from 2 holds show ?thesis
      using conflict
      by (auto simp: spec_append_def list_ex_iff list_all_iff split: option.splits if_splits sum.splits store_error.splits)
  qed
qed

end

interpretation stored: event_store store_rep "ReadDecision faults" "Append faults' uuids" uuids
  for faults faults' uuids
proof
  show "d = spec_decision (sp_log a) f"
    if "store_rep s a" "query_wf (df_query f)" "ReadDecision faults s f = Inr d" for s a f d
    using ReadDecision_spec [OF that(1,2), of faults] that(3) by simp
  show "(\<exists>e. \<not> is_conflict e \<and> r = Inl e \<and> s' = s) \<or>
      (\<exists>a'. spec_append uuids a events conditions w = (r, a') \<and> store_rep s' a')"
    if "store_rep s a" "append_wf a events conditions w" "Append faults' uuids s events conditions w = (r, s')"
    for s a events conditions w r s'
    using Append_refines_spec [OF that] by (fastforce simp: from_fault_def)
  show "sorted_wrt (<) (map ev_sequence (sp_log a)) \<and> (\<forall>e\<in>set (sp_log a). 0 < ev_sequence e)"
    if "store_rep s a" for s a
    using that by (auto simp: store_rep_def db_log_def)
qed

section \<open>Reading page by page\<close>

text \<open>
  What a client does to read everything: it asks for the page after the last event it has, until
  a page says no more match.
\<close>

fun read_all :: "nat \<Rightarrow> Event list \<Rightarrow> Query \<Rightarrow> int \<Rightarrow> int \<Rightarrow> ReadEvent list" where
  "read_all 0 evs q limit after = []"
| "read_all (Suc n) evs q limit after =
     (let p = spec_page evs \<lparr>rf_query = q, rf_after = Some after, rf_limit = limit, rf_backwards = False\<rparr>
      in if pg_has_more p then pg_events p @ read_all n evs q limit (re_sequence (last (pg_events p)))
         else pg_events p)"

lemma re_sequence_read_event [simp]: "re_sequence (read_event e) = ev_sequence e"
  by (simp add: read_event_def scanEvent_def)

lemma matching_after:
  assumes "sorted_wrt (<) (map ev_sequence evs)" "matching evs q after = xs @ y # ys"
  shows "matching evs q (ev_sequence y) = ys"
proof -
  have sorted: "sorted_wrt (<) (map ev_sequence (xs @ y # ys))"
    unfolding assms(2) [symmetric] matching_def by (rule sorted_wrt_filter_map [OF assms(1)])
  have "after < ev_sequence y" using arg_cong [OF assms(2), of set] by (auto simp: matching_def)
  then have "matching evs q (ev_sequence y) = filter (\<lambda>e. ev_sequence y < ev_sequence e) (matching evs q after)"
    by (auto simp: matching_def intro!: filter_cong)
  also have "\<dots> = ys"
    using sorted unfolding assms(2) by (auto simp: sorted_wrt_append filter_empty_conv filter_id_conv)
  finally show ?thesis .
qed

lemma read_all_matching:
  assumes "sorted_wrt (<) (map ev_sequence evs)" "1 \<le> limit" "length (matching evs q after) \<le> n"
  shows "read_all (Suc n) evs q limit after = map read_event (matching evs q after)"
  using assms(3)
proof (induction n arbitrary: after)
  case 0
  then show ?case by (simp add: spec_page_def in_order_def)
next
  case (Suc n)
  let ?m = "matching evs q after" and ?k = "nat limit"
  show ?case
  proof (cases "?k < length ?m")
    case False
    then show ?thesis by (simp add: spec_page_def in_order_def)
  next
    case True
    define xs y ys where "xs = take (?k - 1) ?m" and "y = ?m ! (?k - 1)" and "ys = drop ?k ?m"
    have k: "Suc (?k - 1) = ?k" using assms(2) by simp
    have take: "take ?k ?m = xs @ [y]"
      using True take_Suc_conv_app_nth [of "?k - 1" ?m] unfolding xs_def y_def k by simp
    then have m: "?m = xs @ y # ys" by (metis append_take_drop_id append_Cons append_Nil append_assoc ys_def)
    have next_page: "matching evs q (ev_sequence y) = ys" by (rule matching_after [OF assms(1) m])
    have "length ys \<le> n" using Suc.prems True assms(2) by (simp add: ys_def)
    with Suc.IH [of "ev_sequence y"] next_page
    have "read_all (Suc n) evs q limit (ev_sequence y) = map read_event ys" by simp
    moreover have "spec_page evs \<lparr>rf_query = q, rf_after = Some after, rf_limit = limit, rf_backwards = False\<rparr> =
        \<lparr>pg_events = map read_event (xs @ [y]), pg_has_more = True\<rparr>"
      using True take by (simp add: spec_page_def in_order_def Let_def)
    ultimately show ?thesis
      by (subst read_all.simps(2)) (simp add: m del: read_all.simps(2))
  qed
qed

section \<open>Properties\<close>

text \<open>For the witnesses: a new store, one event, and writes of projections.\<close>

definition new_store :: Store where
  "new_store = \<lparr>st_db = empty_tables, st_nextSeq = 1, st_pausedAt = 0\<rparr>"

definition new_spec :: spec where
  "new_spec = \<lparr>sp_log = [], sp_next = 1, sp_projections = Map.empty\<rparr>"

definition user_created :: EventData where
  "user_created = \<lparr>ed_type = ''UserCreated'', ed_identifiers = [Identifier ''user'' ''1''], ed_metadata = [],
     ed_payload = ''{}''\<rparr>"

definition create_user :: Writes where
  "create_user = \<lparr>w_create = Some [\<lparr>c_type = ''User'', c_id = ''1'', c_payload = Some ''{}''\<rparr>],
     w_replace = None, w_delete = None\<rparr>"

definition no_projection_writes :: Writes where
  "no_projection_writes = \<lparr>w_create = None, w_replace = None, w_delete = None\<rparr>"

lemma new_store_rep: "store_rep new_store new_spec"
  by (simp add: store_rep_def new_store_def new_spec_def empty_db_log) (simp add: empty_tables_def)

definition one_user :: spec where
  "one_user = \<lparr>sp_log = [\<lparr>ev_sequence = 1, ev_time = 5, ev_data = user_created\<rparr>], sp_next = 2,
     sp_projections = [(''User'', ''1'') \<mapsto> (''v1'', ''{}'')]\<rparr>"

definition one_user_store :: Store where
  "one_user_store = snd (Append no_faults (\<lambda>_. ''v1'') new_store [\<lparr>pe_time = 5, pe_data = user_created\<rparr>] [] create_user)"

lemmas spec_append_defs = spec_append_def new_spec_def condition_holds_def matching_def spec_writes_def creates_def
  replaces_def deletes_def create_user_def placed_def versions_of_def payload_of_def

lemma append_wf_users:
  assumes "query_wf q" "sp_next a < max_i64" "writes_wf w"
  shows "append_wf a [\<lparr>pe_time = 5, pe_data = user_created\<rparr>] [\<lparr>FailIfEventsMatch = q, AfterSequence = n\<rparr>] w"
    "append_wf a [\<lparr>pe_time = 5, pe_data = user_created\<rparr>] [] w"
  using assms by (simp_all add: append_wf_def tags_distinct_def user_created_def)

lemma create_user_wf: "writes_wf create_user"
  by (simp add: writes_wf_def create_user_def)

lemma one_user_rep: "store_rep one_user_store one_user"
proof -
  obtain r where run: "Append no_faults (\<lambda>_. ''v1'') new_store [\<lparr>pe_time = 5, pe_data = user_created\<rparr>] [] create_user =
      (r, one_user_store)" by (metis one_user_store_def prod.collapse)
  have "append_wf new_spec [\<lparr>pe_time = 5, pe_data = user_created\<rparr>] [] create_user"
    by (rule append_wf_users(2) [where q = QueryAll]) (simp_all add: create_user_wf new_spec_def query_wf_def QueryAll_def)
  from Append_refines_spec [OF new_store_rep this run] obtain a' where
    "spec_append (\<lambda>_. ''v1'') new_spec [\<lparr>pe_time = 5, pe_data = user_created\<rparr>] [] create_user = (r, a')"
    "store_rep one_user_store a'" by auto
  then show ?thesis by (simp add: spec_append_defs one_user_def)
qed

text \<open>C1. \<open>Append\<close> refines its specification, and all of it happens or none: on a store that holds a
  log, a counter and projections it either fails for a database error with the store unchanged,
  or gives what the specification gives: the first condition that a matching event breaks, else
  the first projection write that finds its row changed, else the events at the next positions
  with no gap and every projection written; and the store it leaves holds the specification's
  state.\<close>

theorem Append_refines:
  assumes "store_rep s a" "append_wf a events conditions w"
    and "Append faults uuids s events conditions w = (r, s')"
  shows "(\<exists>e. from_fault faults e \<and> r = Inl e \<and> s' = s) \<or>
    (\<exists>a'. spec_append uuids a events conditions w = (r, a') \<and> store_rep s' a')"
  using Append_refines_spec [OF assms] .

theorem Append_refines_witness:
  "(let (r, s') = Append no_faults (\<lambda>_. ''v1'') new_store [\<lparr>pe_time = 5, pe_data = user_created\<rparr>]
         [\<lparr>FailIfEventsMatch = QueryAll, AfterSequence = 0\<rparr>] create_user
    in r = Inr \<lparr>ar_events = [\<lparr>ev_sequence = 1, ev_time = 5, ev_data = user_created\<rparr>],
           ar_versions = \<lparr>v_create = [''v1''], v_replace = []\<rparr>\<rparr> \<and>
       store_rep s' one_user)"
proof -
  let ?evs = "[\<lparr>pe_time = 5, pe_data = user_created\<rparr>]"
  let ?cs = "[\<lparr>FailIfEventsMatch = QueryAll, AfterSequence = 0\<rparr>]"
  obtain r s' where run: "Append no_faults (\<lambda>_. ''v1'') new_store ?evs ?cs create_user = (r, s')" by fastforce
  have "append_wf new_spec ?evs ?cs create_user"
    by (rule append_wf_users(1)) (simp_all add: create_user_wf new_spec_def query_wf_def QueryAll_def)
  from Append_refines [OF new_store_rep this run]
  obtain a' where "spec_append (\<lambda>_. ''v1'') new_spec ?evs ?cs create_user = (r, a')" "store_rep s' a'" by auto
  moreover from this have "r = Inr \<lparr>ar_events = [\<lparr>ev_sequence = 1, ev_time = 5, ev_data = user_created\<rparr>],
        ar_versions = \<lparr>v_create = [''v1''], v_replace = []\<rparr>\<rparr> \<and> a' = one_user"
    by (simp add: spec_append_defs one_user_def)
  ultimately show ?thesis by (simp add: run)
qed

text \<open>C2. A write decided on what was read is safe: after \<open>ReadDecision\<close>, whatever other requests append
  in between, a write under the condition \<open>none of the query after the position read\<close> succeeds
  only when no event appended since matches the query, and fails with that condition's conflict
  only when one does.\<close>

theorem decision_write_serializable:
  assumes "store_rep s a" "query_wf (df_query f)" "ReadDecision faults s f = Inr d"
    and "store_rep s2 a2" "sp_log a2 = sp_log a @ new"
    and "append_wf a2 events [condition_of f d] w" "Append faults' uuids s2 events [condition_of f d] w = (r, s3)"
  shows "case r of
      Inr _ \<Rightarrow> list_all (\<lambda>e. \<not> Query_Matches (df_query f) (ev_data e)) new
    | Inl (ConditionConflictError i) \<Rightarrow> i = 0 \<and> list_ex (\<lambda>e. Query_Matches (df_query f) (ev_data e)) new
    | Inl _ \<Rightarrow> True"
  using stored.write_after_decision [OF assms] .

theorem decision_write_serializable_witness:
  "(let f = \<lparr>df_query = QueryAll, df_backwards = False, df_limit = 0\<rparr>; c = \<lparr>FailIfEventsMatch = QueryAll, AfterSequence = 0\<rparr>
    in ReadDecision no_faults new_store f = Inr \<lparr>dn_events = [], dn_position = 0\<rparr> \<and>
       (case fst (Append no_faults (\<lambda>_. ''v2'') one_user_store [\<lparr>pe_time = 5, pe_data = user_created\<rparr>] [c] no_projection_writes) of
          Inr _ \<Rightarrow> False | Inl (ConditionConflictError i) \<Rightarrow> i = 0 | Inl _ \<Rightarrow> True))"
proof -
  let ?f = "\<lparr>df_query = QueryAll, df_backwards = False, df_limit = 0\<rparr>"
  let ?d = "\<lparr>dn_events = [], dn_position = 0\<rparr>"
  have wf: "query_wf (df_query ?f)" by (simp add: query_wf_def QueryAll_def)
  have read: "ReadDecision no_faults new_store ?f = Inr ?d"
    using ReadDecision_spec [OF new_store_rep wf, of no_faults]
    by (auto simp: spec_decision_def new_spec_def matching_def in_order_def last_position_def split: sum.splits)
  have c: "condition_of ?f ?d = \<lparr>FailIfEventsMatch = QueryAll, AfterSequence = 0\<rparr>" by (simp add: condition_of_def)
  have ok: "append_wf one_user [\<lparr>pe_time = 5, pe_data = user_created\<rparr>] [condition_of ?f ?d] no_projection_writes"
    unfolding c by (rule append_wf_users) (simp_all add: query_wf_def QueryAll_def one_user_def writes_wf_def no_projection_writes_def)
  have grown: "sp_log one_user = sp_log new_spec @ sp_log one_user" by (simp add: new_spec_def)
  define r where "r = fst (Append no_faults (\<lambda>_. ''v2'') one_user_store [\<lparr>pe_time = 5, pe_data = user_created\<rparr>]
    [condition_of ?f ?d] no_projection_writes)"
  have "Query_Matches QueryAll e" for e by (simp add: Query_Matches_def QueryAll_def)
  with decision_write_serializable [OF new_store_rep wf read one_user_rep grown ok prod.collapse [symmetric], of no_faults "\<lambda>_. ''v2''"]
  have "case r of Inr _ \<Rightarrow> False | Inl (ConditionConflictError i) \<Rightarrow> i = 0 | Inl _ \<Rightarrow> True"
    unfolding r_def [symmetric] by (cases r) (simp_all add: one_user_def split: store_error.splits)
  then show ?thesis by (simp add: read c [symmetric] r_def)
qed

text \<open>C11. \<open>Read\<close> gives the page that the log specifies: the matching events after the position, in the
  order asked for, at most \<open>Limit\<close> of them, and \<open>HasMore\<close> exactly when more match.\<close>

theorem Read_refines:
  assumes "store_rep s a" "query_wf (rf_query f)" "1 \<le> rf_limit f" "rf_limit f < max_i64"
  shows "case Read faults s f of
      Inl e \<Rightarrow> from_fault faults e
    | Inr p \<Rightarrow>
        let found = in_order (rf_backwards f) (matching (sp_log a) (rf_query f) (case rf_after f of Some x \<Rightarrow> x | None \<Rightarrow> 0))
        in pg_events p = map read_event (take (nat (rf_limit f)) found) \<and>
           (pg_has_more p \<longleftrightarrow> rf_limit f < int (length found))"
  using Read_spec [OF assms, of faults] assms(3)
  by (auto simp: spec_page_def Let_def split: sum.splits)

theorem Read_refines_witness:
  "Read no_faults new_store \<lparr>rf_query = QueryAll, rf_after = None, rf_limit = 10, rf_backwards = True\<rparr> =
     Inr \<lparr>pg_events = [], pg_has_more = False\<rparr>"
  using Read_refines [OF new_store_rep,
      of "\<lparr>rf_query = QueryAll, rf_after = None, rf_limit = 10, rf_backwards = True\<rparr>" no_faults]
  by (auto simp: query_wf_def QueryAll_def new_spec_def matching_def in_order_def Let_def split: sum.splits)

text \<open>
  What a client does to read everything: it calls \<open>Read\<close> for the page after the last event it has,
  until a page says no more match.
\<close>

fun read_pages :: "nat \<Rightarrow> faults \<Rightarrow> Store \<Rightarrow> Query \<Rightarrow> int \<Rightarrow> int \<Rightarrow> store_error + ReadEvent list" where
  "read_pages 0 faults s q limit after = Inr []"
| "read_pages (Suc n) faults s q limit after =
     bind_err (Read faults s \<lparr>rf_query = q, rf_after = Some after, rf_limit = limit, rf_backwards = False\<rparr>) (\<lambda>p.
     if pg_has_more p
     then bind_err (read_pages n faults s q limit (re_sequence (last (pg_events p)))) (\<lambda>rest. Inr (pg_events p @ rest))
     else Inr (pg_events p))"

lemma read_pages_spec:
  assumes "store_rep s a" "query_wf q" "1 \<le> limit" "limit < max_i64"
  shows "read_pages n no_faults s q limit after = Inr (read_all n (sp_log a) q limit after)"
proof (induction n arbitrary: after)
  case (Suc n)
  let ?f = "\<lparr>rf_query = q, rf_after = Some after, rf_limit = limit, rf_backwards = False\<rparr>"
  have "Read no_faults s ?f = Inr (spec_page (sp_log a) ?f)"
    using Read_spec [OF assms(1), of ?f no_faults] assms(2-4) by (auto split: sum.splits)
  with Suc show ?case by (simp add: Let_def)
qed simp

text \<open>C13. Reading page after page, each from the last position of the page before, until a page says
  there is no more, gives every matching event once and in order, with pages of any size: one
  more call than matching events is always enough.\<close>

theorem paging_complete:
  assumes "store_rep s a" "query_wf q" "1 \<le> limit" "limit < max_i64" "length (matching (sp_log a) q after) \<le> n"
  shows "read_pages (Suc n) no_faults s q limit after = Inr (map read_event (matching (sp_log a) q after))"
  using read_pages_spec [OF assms(1-4), of "Suc n" after] read_all_matching [of "sp_log a" limit q after n] assms
  by (simp add: store_rep_def db_log_def)

theorem paging_complete_witness: "read_pages 1 no_faults new_store QueryAll 1 0 = Inr []"
  using paging_complete [OF new_store_rep, of QueryAll 1 0 0]
  by (simp add: query_wf_def QueryAll_def new_spec_def matching_def)


text \<open>C22. \<open>Import\<close> refines its specification: it fails for a database error and changes nothing, or adds
  every event at the position it came with, keeps the log in order of position and never moves the
  counter back, so that the next append goes after every imported event.\<close>

theorem Import_refines:
  assumes "store_rep s a" "insertable (sp_log a) evs" "\<forall>e\<in>set evs. 0 < ev_sequence e \<and> ev_sequence e < max_i64"
    and "Import faults s evs = (r, s')"
  shows "(\<exists>e. from_fault faults e \<and> r = Some e \<and> s' = s) \<or>
    (r = None \<and> store_rep s' (a\<lparr>sp_log := sort_key ev_sequence (sp_log a @ evs), sp_next := st_nextSeq s'\<rparr>) \<and>
     st_nextSeq s \<le> st_nextSeq s' \<and> list_all (\<lambda>e. ev_sequence e < st_nextSeq s') evs)"
proof -
  have "import_wf a evs" using assms by (simp add: import_wf_def)
  from Import_spec [OF assms(1) this assms(4)] show ?thesis
  proof
    assume *: "r = None \<and> store_rep s' (spec_import a evs)"
    then have next_seq: "st_nextSeq s' = sp_next (spec_import a evs)" by (simp add: store_rep_def)
    have "st_nextSeq s \<le> st_nextSeq s'"
      using assms(1) by (simp add: next_seq spec_import_def store_rep_def)
    moreover have "spec_import a evs = a\<lparr>sp_log := sort_key ev_sequence (sp_log a @ evs), sp_next := st_nextSeq s'\<rparr>"
      by (simp add: next_seq spec_import_def)
    moreover have "list_all (\<lambda>e. ev_sequence e < st_nextSeq s') evs"
      using highest_sequence_ge [of _ evs] by (force simp: next_seq spec_import_def list_all_iff)
    ultimately show ?thesis using * by simp
  qed simp
qed

theorem Import_refines_witness:
  "(let e = \<lparr>ev_sequence = 41, ev_time = 5, ev_data = user_created\<rparr>; (r, s') = Import no_faults new_store [e]
    in r = None \<and> 41 < st_nextSeq s' \<and> store_rep s' \<lparr>sp_log = [e], sp_next = st_nextSeq s', sp_projections = Map.empty\<rparr>)"
proof -
  let ?e = "\<lparr>ev_sequence = 41, ev_time = 5, ev_data = user_created\<rparr>"
  obtain r s' where run: "Import no_faults new_store [?e] = (r, s')" by fastforce
  have "insertable (sp_log new_spec) [?e]" by (simp add: insertable_def new_spec_def user_created_def)
  from Import_refines [OF new_store_rep this _ run] show ?thesis by (simp add: run new_spec_def)
qed



end
