(* ===== verification/Wire.thy ===== *)
theory Wire
  imports Json Storelog
begin

text \<open>
  What travels between the server and its clients: the fields of a JSON object decoded into a Go
  struct, a time as \<open>time.Parse\<close> reads it with \<open>time.RFC3339Nano\<close>, an event read back
  (\<open>Event.UnmarshalJSON\<close> of \<open>internal/dcb/event.go\<close>), and the line of a read
  (\<open>appendReadEvent\<close> of \<open>internal/api/events.go\<close>).
\<close>

section \<open>Decoding an object into a struct\<close>

text \<open>
  Each key in turn sets its field (\<open>field\<close> finds it with \<open>is_field\<close>, and decides what an
  unknown key does), \<open>None\<close> being an error; a \<open>null\<close> leaves the struct as it is.
\<close>

fun decode_fields :: "(string \<Rightarrow> json \<Rightarrow> 'r \<Rightarrow> 'r option) \<Rightarrow> (string \<times> json) list \<Rightarrow> 'r \<Rightarrow> 'r option" where
  "decode_fields field [] r = Some r"
| "decode_fields field ((k, v) # kvs) r =
     (case field k v r of None \<Rightarrow> None | Some r' \<Rightarrow> decode_fields field kvs r')"

fun decode_struct :: "(string \<Rightarrow> json \<Rightarrow> 'r \<Rightarrow> 'r option) \<Rightarrow> 'r \<Rightarrow> json \<Rightarrow> 'r option" where
  "decode_struct field r (JObject kvs) = decode_fields field kvs r"
| "decode_struct field r JNull = Some r"
| "decode_struct field r _ = None"

text \<open>The value of a field; the first argument is what the field holds before.\<close>

fun decode_bool :: "bool \<Rightarrow> json \<Rightarrow> bool option" where
  "decode_bool old (JBool b) = Some b"
| "decode_bool old JNull = Some old"
| "decode_bool old _ = None"

fun decode_int :: "int \<Rightarrow> json \<Rightarrow> int option" where
  "decode_int old (JNumber n) = (if - max_i64 - 1 \<le> n \<and> n \<le> max_i64 then Some n else None)"
| "decode_int old JNull = Some old"
| "decode_int old _ = None"

text \<open>A pointer is allocated when it is \<open>nil\<close>, and \<open>null\<close> makes it \<open>nil\<close> again.\<close>

definition decode_pointer :: "('a \<Rightarrow> json \<Rightarrow> 'a option) \<Rightarrow> 'a \<Rightarrow> 'a option \<Rightarrow> json \<Rightarrow> 'a option option" where
  "decode_pointer dec zero old v =
     (if v = JNull then Some None
      else map_option Some (dec (case old of None \<Rightarrow> zero | Some x \<Rightarrow> x) v))"

section \<open>Times\<close>

definition fixed :: "nat \<Rightarrow> string \<Rightarrow> (int \<times> string) option" where
  "fixed k s = (if length s < k then None else map_option (\<lambda>n. (n, drop k s)) (unpad 0 (take k s)))"

definition literal :: "char \<Rightarrow> string \<Rightarrow> string option" where
  "literal c s = (case s of [] \<Rightarrow> None | x # t \<Rightarrow> if x = c then Some t else None)"

definition number_then :: "nat \<Rightarrow> char \<Rightarrow> string \<Rightarrow> (int \<times> string) option" where
  "number_then k c s =
     (case fixed k s of
        None \<Rightarrow> None
      | Some (n, t) \<Rightarrow> map_option (\<lambda>u. (n, u)) (literal c t))"

text \<open>An hour may have one digit.\<close>

definition hour_then :: "string \<Rightarrow> (int \<times> string) option" where
  "hour_then s =
     (case number_then 2 (CHR '':'') s of
        Some r \<Rightarrow> Some r
      | None \<Rightarrow> number_then 1 (CHR '':'') s)"

text \<open>A fraction of a second, if there is one, in microseconds.\<close>

definition micros :: "string \<Rightarrow> int option \<times> string" where
  "micros s =
     (case s of
        c # t \<Rightarrow>
          (if (c = CHR ''.'' \<or> c = CHR '','') \<and> takeWhile is_digit t \<noteq> []
           then (unpad 0 (take 6 (takeWhile is_digit t @ ''000000'')), dropWhile is_digit t) else (Some 0, s))
      | [] \<Rightarrow> (Some 0, s))"

text \<open>The zone, to the end of the text: minutes to the east of UTC.\<close>

definition zone_minutes :: "string \<Rightarrow> int option" where
  "zone_minutes s =
     (if s = ''Z'' then Some 0
      else
        (case s of
           [] \<Rightarrow> None
         | c # t \<Rightarrow>
             (case number_then 2 (CHR '':'') t of
                None \<Rightarrow> None
              | Some (h, u) \<Rightarrow>
                  (case fixed 2 u of
                     Some (m, []) \<Rightarrow>
                       (if h \<le> 24 \<and> m \<le> 60 \<and> (c = CHR ''+'' \<or> c = CHR ''-'')
                        then Some (if c = CHR ''+'' then h * 60 + m else - (h * 60 + m)) else None)
                   | _ \<Rightarrow> None))))"

text \<open>\<open>time.Parse(time.RFC3339Nano, s)\<close>, in UTC, to the microsecond.\<close>

definition parse_rfc3339 :: "string \<Rightarrow> gotime option" where
  "parse_rfc3339 s =
     (case number_then 4 (CHR ''-'') s of None \<Rightarrow> None | Some (y, s1) \<Rightarrow>
     (case number_then 2 (CHR ''-'') s1 of None \<Rightarrow> None | Some (m, s2) \<Rightarrow>
     (case number_then 2 (CHR ''T'') s2 of None \<Rightarrow> None | Some (d, s3) \<Rightarrow>
     (case hour_then s3 of None \<Rightarrow> None | Some (h, s4) \<Rightarrow>
     (case number_then 2 (CHR '':'') s4 of None \<Rightarrow> None | Some (mi, s5) \<Rightarrow>
     (case fixed 2 s5 of None \<Rightarrow> None | Some (sec, s6) \<Rightarrow>
     (case micros s6 of (None, _) \<Rightarrow> None | (Some us, s7) \<Rightarrow>
     (case zone_minutes s7 of None \<Rightarrow> None | Some z \<Rightarrow>
        if 1 \<le> m \<and> m \<le> 12 \<and> 1 \<le> d \<and> d \<le> days_in (is_leap y) m \<and> h < 24 \<and> mi < 60 \<and> sec < 60
        then Some (day_number y m d * us_per_day + ((h * 60 + mi - z) * 60 + sec) * 1000000 + us)
        else None))))))))"

lemma number_field_then: "number_field k c s = Some (n, t) \<Longrightarrow> number_then k c s = Some (n, t)"
proof -
  assume "number_field k c s = Some (n, t)"
  then have u: "unpad 0 (take k s) = Some n" "Suc k \<le> length s" "s ! k = c" "t = drop (Suc k) s"
    by (auto split: option.splits if_splits)
  then have "drop k s = c # t" by (simp add: Cons_nth_drop_Suc [symmetric])
  then show ?thesis using u by (simp add: number_then_def fixed_def literal_def)
qed

lemma unpad_is_digit: "unpad a s = Some n \<Longrightarrow> \<forall>c\<in>set s. is_digit c"
  by (induction s arbitrary: a) (auto simp: is_digit_def split: option.splits)

text \<open>A text in \<open>TimeLayout\<close> is read as that layout says.\<close>

lemma parse_rfc3339_layout: "parse_time s = Some t \<Longrightarrow> parse_rfc3339 s = Some t"
proof -
  assume run: "parse_time s = Some t"
  then obtain y m d h mi sec us where f: "Timetext.fields time_fields s = Some [y, m, d, h, mi, sec, us]"
    and ok: "1 \<le> m" "m \<le> 12" "1 \<le> d" "d \<le> days_in (is_leap y) m" "h < 24" "mi < 60" "sec < 60"
    and t: "t = day_number y m d * us_per_day + ((h * 60 + mi) * 60 + sec) * 1000000 + us"
    by (auto simp: parse_time_def split: option.splits list.splits if_splits)
  from f obtain s1 s2 s3 s4 s5 s6 where nf: "number_field 4 (CHR ''-'') s = Some (y, s1)" "number_field 2 (CHR ''-'') s1 = Some (m, s2)"
    "number_field 2 (CHR ''T'') s2 = Some (d, s3)" "number_field 2 (CHR '':'') s3 = Some (h, s4)"
    "number_field 2 (CHR '':'') s4 = Some (mi, s5)" "number_field 2 (CHR ''.'') s5 = Some (sec, s6)"
    "number_field 6 (CHR ''Z'') s6 = Some (us, [])"
    by (auto simp: time_fields_def simp del: number_field.simps split: option.splits if_splits)
  have sec: "fixed 2 s5 = Some (sec, CHR ''.'' # s6)"
    using number_field_then [OF nf(6)] by (auto simp: number_then_def literal_def split: option.splits list.splits if_splits)
  have "fixed 6 s6 = Some (us, ''Z'')"
    using number_field_then [OF nf(7)] by (auto simp: number_then_def literal_def split: option.splits list.splits if_splits)
  then have u: "unpad 0 (take 6 s6) = Some us" "drop 6 s6 = ''Z''" "length (take 6 s6) = 6"
    by (auto simp: fixed_def split: if_splits)
  define ds where "ds = take 6 s6"
  have ds: "s6 = ds @ ''Z''" "unpad 0 ds = Some us" "length ds = 6" using u append_take_drop_id [of 6 s6] by (simp_all add: ds_def)
  have "\<not> is_digit (CHR ''Z'')" by (simp add: is_digit_def undigit_def char_le_code)
  then have "takeWhile is_digit s6 = ds" "dropWhile is_digit s6 = ''Z''"
    using unpad_is_digit [OF ds(2)] by (auto simp: ds(1) takeWhile_append dropWhile_append)
  moreover have "ds \<noteq> []" using ds(3) by auto
  ultimately have "micros (CHR ''.'' # s6) = (Some us, ''Z'')"
    using ds by (simp add: micros_def)
  then show ?thesis
    using nf(1-5) [THEN number_field_then] sec ok
    by (simp add: parse_rfc3339_def hour_then_def zone_minutes_def t)
qed

section \<open>Reading an event back\<close>

definition IdentifierSet_UnmarshalJSON :: "((string \<times> json) list \<Rightarrow> (string \<times> json) list) \<Rightarrow> json \<Rightarrow> Identifier list option" where
  "IdentifierSet_UnmarshalJSON range_order data =
     (case unmarshalCompact range_order data of
        Inl e \<Rightarrow> None
      | Inr items \<Rightarrow> Some (map (\<lambda>(n, v). Identifier n v) items))"

definition MetadataSet_UnmarshalJSON :: "((string \<times> json) list \<Rightarrow> (string \<times> json) list) \<Rightarrow> json \<Rightarrow> Metadata list option" where
  "MetadataSet_UnmarshalJSON range_order data =
     (case unmarshalCompact range_order data of
        Inl e \<Rightarrow> None
      | Inr items \<Rightarrow> Some (map (\<lambda>(n, v). Metadata n v) items))"

text \<open>The struct \<open>Event.UnmarshalJSON\<close> decodes into; an unknown key is ignored.\<close>

record wire_event =
  we_sequence :: int
  we_time :: string
  we_type :: string
  we_identifiers :: "Identifier list"
  we_metadata :: "Metadata list"
  we_payload :: string

definition no_wire_event :: wire_event where
  "no_wire_event = \<lparr>we_sequence = 0, we_time = [], we_type = [], we_identifiers = [], we_metadata = [], we_payload = []\<rparr>"

definition wire_event_field :: "((string \<times> json) list \<Rightarrow> (string \<times> json) list) \<Rightarrow> string \<Rightarrow> json \<Rightarrow> wire_event \<Rightarrow> wire_event option" where
  "wire_event_field range_order k v r =
     (if is_field ''sequence'' k then map_option (\<lambda>n. r\<lparr>we_sequence := n\<rparr>) (decode_int (we_sequence r) v)
      else if is_field ''time'' k then map_option (\<lambda>s. r\<lparr>we_time := s\<rparr>) (decode_string (we_time r) v)
      else if is_field ''type'' k then map_option (\<lambda>s. r\<lparr>we_type := s\<rparr>) (decode_string (we_type r) v)
      else if is_field ''identifiers'' k then map_option (\<lambda>s. r\<lparr>we_identifiers := s\<rparr>) (IdentifierSet_UnmarshalJSON range_order v)
      else if is_field ''metadata'' k then map_option (\<lambda>s. r\<lparr>we_metadata := s\<rparr>) (MetadataSet_UnmarshalJSON range_order v)
      else if is_field ''payload'' k then map_option (\<lambda>s. r\<lparr>we_payload := s\<rparr>) (decode_string (we_payload r) v)
      else Some r)"

datatype event_json_error = NotAnEvent | InvalidTime string

definition Event_UnmarshalJSON :: "((string \<times> json) list \<Rightarrow> (string \<times> json) list) \<Rightarrow> json \<Rightarrow> event_json_error + Event" where
  "Event_UnmarshalJSON range_order data =
     (case decode_struct (wire_event_field range_order) no_wire_event data of
        None \<Rightarrow> Inl NotAnEvent
      | Some w \<Rightarrow>
          (case parse_rfc3339 (we_time w) of
             None \<Rightarrow> Inl (InvalidTime (we_time w))
           | Some t \<Rightarrow>
               Inr \<lparr>ev_sequence = we_sequence w, ev_time = t,
                 ev_data = \<lparr>ed_type = we_type w, ed_identifiers = we_identifiers w, ed_metadata = we_metadata w,
                   ed_payload = we_payload w\<rparr>\<rparr>))"

section \<open>The line of a read\<close>

definition appendReadEvent :: "string \<Rightarrow> ReadEvent \<Rightarrow> string" where
  "appendReadEvent dst ev =
     (let dst = dst @ ''{'' @ [dquote] @ ''sequence'' @ [dquote] @ '':'';
          dst = dst @ AppendInt (re_sequence ev);
          dst = dst @ '','' @ [dquote] @ ''time'' @ [dquote] @ '':'';
          dst = AppendString dst (re_time ev);
          dst = dst @ '','' @ [dquote] @ ''type'' @ [dquote] @ '':'';
          dst = AppendString dst (re_type ev);
          dst = dst @ '','' @ [dquote] @ ''identifiers'' @ [dquote] @ '':'';
          dst = dst @ re_identifiers ev;
          dst = dst @ '','' @ [dquote] @ ''metadata'' @ [dquote] @ '':'';
          dst = dst @ re_metadata ev;
          dst = dst @ '','' @ [dquote] @ ''payload'' @ [dquote] @ '':'';
          dst = AppendString dst (re_payload ev)
      in dst @ ''}'')"

text \<open>Text with nothing to escape is written as it is.\<close>

lemma json_escape_plain: "list_all (\<lambda>c. bc c < 0x80 \<and> plain_byte (bc c)) s \<Longrightarrow> json_escape s = s"
proof (induction s)
  case (Cons c s)
  then have "DecodeRune (c # s) = (bc c, 1)" by (simp add: DecodeRune.simps)
  with Cons json_escape_step [of "c # s" "bc c" 1] show ?case by (simp add: escape_rune_def)
qed simp

lemma marshal_plain: "list_all (\<lambda>c. bc c < 0x80 \<and> plain_byte (bc c)) s \<Longrightarrow> marshal_string s = dquote # s @ [dquote]"
  by (simp add: marshal_string_def AppendString_json_escape json_escape_plain)

lemma field_literals:
  "marshal_string ''sequence'' = dquote # ''sequence'' @ [dquote]" "marshal_string ''time'' = dquote # ''time'' @ [dquote]"
  "marshal_string ''type'' = dquote # ''type'' @ [dquote]" "marshal_string ''identifiers'' = dquote # ''identifiers'' @ [dquote]"
  "marshal_string ''metadata'' = dquote # ''metadata'' @ [dquote]" "marshal_string ''payload'' = dquote # ''payload'' @ [dquote]"
  by (rule marshal_plain, simp add: plain_byte_def bc_def)+

lemma AppendString_dst: "AppendString dst s = dst @ marshal_string s"
  by (simp add: marshal_string_def AppendString_json_escape)

text \<open>The line built by hand is the JSON of the event that was stored.\<close>

lemma appendReadEvent_stored: "appendReadEvent dst (scanEvent (row_of e)) = dst @ Event_MarshalJSON e"
  by (simp add: appendReadEvent_def Event_MarshalJSON_def scanEvent_def row_of_def AppendString_dst field_literals Let_def)

section \<open>What was sent is read back\<close>

text \<open>An event whose texts are valid UTF-8, as they are once they came through JSON.\<close>

definition event_text_ok :: "Event \<Rightarrow> bool" where
  "event_text_ok e \<longleftrightarrow>
     valid_utf8 (ed_type (ev_data e)) \<and> valid_utf8 (ed_payload (ev_data e)) \<and>
     list_all (\<lambda>(n, v). valid_utf8 n \<and> valid_utf8 v) (map id_pair (ed_identifiers (ev_data e))) \<and>
     list_all (\<lambda>(n, v). valid_utf8 n \<and> valid_utf8 v) (map md_pair (ed_metadata (ev_data e)))"

text \<open>A sequence that fits an \<open>int64\<close>, and a time from year 1 to year 9999.\<close>

definition event_range_ok :: "Event \<Rightarrow> bool" where
  "event_range_ok e \<longleftrightarrow>
     - max_i64 \<le> ev_sequence e \<and> ev_sequence e \<le> max_i64 \<and> 0 \<le> ev_time e \<and> ev_time e < 3652059 * us_per_day"

text \<open>The same event, with its tags maybe in another order: those of one name keep theirs.\<close>

definition same_event :: "Event \<Rightarrow> Event \<Rightarrow> bool" where
  "same_event e f \<longleftrightarrow>
     ev_sequence e = ev_sequence f \<and> ev_time e = ev_time f \<and>
     ed_type (ev_data e) = ed_type (ev_data f) \<and> ed_payload (ev_data e) = ed_payload (ev_data f) \<and>
     mset (ed_identifiers (ev_data e)) = mset (ed_identifiers (ev_data f)) \<and>
     mset (ed_metadata (ev_data e)) = mset (ed_metadata (ev_data f)) \<and>
     (\<forall>n. values_of (map id_pair (ed_identifiers (ev_data e))) n = values_of (map id_pair (ed_identifiers (ev_data f))) n) \<and>
     (\<forall>n. values_of (map md_pair (ed_metadata (ev_data e))) n = values_of (map md_pair (ed_metadata (ev_data f))) n)"

lemma same_event_row: "same_event e f \<Longrightarrow> row_of e = row_of f"
  using compact_tree_values [of "map id_pair (ed_identifiers (ev_data e))" "map id_pair (ed_identifiers (ev_data f))"]
    compact_tree_values [of "map md_pair (ed_metadata (ev_data e))" "map md_pair (ed_metadata (ev_data f))"]
  by (simp add: same_event_def row_of_def IdentifierSet_MarshalJSON_def MetadataSet_MarshalJSON_def marshalCompact_encode)

definition event_tree :: "Event \<Rightarrow> json" where
  "event_tree e =
     JObject
       [(''sequence'', JNumber (ev_sequence e)), (''time'', JString (format_time (ev_time e))),
        (''type'', JString (ed_type (ev_data e))), (''identifiers'', compact_tree (map id_pair (ed_identifiers (ev_data e)))),
        (''metadata'', compact_tree (map md_pair (ed_metadata (ev_data e)))), (''payload'', JString (ed_payload (ev_data e)))]"

lemma Event_MarshalJSON_tree: "Event_MarshalJSON e = encode (event_tree e)"
  by (simp add: Event_MarshalJSON_def event_tree_def IdentifierSet_MarshalJSON_def MetadataSet_MarshalJSON_def
      marshalCompact_encode)

lemma compact_tree_depth: "json_depth (compact_tree items) \<le> 2"
proof -
  have "foldr max (map (\<lambda>n. json_depth (value_json (values_of items n))) ns) 0 \<le> 1" for ns
  proof (induction ns)
    case (Cons n ns)
    have "foldr max (map (json_depth \<circ> JString) vs) 0 = 0" for vs by (induction vs) auto
    with Cons show ?case by (simp add: value_json_def)
  qed simp
  then show ?thesis by (simp add: compact_tree_def comp_def)
qed

lemma compact_tree_ok:
  assumes "list_all (\<lambda>(n, v). valid_utf8 n \<and> valid_utf8 v) items"
  shows "text_ok (compact_tree items)"
proof -
  have "v \<in> set (values_of items n) \<Longrightarrow> (n, v) \<in> set items" for n v by (force simp: values_of_def)
  with assms have ok: "list_all valid_utf8 (values_of items n)" for n by (fastforce simp: list_all_iff)
  have "text_ok (value_json (values_of items n))" if "n \<in> fst ` set items" for n
  proof -
    from that have "values_of items n \<noteq> []" by (simp add: values_of_Nil_iff)
    with ok [of n] show ?thesis by (auto simp: value_json_def list_all_iff)
  qed
  with assms show ?thesis by (auto simp: compact_tree_def list_all_iff)
qed

lemma format_time_text: "valid_utf8 (format_time t)"
proof (rule valid_utf8_ascii)
  have "bc c < 0x80" if "c \<in> set (pad k n)" for c k n using pad_digits [OF that] by (auto simp: bc_def)
  then show "list_all (\<lambda>c. bc c < 0x80) (format_time t)"
    by (auto simp: format_time_def Let_def list_all_iff bc_def simp del: pad.simps split: prod.split)
qed

lemma event_tree_ok: "event_text_ok e \<Longrightarrow> text_ok (event_tree e) \<and> json_depth (event_tree e) \<le> max_depth"
proof -
  assume "event_text_ok e"
  moreover have "list_all (\<lambda>c. bc c < 0x80) s \<Longrightarrow> valid_utf8 s" for s by (rule valid_utf8_ascii)
  then have "valid_utf8 ''sequence''" "valid_utf8 ''time''" "valid_utf8 ''type''" "valid_utf8 ''identifiers''"
    "valid_utf8 ''metadata''" "valid_utf8 ''payload''" by (simp_all add: bc_def)
  ultimately show ?thesis
    using compact_tree_depth [of "map id_pair (ed_identifiers (ev_data e))"] compact_tree_depth [of "map md_pair (ed_metadata (ev_data e))"]
    by (simp add: event_tree_def event_text_ok_def compact_tree_ok format_time_text max_depth_def)
qed

lemma unmarshal_identifiers:
  assumes "\<And>kvs. mset (range_order kvs) = mset kvs"
  obtains ids' where "IdentifierSet_UnmarshalJSON range_order (compact_tree (map id_pair ids)) = Some ids'" "mset ids' = mset ids"
    "\<And>n. values_of (map id_pair ids') n = values_of (map id_pair ids) n"
proof -
  obtain out where out: "unmarshalCompact range_order (compact_tree (map id_pair ids)) = Inr out" "mset out = mset (map id_pair ids)"
    "\<And>n. values_of out n = values_of (map id_pair ids) n"
    using unmarshalCompact_compact_tree [of range_order "map id_pair ids"] assms by blast
  let ?mk = "\<lambda>(n, v). Identifier n v"
  have inv: "map id_pair (map ?mk out) = out" by (induction out) (auto simp: id_pair_def)
  have "map ?mk (map id_pair ids) = ids" by (induction ids) (auto simp: id_pair_def)
  then have "mset (map ?mk out) = mset ids" using out(2) by (metis mset_map)
  then show ?thesis
    by (intro that [of "map ?mk out"]) (simp_all only: inv out(3), simp add: IdentifierSet_UnmarshalJSON_def out(1))
qed

lemma unmarshal_metadata:
  assumes "\<And>kvs. mset (range_order kvs) = mset kvs"
  obtains mds' where "MetadataSet_UnmarshalJSON range_order (compact_tree (map md_pair mds)) = Some mds'" "mset mds' = mset mds"
    "\<And>n. values_of (map md_pair mds') n = values_of (map md_pair mds) n"
proof -
  obtain out where out: "unmarshalCompact range_order (compact_tree (map md_pair mds)) = Inr out" "mset out = mset (map md_pair mds)"
    "\<And>n. values_of out n = values_of (map md_pair mds) n"
    using unmarshalCompact_compact_tree [of range_order "map md_pair mds"] assms by blast
  let ?mk = "\<lambda>(n, v). Metadata n v"
  have inv: "map md_pair (map ?mk out) = out" by (induction out) (auto simp: md_pair_def)
  have "map ?mk (map md_pair mds) = mds" by (induction mds) (auto simp: md_pair_def)
  then have "mset (map ?mk out) = mset mds" using out(2) by (metis mset_map)
  then show ?thesis
    by (intro that [of "map ?mk out"]) (simp_all only: inv out(3), simp add: MetadataSet_UnmarshalJSON_def out(1))
qed

lemma wire_event_fields:
  "wire_event_field range_order ''sequence'' v r = map_option (\<lambda>n. r\<lparr>we_sequence := n\<rparr>) (decode_int (we_sequence r) v)"
  "wire_event_field range_order ''time'' v r = map_option (\<lambda>s. r\<lparr>we_time := s\<rparr>) (decode_string (we_time r) v)"
  "wire_event_field range_order ''type'' v r = map_option (\<lambda>s. r\<lparr>we_type := s\<rparr>) (decode_string (we_type r) v)"
  "wire_event_field range_order ''identifiers'' v r =
     map_option (\<lambda>s. r\<lparr>we_identifiers := s\<rparr>) (IdentifierSet_UnmarshalJSON range_order v)"
  "wire_event_field range_order ''metadata'' v r = map_option (\<lambda>s. r\<lparr>we_metadata := s\<rparr>) (MetadataSet_UnmarshalJSON range_order v)"
  "wire_event_field range_order ''payload'' v r = map_option (\<lambda>s. r\<lparr>we_payload := s\<rparr>) (decode_string (we_payload r) v)"
  by (simp_all add: wire_event_field_def is_field_def fold_byte_def bc_def byte_def)

text \<open>The JSON of an event, parsed and decoded, is that event.\<close>

lemma event_read_back:
  assumes "event_text_ok e" "event_range_ok e" "\<And>kvs. mset (range_order kvs) = mset kvs"
  obtains e' where "Event_UnmarshalJSON range_order (event_tree e) = Inr e'" "same_event e' e"
    "parse_json (Event_MarshalJSON e) = Some (event_tree e)"
proof -
  obtain ids' where ids: "IdentifierSet_UnmarshalJSON range_order (compact_tree (map id_pair (ed_identifiers (ev_data e)))) = Some ids'"
    "mset ids' = mset (ed_identifiers (ev_data e))"
    "\<And>n. values_of (map id_pair ids') n = values_of (map id_pair (ed_identifiers (ev_data e))) n"
    using unmarshal_identifiers [OF assms(3)] by metis
  obtain mds' where mds: "MetadataSet_UnmarshalJSON range_order (compact_tree (map md_pair (ed_metadata (ev_data e)))) = Some mds'"
    "mset mds' = mset (ed_metadata (ev_data e))"
    "\<And>n. values_of (map md_pair mds') n = values_of (map md_pair (ed_metadata (ev_data e))) n"
    using unmarshal_metadata [OF assms(3)] by metis
  have time: "parse_rfc3339 (format_time (ev_time e)) = Some (ev_time e)"
    by (rule parse_rfc3339_layout, rule parse_format_time) (use assms(2) in \<open>auto simp: event_range_ok_def\<close>)
  have range: "- max_i64 - 1 \<le> ev_sequence e" "ev_sequence e \<le> max_i64" using assms(2) by (auto simp: event_range_ok_def)
  define e' where "e' = e\<lparr>ev_data := (ev_data e)\<lparr>ed_identifiers := ids', ed_metadata := mds'\<rparr>\<rparr>"
  have "Event_UnmarshalJSON range_order (event_tree e) = Inr e'"
    using range by (simp add: Event_UnmarshalJSON_def event_tree_def wire_event_fields no_wire_event_def
        ids(1) mds(1) time e'_def)
  moreover have "same_event e' e" using ids mds by (simp add: same_event_def e'_def)
  moreover have "parse_json (Event_MarshalJSON e) = Some (event_tree e)"
    using parse_encode event_tree_ok [OF assms(1)] by (simp add: Event_MarshalJSON_tree)
  ultimately show thesis by (rule that)
qed

section \<open>Properties\<close>

text \<open>C20. The JSON of an event, as a read sends it, is parsed and decoded as the same event: position,
  time, type and payload, and the identifiers and metadata, those of one name in their order. The
  event has text in UTF-8, a position of 64 bits and a time of the years 1 to 9999, and the order in
  which a map is read is any.\<close>

theorem event_json_roundtrip:
  assumes "event_text_ok e" "event_range_ok e" "\<And>kvs. mset (range_order kvs) = mset kvs"
  shows "case parse_json (Event_MarshalJSON e) of
      None \<Rightarrow> False
    | Some j \<Rightarrow> (case Event_UnmarshalJSON range_order j of Inl err \<Rightarrow> False | Inr e' \<Rightarrow> same_event e' e)"
  by (rule event_read_back [OF assms]) simp

theorem event_json_roundtrip_witness:
  "(let e = \<lparr>ev_sequence = 7, ev_time = 5, ev_data = \<lparr>ed_type = ''T'', ed_identifiers = [Identifier ''a'' ''x'', Identifier ''a'' ''y''],
        ed_metadata = [Metadata ''m'' ''z''], ed_payload = ''p''\<rparr>\<rparr>
    in \<exists>j e'. parse_json (Event_MarshalJSON e) = Some j \<and> Event_UnmarshalJSON rev j = Inr e' \<and> same_event e' e)"
proof -
  let ?e = "\<lparr>ev_sequence = 7, ev_time = 5, ev_data = \<lparr>ed_type = ''T'', ed_identifiers = [Identifier ''a'' ''x'', Identifier ''a'' ''y''],
        ed_metadata = [Metadata ''m'' ''z''], ed_payload = ''p''\<rparr>\<rparr>"
  have "event_text_ok ?e" by (simp add: event_text_ok_def id_pair_def md_pair_def valid_utf8_ascii bc_def)
  moreover have "event_range_ok ?e" by (simp add: event_range_ok_def us_per_day_def)
  ultimately show ?thesis
    using event_json_roundtrip [of ?e rev] by (auto split: option.splits sum.splits)
qed

end
