(* ===== verification/Dbfile.thy ===== *)
theory Dbfile
  imports Storelog Timetext
begin

text \<open>
  The database file (\<open>Open\<close> and \<open>Close\<close> of \<open>internal/store/sqlite.go\<close>, and \<open>schema.go\<close>,
  \<open>lock.go\<close>, \<open>migrate.go\<close>): its lock, its schema and version, what a store resumes from, and
  the migration. \<open>io\<close> says which operations on files fail, for a reason of the operating
  system, \<open>faults\<close> which statements do.
\<close>

section \<open>The file\<close>

text \<open>\<open>f_tables\<close> is \<open>None\<close> while the file holds no schema. A file another process has open is locked.\<close>

record dbfile =
  f_exists :: bool
  f_tables :: "tables option"
  f_version :: int
  f_locked :: bool

definition no_file :: dbfile where
  "no_file = \<lparr>f_exists = False, f_tables = None, f_version = 0, f_locked = False\<rparr>"

datatype io_op = OpenLockFile | Flock | CreateFile

type_synonym io = "io_op \<Rightarrow> bool"

definition schemaVersion :: int where "schemaVersion = 0"

definition acquireLock :: "io \<Rightarrow> dbfile \<Rightarrow> store_error + dbfile" where
  "acquireLock io f =
     (if io OpenLockFile then Inl FileError
      else if f_locked f then Inl ErrDatabaseLocked
      else if io Flock then Inl FileError
      else Inr (f\<lparr>f_locked := True\<rparr>))"

definition releaseLock :: "dbfile \<Rightarrow> dbfile" where
  "releaseLock f = f\<lparr>f_locked := False\<rparr>"

text \<open>An empty file is a new database, at version 0.\<close>

definition createPrivate :: "io \<Rightarrow> dbfile \<Rightarrow> store_error + dbfile" where
  "createPrivate io f =
     (if f_exists f then Inr f
      else if io CreateFile then Inl FileError
      else Inr (f\<lparr>f_exists := True, f_tables := None, f_version := 0\<rparr>))"

section \<open>Statements on a file\<close>

text \<open>The file as the connection sees it, and how many statements it ran.\<close>

type_synonym fconn = "dbfile \<times> nat"

definition frun :: "faults \<Rightarrow> (dbfile \<Rightarrow> sql_error + 'a \<times> dbfile) \<Rightarrow> fconn \<Rightarrow> store_error + 'a \<times> fconn" where
  "frun faults stmt c =
     (case faults (snd c) of
        Some e \<Rightarrow> Inl (Sql e)
      | None \<Rightarrow> (case stmt (fst c) of Inl e \<Rightarrow> Inl (Sql e) | Inr (x, f) \<Rightarrow> Inr (x, (f, Suc (snd c)))))"

definition fquery :: "faults \<Rightarrow> (dbfile \<Rightarrow> 'a) \<Rightarrow> fconn \<Rightarrow> store_error + 'a \<times> fconn" where
  "fquery faults get = frun faults (\<lambda>f. Inr (get f, f))"

definition fupdate :: "faults \<Rightarrow> (dbfile \<Rightarrow> dbfile) \<Rightarrow> fconn \<Rightarrow> store_error + unit \<times> fconn" where
  "fupdate faults put = frun faults (\<lambda>f. Inr ((), put f))"

section \<open>The schema\<close>

definition createSchema :: "faults \<Rightarrow> fconn \<Rightarrow> store_error + unit \<times> fconn" where
  "createSchema faults c =
     bind_err (fupdate faults id c) (\<lambda>(_, c1).
     bind_err (fupdate faults (\<lambda>f. f\<lparr>f_tables := Some empty_tables\<rparr>) c1) (\<lambda>(_, c2).
     bind_err (fupdate faults id c2) (\<lambda>(_, c3).
     bind_err (fupdate faults (\<lambda>f. f\<lparr>f_version := schemaVersion\<rparr>) c3) (\<lambda>(_, c4).
     fupdate faults id c4))))"

definition ensureSchema :: "faults \<Rightarrow> fconn \<Rightarrow> store_error + unit \<times> fconn" where
  "ensureSchema faults c =
     bind_err (fquery faults (\<lambda>f. f_tables f = None) c) (\<lambda>(no_objects, c1).
     if no_objects then createSchema faults c1
     else
       bind_err (fquery faults f_version c1) (\<lambda>(version, c2).
       if version \<noteq> schemaVersion then Inl (SchemaVersionError version schemaVersion)
       else Inr ((), c2)))"

definition file_tables :: "dbfile \<Rightarrow> tables" where
  "file_tables f = (case f_tables f of None \<Rightarrow> empty_tables | Some db \<Rightarrow> db)"

section \<open>Open and Close\<close>

definition readPausedAt :: "faults \<Rightarrow> fconn \<Rightarrow> store_error + gotime \<times> fconn" where
  "readPausedAt faults c =
     bind_err (fquery faults (\<lambda>f. t_paused_at (file_tables f)) c) (\<lambda>(at, c1).
     case at of
       None \<Rightarrow> Inr (0, c1)
     | Some s \<Rightarrow> (case parse_time s of None \<Rightarrow> Inl BadPauseTime | Some t \<Rightarrow> Inr (t, c1)))"

text \<open>
  Once the file is locked and there: both pools are tried, the schema is ensured (a new schema
  is then in the file, whatever comes next), and the store resumes from what the file holds.
\<close>

definition open_steps :: "faults \<Rightarrow> dbfile \<Rightarrow> (store_error + Store) \<times> dbfile" where
  "open_steps faults f =
     (case bind_err (fupdate faults id (f, 0)) (\<lambda>(_, c). fupdate faults id c) of
        Inl e \<Rightarrow> (Inl e, f)
      | Inr (_, c) \<Rightarrow>
          (case ensureSchema faults c of
             Inl e \<Rightarrow> (Inl e, f)
           | Inr (_, c1) \<Rightarrow>
               (case bind_err (fquery faults (\<lambda>f. max_sequence (file_tables f)) c1) (\<lambda>(maxSeq, c2).
                     bind_err (readPausedAt faults c2) (\<lambda>(pausedAt, _). Inr (maxSeq, pausedAt))) of
                  Inl e \<Rightarrow> (Inl e, fst c1)
                | Inr (maxSeq, pausedAt) \<Rightarrow>
                    (Inr \<lparr>st_db = file_tables (fst c1), st_nextSeq = i64 (maxSeq + 1), st_pausedAt = pausedAt\<rparr>,
                     fst c1))))"

definition Open :: "io \<Rightarrow> faults \<Rightarrow> dbfile \<Rightarrow> (store_error + Store) \<times> dbfile" where
  "Open io faults f =
     (case acquireLock io f of
        Inl e \<Rightarrow> (Inl e, f)
      | Inr f1 \<Rightarrow>
          (case createPrivate io f1 of
             Inl e \<Rightarrow> (Inl e, releaseLock f1)
           | Inr f2 \<Rightarrow>
               (case open_steps faults f2 of
                  (Inl e, f3) \<Rightarrow> (Inl e, releaseLock f3)
                | (Inr s, f3) \<Rightarrow> (Inr s, f3))))"

text \<open>
  Closing the store, or the end of its process: the file holds what the store committed, and its
  lock is free.
\<close>

definition Close :: "Store \<Rightarrow> dbfile \<Rightarrow> dbfile" where
  "Close s f = releaseLock (f\<lparr>f_tables := Some (st_db s)\<rparr>)"

section \<open>Migration\<close>

definition has_orphan :: "dbfile \<Rightarrow> bool" where
  "has_orphan f =
     (let db = file_tables f in list_ex (\<lambda>row. \<not> references_event db row) (t_identifiers db @ t_metadata db))"

definition checkForeignKeys :: "faults \<Rightarrow> fconn \<Rightarrow> store_error + unit \<times> fconn" where
  "checkForeignKeys faults c =
     bind_err (fquery faults has_orphan c) (\<lambda>(orphan, c1). if orphan then Inl MissingRow else Inr ((), c1))"

text \<open>The transaction of a migration. \<open>None\<close> is the empty migration.\<close>

definition migration_steps :: "faults \<Rightarrow> int \<Rightarrow> (tables \<Rightarrow> sql_error + tables) option \<Rightarrow> fconn \<Rightarrow>
    store_error + unit \<times> fconn" where
  "migration_steps faults want migration c =
     bind_err (fupdate faults id c) (\<lambda>(_, c1).
     bind_err
       (case migration of
          None \<Rightarrow> Inr ((), c1)
        | Some m \<Rightarrow> frun faults (\<lambda>f. case m (file_tables f) of Inl e \<Rightarrow> Inl e | Inr db \<Rightarrow> Inr ((), f\<lparr>f_tables := Some db\<rparr>)) c1)
       (\<lambda>(_, c2).
     bind_err (fupdate faults (\<lambda>f. f\<lparr>f_version := want\<rparr>) c2) (\<lambda>(_, c3).
     bind_err (checkForeignKeys faults c3) (\<lambda>(_, c4).
     fupdate faults id c4))))"

record migrated =
  mg_from :: int
  mg_to :: int
  mg_error :: "store_error option"

text \<open>What comes once the file is locked: it is left as it was unless the transaction commits.\<close>

definition migrate_locked :: "faults \<Rightarrow> dbfile \<Rightarrow> int \<Rightarrow> (tables \<Rightarrow> sql_error + tables) option \<Rightarrow> migrated \<times> dbfile" where
  "migrate_locked faults f want migration =
     (case fquery faults (\<lambda>f. f_tables f = None) (f, 0) of
        Inl e \<Rightarrow> (\<lparr>mg_from = 0, mg_to = 0, mg_error = Some e\<rparr>, f)
      | Inr (no_objects, c) \<Rightarrow>
          if no_objects then (\<lparr>mg_from = 0, mg_to = 0, mg_error = Some NoSchema\<rparr>, f)
          else
            (case fquery faults f_version c of
               Inl e \<Rightarrow> (\<lparr>mg_from = 0, mg_to = 0, mg_error = Some e\<rparr>, f)
             | Inr (from, c1) \<Rightarrow>
                 if from = want then (\<lparr>mg_from = from, mg_to = want, mg_error = None\<rparr>, f)
                 else if want = 0 \<or> from \<noteq> want - 1
                 then (\<lparr>mg_from = from, mg_to = from, mg_error = Some (SchemaVersionError from want)\<rparr>, f)
                 else
                   (case migration_steps faults want migration c1 of
                      Inl e \<Rightarrow> (\<lparr>mg_from = from, mg_to = from, mg_error = Some e\<rparr>, f)
                    | Inr (_, c2) \<Rightarrow> (\<lparr>mg_from = from, mg_to = want, mg_error = None\<rparr>, fst c2))))"

definition migrate :: "io \<Rightarrow> faults \<Rightarrow> dbfile \<Rightarrow> int \<Rightarrow> (tables \<Rightarrow> sql_error + tables) option \<Rightarrow> migrated \<times> dbfile" where
  "migrate io faults f want migration =
     (if \<not> f_exists f then (\<lparr>mg_from = 0, mg_to = 0, mg_error = Some FileError\<rparr>, f)
      else
        (case acquireLock io f of
           Inl e \<Rightarrow> (\<lparr>mg_from = 0, mg_to = 0, mg_error = Some e\<rparr>, f)
         | Inr f1 \<Rightarrow> (case migrate_locked faults f1 want migration of (r, f2) \<Rightarrow> (r, releaseLock f2))))"

definition Migrate :: "io \<Rightarrow> faults \<Rightarrow> dbfile \<Rightarrow> migrated \<times> dbfile" where
  "Migrate io faults f = migrate io faults f schemaVersion None"

section \<open>What Open leaves\<close>

lemma frun_Inr: "frun faults stmt c = Inr (x, c') \<longleftrightarrow>
    faults (snd c) = None \<and> (\<exists>f. stmt (fst c) = Inr (x, f) \<and> c' = (f, Suc (snd c)))"
  by (auto simp: frun_def split: option.splits sum.splits)

lemma fquery_Inr [simp]: "fquery faults get c = Inr (x, c') \<longleftrightarrow>
    faults (snd c) = None \<and> x = get (fst c) \<and> c' = (fst c, Suc (snd c))"
  by (auto simp: fquery_def frun_Inr)

lemma fupdate_Inr [simp]: "fupdate faults put c = Inr (x, c') \<longleftrightarrow>
    faults (snd c) = None \<and> c' = (put (fst c), Suc (snd c))"
  by (auto simp: fupdate_def frun_Inr)

lemma fquery_no_faults [simp]: "fquery no_faults get c = Inr (get (fst c), (fst c, Suc (snd c)))"
  by simp

lemma fupdate_no_faults [simp]: "fupdate no_faults put c = Inr ((), (put (fst c), Suc (snd c)))"
  by simp

text \<open>A second process is turned away, and touches nothing.\<close>

lemma Open_locked:
  assumes "f_locked f" "\<not> io OpenLockFile"
  shows "Open io faults f = (Inl ErrDatabaseLocked, f)"
  using assms by (simp add: Open_def acquireLock_def)

lemma migrate_locked_out:
  assumes "f_locked f" "\<not> io OpenLockFile" "f_exists f"
  shows "migrate io faults f want migration = (\<lparr>mg_from = 0, mg_to = 0, mg_error = Some ErrDatabaseLocked\<rparr>, f)"
  using assms by (simp add: migrate_def acquireLock_def)

lemma ensureSchema_Inr:
  "ensureSchema faults (f, n) = Inr ((), c) \<Longrightarrow>
     (f_tables f \<noteq> None \<and> f_version f = schemaVersion \<and> fst c = f) \<or>
     (f_tables f = None \<and> fst c = f\<lparr>f_tables := Some empty_tables, f_version := schemaVersion\<rparr>)"
  by (auto simp: ensureSchema_def createSchema_def bind_err_iffs split: if_splits)

lemma open_steps_Inr:
  assumes "open_steps faults f = (Inr s, f')"
  shows "((f_tables f \<noteq> None \<and> f_version f = schemaVersion \<and> f' = f) \<or>
      (f_tables f = None \<and> f' = f\<lparr>f_tables := Some empty_tables, f_version := schemaVersion\<rparr>)) \<and>
    st_db s = file_tables f' \<and> st_nextSeq s = i64 (max_sequence (file_tables f') + 1) \<and>
    (case t_paused_at (file_tables f') of None \<Rightarrow> st_pausedAt s = 0 | Some t \<Rightarrow> parse_time t = Some (st_pausedAt s))"
  using assms
  by (auto simp: open_steps_def readPausedAt_def bind_err_iffs dest!: ensureSchema_Inr
      split: sum.splits option.splits prod.splits)

lemma open_steps_Inl:
  assumes "open_steps faults f = (Inl e, f')"
  shows "f' = f \<or> f_tables f = None \<and> f' = f\<lparr>f_tables := Some empty_tables, f_version := schemaVersion\<rparr>"
  using assms
  by (auto simp: open_steps_def bind_err_iffs dest!: ensureSchema_Inr split: sum.splits prod.splits)

text \<open>
  A store opened on a file that holds a log continues it: the counter starts right after the last
  position in the file, and the file is at this version of the schema.
\<close>

lemma Open_resumes:
  assumes run: "Open io faults f = (Inr s, f')"
    and log: "db_log (file_tables f) evs" "\<forall>e\<in>set evs. 0 < ev_sequence e \<and> ev_sequence e < max_i64"
  shows "store_rep s \<lparr>sp_log = (if f_exists f then evs else []), sp_next = last_position (if f_exists f then evs else []) + 1,
      sp_projections = t_projections (st_db s)\<rparr> \<and> f_locked f' \<and> f_version f' = schemaVersion"
proof -
  let ?evs = "if f_exists f then evs else []"
  define f2 where "f2 = (if f_exists f then f\<lparr>f_locked := True\<rparr>
      else f\<lparr>f_locked := True, f_exists := True, f_tables := None, f_version := 0\<rparr>)"
  have f2: "open_steps faults f2 = (Inr s, f')"
    using run by (auto simp: Open_def acquireLock_def createPrivate_def f2_def split: if_splits sum.splits prod.splits)
  have tables: "file_tables f2 = (if f_exists f then file_tables f else empty_tables)"
    by (simp add: f2_def file_tables_def)
  from open_steps_Inr [OF f2] have s: "file_tables f' = file_tables f2" "st_db s = file_tables f2"
    "st_nextSeq s = i64 (max_sequence (file_tables f2) + 1)" "f_version f' = schemaVersion" "f_locked f'"
    by (cases "f_exists f"; auto simp: file_tables_def f2_def split: option.splits)+
  have db: "db_log (file_tables f2) ?evs" using log(1) empty_db_log by (simp add: tables)
  have evs: "\<forall>e\<in>set ?evs. 0 < ev_sequence e \<and> ev_sequence e < max_i64" using log(2) by simp
  have max: "max_sequence (file_tables f2) = last_position ?evs"
    using max_sequence_log [OF db] evs by (simp add: last_position_def)
  have last: "0 \<le> last_position ?evs" "last_position ?evs < max_i64"
    using evs last_in_set [of ?evs] unfolding last_position_def by (auto simp del: last_in_set intro: less_imp_le)
  have "ev_sequence e < last_position ?evs + 1" if "e \<in> set ?evs" for e
    using that sorted_le_last [of "map ev_sequence ?evs" "ev_sequence e"] db
    by (auto simp: last_position_def last_map db_log_def strict_sorted_iff)
  then show ?thesis
    using db evs last s max by (auto simp: store_rep_def i64_id)
qed

lemma Open_file_exists: "Open io faults f = (Inr st, f') \<Longrightarrow> f_exists f'"
  by (auto simp: Open_def acquireLock_def createPrivate_def open_steps_def ensureSchema_def createSchema_def
      frun_def fquery_def fupdate_def readPausedAt_def bind_err_iffs split: if_splits sum.splits prod.splits option.splits)

text \<open>Closing a store and opening its file again keeps the log, the projections and the pause.\<close>

lemma Open_after_Close:
  assumes rep: "store_rep s a" and pause: "pause_rep s" "0 \<le> st_pausedAt s" "st_pausedAt s < 3652059 * us_per_day"
    and f: "f_exists f" "f_version f = schemaVersion" and io: "\<forall>op. \<not> io op"
  shows "\<exists>s' f'. Open io no_faults (Close s f) = (Inr s', f') \<and>
    store_rep s' (a\<lparr>sp_next := last_position (sp_log a) + 1\<rparr>) \<and> PausedAt s' = PausedAt s \<and> pause_rep s'"
proof -
  have "parse_time (format_time (st_pausedAt s)) = Some (st_pausedAt s)"
    by (rule parse_format_time [OF pause(2,3)])
  then obtain s' f' where open': "Open io no_faults (Close s f) = (Inr s', f')" and
    s': "st_db s' = st_db s" "st_pausedAt s' = st_pausedAt s"
    using f io pause(1)
    by (auto simp: Open_def acquireLock_def createPrivate_def Close_def releaseLock_def open_steps_def ensureSchema_def
        readPausedAt_def file_tables_def pause_rep_def IsZero_def split: if_splits)
  have "store_rep s' \<lparr>sp_log = sp_log a, sp_next = last_position (sp_log a) + 1, sp_projections = t_projections (st_db s')\<rparr>"
    using Open_resumes [OF open', of "sp_log a"] rep f(1)
    by (force simp: Close_def releaseLock_def file_tables_def store_rep_def)
  then show ?thesis
    using open' s' pause(1) rep by (auto simp: store_rep_def PausedAt_def pause_rep_def)
qed

section \<open>What Migrate leaves\<close>

text \<open>
  A migration that fails leaves the file as it was. One that succeeds leaves it at the wanted
  version: untouched if it was there already, migrated from the version before it otherwise, and
  then with no tag of a missing event.
\<close>

lemma migration_steps_Inr:
  assumes "migration_steps faults want migration (f, n) = Inr ((), c)"
  shows "f_version (fst c) = want \<and> \<not> has_orphan (fst c) \<and> f_locked (fst c) = f_locked f \<and> f_exists (fst c) = f_exists f"
  using assms
  by (auto simp: migration_steps_def checkForeignKeys_def bind_err_iffs frun_Inr split: option.splits sum.splits if_splits)

lemma migrate_cases:
  assumes "migrate io faults f want migration = (r, f')" "\<not> f_locked f"
  shows "(mg_error r \<noteq> None \<longrightarrow> f' = f) \<and>
    (mg_error r = None \<longrightarrow> f_version f' = want \<and> mg_from r = f_version f \<and> mg_to r = want \<and>
       (f_version f = want \<and> f' = f \<or>
        want \<noteq> 0 \<and> f_version f = want - 1 \<and> \<not> has_orphan f' \<and> \<not> f_locked f'))"
proof -
  have f: "f\<lparr>f_locked := False\<rparr> = f" using assms(2) by (cases f) simp
  have orphan: "has_orphan (releaseLock g) = has_orphan g" for g
    by (simp add: has_orphan_def releaseLock_def file_tables_def)
  show ?thesis
    using assms migration_steps_Inr f
    by (auto simp: migrate_def acquireLock_def migrate_locked_def releaseLock_def [of "f\<lparr>f_locked := True\<rparr>"] orphan
        split: if_splits sum.splits prod.splits) (auto simp: releaseLock_def)
qed

section \<open>Properties\<close>

text \<open>One process per file: while another process holds the lock, \<open>Open\<close> and \<open>Migrate\<close> fail with
  \<open>ErrDatabaseLocked\<close> and change nothing.\<close>

lemma one_process_per_file:
  assumes "f_locked f" "f_exists f" "\<not> io OpenLockFile"
  shows "Open io faults f = (Inl ErrDatabaseLocked, f) \<and>
    migrate io faults f want migration = (\<lparr>mg_from = 0, mg_to = 0, mg_error = Some ErrDatabaseLocked\<rparr>, f)"
  using Open_locked migrate_locked_out assms by blast

text \<open>C24. What a store holds survives a restart: opening the file that a store was closed to gives a store
  with the same events, the same projections and the same pause, whose next position comes after
  the last stored event.\<close>

theorem restart_roundtrip:
  assumes "store_rep s a" "pause_rep s" "0 \<le> st_pausedAt s" "st_pausedAt s < 3652059 * us_per_day"
    and "f_exists f" "f_version f = schemaVersion" "\<forall>op. \<not> io op"
  shows "\<exists>s' f'. Open io no_faults (Close s f) = (Inr s', f') \<and>
    store_rep s' (a\<lparr>sp_next := last_position (sp_log a) + 1\<rparr>) \<and> PausedAt s' = PausedAt s \<and> pause_rep s'"
  using Open_after_Close assms by blast

theorem restart_roundtrip_witness:
  "\<exists>s' f'. Open (\<lambda>_. False) no_faults (Close new_store \<lparr>f_exists = True, f_tables = Some empty_tables,
     f_version = schemaVersion, f_locked = True\<rparr>) = (Inr s', f') \<and> store_rep s' new_spec"
proof -
  have "pause_rep new_store" by (simp add: pause_rep_def new_store_def IsZero_def empty_tables_def)
  from restart_roundtrip [OF new_store_rep this, of "\<lparr>f_exists = True, f_tables = Some empty_tables,
     f_version = schemaVersion, f_locked = True\<rparr>" "\<lambda>_. False"] show ?thesis
    by (auto simp: new_store_def new_spec_def us_per_day_def last_position_def)
qed



end
