(* ===== verification/Fifo.thy ===== *)
theory Fifo
  imports Prelude "HOL-Library.Word"
begin

text \<open>
  The FIFO of the writes (\<open>internal/queue\<close>): a ticket line. The Manager's fields keep their
  width: tickets are 64-bit and wrap. Each function of the package that holds the mutex is one
  function here, and \<open>line_step\<close> interleaves them: \<open>Join\<close> takes a ticket and either gets the
  turn or waits, and a waiting \<open>Join\<close> checks again each time it is woken.
\<close>

section \<open>The Manager\<close>

type_synonym ticket = "64 word"

record Manager =
  m_closed :: bool
  m_next :: ticket
  m_served :: ticket
  m_maxQueued :: int

datatype queue_error = ErrClosed | ErrFull

definition Manager_New :: "int \<Rightarrow> Manager" where
  "Manager_New maxQueued = \<lparr>m_closed = False, m_next = 0, m_served = 0, m_maxQueued = maxQueued\<rparr>"

definition Manager_Close :: "Manager \<Rightarrow> Manager" where
  "Manager_Close m = m\<lparr>m_closed := True\<rparr>"

definition waiting :: "Manager \<Rightarrow> int" where
  "waiting m = (if m_next m = m_served m then 0 else sint (m_next m - m_served m - 1))"

text \<open>\<open>Join\<close> up to its loop: the ticket it took, or why it takes none.\<close>

definition Join_enter :: "Manager \<Rightarrow> queue_error + ticket \<times> Manager" where
  "Join_enter m =
     (if m_closed m then Inl ErrClosed
      else if m_maxQueued m > 0 \<and> waiting m \<ge> m_maxQueued m then Inl ErrFull
      else Inr (m_next m, m\<lparr>m_next := m_next m + 1\<rparr>))"

datatype join_check = KeepWaiting | TurnedAway queue_error | GotTurn

text \<open>Its loop, once: what it does each time it holds the mutex again.\<close>

definition Join_check :: "Manager \<Rightarrow> ticket \<Rightarrow> join_check" where
  "Join_check m t =
     (if t \<noteq> m_served m \<and> \<not> m_closed m then KeepWaiting
      else if t \<noteq> m_served m then TurnedAway ErrClosed
      else GotTurn)"

definition done_turn :: "Manager \<Rightarrow> Manager" where
  "done_turn m = m\<lparr>m_served := m_served m + 1\<rparr>"

text \<open>\<open>Turn.Done\<close>: only the first call of a turn gives it on. The flag is its \<open>sync.Once\<close>.\<close>

definition Turn_Done :: "bool \<Rightarrow> Manager \<Rightarrow> bool \<times> Manager" where
  "Turn_Done called m = (if called then (called, m) else (True, done_turn m))"

section \<open>Requests in the line\<close>

text \<open>
  What a request is doing: nothing, waiting with a ticket, holding a turn (with its \<open>Once\<close>), or
  turned away.
\<close>

datatype request = Outside | Queued ticket | Holding bool | Refused queue_error

text \<open>
  The line, with its history: who took each ticket, in order, who got the turn, in order, and how
  many turns have ended.
\<close>

record line =
  l_mgr :: Manager
  l_req :: "nat \<Rightarrow> request"
  l_joined :: "nat list"
  l_granted :: "nat list"
  l_ended :: nat

text \<open>A request looks at the Manager, with its ticket.\<close>

definition look :: "nat \<Rightarrow> ticket \<Rightarrow> line \<Rightarrow> line" where
  "look r t l =
     (case Join_check (l_mgr l) t of
        KeepWaiting \<Rightarrow> l\<lparr>l_req := (l_req l)(r := Queued t)\<rparr>
      | TurnedAway e \<Rightarrow> l\<lparr>l_req := (l_req l)(r := Refused e)\<rparr>
      | GotTurn \<Rightarrow> l\<lparr>l_req := (l_req l)(r := Holding False), l_granted := l_granted l @ [r]\<rparr>)"

inductive line_step :: "line \<Rightarrow> line \<Rightarrow> bool" where
  join: "l_req l r = Outside \<Longrightarrow> Join_enter (l_mgr l) = Inr (t, m) \<Longrightarrow>
    line_step l (look r t (l\<lparr>l_mgr := m, l_joined := l_joined l @ [r]\<rparr>))"
| refuse: "l_req l r = Outside \<Longrightarrow> Join_enter (l_mgr l) = Inl e \<Longrightarrow>
    line_step l (l\<lparr>l_req := (l_req l)(r := Refused e)\<rparr>)"
| wake: "l_req l r = Queued t \<Longrightarrow> line_step l (look r t l)"
| finish: "l_req l r = Holding called \<Longrightarrow> Turn_Done called (l_mgr l) = (called', m) \<Longrightarrow>
    line_step l (l\<lparr>l_mgr := m, l_req := (l_req l)(r := Holding called'),
      l_ended := (if called then l_ended l else Suc (l_ended l))\<rparr>)"
| leave: "l_req l r = Holding True \<or> l_req l r = Refused e \<Longrightarrow>
    line_step l (l\<lparr>l_req := (l_req l)(r := Outside)\<rparr>)"
| close: "line_step l (l\<lparr>l_mgr := Manager_Close (l_mgr l)\<rparr>)"

inductive_cases line_stepE: "line_step l l'"

text \<open>A new line: the configuration always bounds it.\<close>

definition line_init :: "line \<Rightarrow> bool" where
  "line_init l \<longleftrightarrow>
     (\<exists>max. 0 < max \<and> max < 2 ^ 63 \<and>
       l = \<lparr>l_mgr = Manager_New max, l_req = (\<lambda>_. Outside), l_joined = [], l_granted = [], l_ended = 0\<rparr>)"

section \<open>The invariant\<close>

definition holding :: "line \<Rightarrow> nat \<Rightarrow> bool" where
  "holding l r \<longleftrightarrow> l_req l r = Holding False"

text \<open>The \<open>j\<close>-th ticket is in the line: it was taken, and its turn hasn't ended.\<close>

definition in_line :: "line \<Rightarrow> nat \<Rightarrow> bool" where
  "in_line l j \<longleftrightarrow> l_ended l \<le> j \<and> j < length (l_joined l)"

text \<open>Nobody has left the line: each ticket in it is waited on, or is the front one and holds the turn.\<close>

definition everyone_there :: "line \<Rightarrow> bool" where
  "everyone_there l \<longleftrightarrow>
     (\<forall>j. in_line l j \<longrightarrow> l_req l (l_joined l ! j) = Queued (of_nat j) \<or> j = l_ended l \<and> holding l (l_joined l ! j))"

definition queued_there :: "line \<Rightarrow> bool" where
  "queued_there l \<longleftrightarrow> (\<forall>r t. l_req l r = Queued t \<longrightarrow> (\<exists>j. in_line l j \<and> t = of_nat j \<and> l_joined l ! j = r))"

definition front_holds :: "line \<Rightarrow> bool" where
  "front_holds l \<longleftrightarrow> (\<forall>r. holding l r \<longrightarrow> in_line l (l_ended l) \<and> l_joined l ! l_ended l = r)"

definition granted_prefix :: "line \<Rightarrow> bool" where
  "granted_prefix l \<longleftrightarrow>
     l_granted l = take (l_ended l + (if \<exists>r. holding l r then 1 else 0)) (l_joined l)"

definition counts_ok :: "line \<Rightarrow> bool" where
  "counts_ok l \<longleftrightarrow>
     m_next (l_mgr l) = of_nat (length (l_joined l)) \<and>
     m_served (l_mgr l) = of_nat (l_ended l) \<and>
     l_ended l \<le> length (l_joined l) \<and>
     0 < m_maxQueued (l_mgr l) \<and> m_maxQueued (l_mgr l) < 2 ^ 63 \<and>
     int (length (l_joined l) - l_ended l) \<le> m_maxQueued (l_mgr l) + 1"

definition line_inv :: "line \<Rightarrow> bool" where
  "line_inv l \<longleftrightarrow>
     counts_ok l \<and> queued_there l \<and> front_holds l \<and> granted_prefix l \<and>
     (\<not> m_closed (l_mgr l) \<longrightarrow> everyone_there l)"

lemmas line_inv_defs = line_inv_def counts_ok_def queued_there_def front_holds_def granted_prefix_def
  everyone_there_def holding_def in_line_def

lemma of_nat_word_eq:
  assumes "(of_nat i :: 64 word) = of_nat j" "s \<le> i" "i < s + 2 ^ 64" "s \<le> j" "j < s + 2 ^ 64"
  shows "i = j"
proof -
  have "(of_nat (i - s) :: 64 word) = of_nat (j - s)"
    using assms by (simp add: of_nat_diff)
  then have "(i - s) mod 2 ^ 64 = (j - s) mod 2 ^ 64"
    by (simp add: word_of_nat_eq_iff take_bit_eq_mod)
  moreover have "i - s < 2 ^ 64" "j - s < 2 ^ 64" using assms by auto
  ultimately show ?thesis using assms by simp
qed

lemma waiting_length:
  assumes "m_next m = of_nat n" "m_served m = of_nat s" "s \<le> n" "n - s \<le> 2 ^ 63"
  shows "waiting m = int (n - s - 1)"
proof (cases "n = s")
  case True
  with assms show ?thesis by (simp add: waiting_def)
next
  case False
  have "(of_nat n :: 64 word) \<noteq> of_nat s"
  proof
    have "n < s + 2 ^ 64" using assms(4) by simp
    moreover assume "(of_nat n :: 64 word) = of_nat s"
    ultimately show False using of_nat_word_eq [of n s s] assms(3) False by simp
  qed
  moreover have "(of_nat n - of_nat s - 1 :: 64 word) = of_nat (n - s - 1)"
    using assms False by (simp add: of_nat_diff)
  moreover have "sint (of_nat (n - s - 1) :: 64 word) = int (n - s - 1)"
    using assms(4) by (simp add: signed_of_nat signed_take_bit_int_eq_self)
  ultimately show ?thesis by (simp add: waiting_def assms)
qed

lemma line_inv_init: "line_init l \<Longrightarrow> line_inv l"
  by (auto simp: line_init_def line_inv_defs Manager_New_def)

lemma line_occupancy: "line_inv l \<Longrightarrow> l_ended l \<le> length (l_joined l) \<and> length (l_joined l) - l_ended l \<le> 2 ^ 63"
  by (auto simp: line_inv_def counts_ok_def)

lemma line_window:
  assumes "line_inv l" "in_line l i" "in_line l j" "(of_nat i :: ticket) = of_nat j"
  shows "i = j"
  using assms(2-4) line_occupancy [OF assms(1)]
  by (intro of_nat_word_eq [of i j "l_ended l"]) (auto simp: in_line_def)

lemma line_waiting:
  assumes "line_inv l"
  shows "waiting (l_mgr l) = int (length (l_joined l) - l_ended l - 1)"
  using assms line_occupancy [OF assms] by (intro waiting_length) (auto simp: line_inv_def counts_ok_def)

lemma queuedD: "line_inv l \<Longrightarrow> l_req l r = Queued t \<Longrightarrow> \<exists>j. in_line l j \<and> t = of_nat j \<and> l_joined l ! j = r"
  by (simp add: line_inv_def queued_there_def)

lemma holdingD: "line_inv l \<Longrightarrow> holding l r \<Longrightarrow> in_line l (l_ended l) \<and> l_joined l ! l_ended l = r"
  by (simp add: line_inv_def front_holds_def)

lemma thereD:
  "line_inv l \<Longrightarrow> \<not> m_closed (l_mgr l) \<Longrightarrow> in_line l j \<Longrightarrow>
     l_req l (l_joined l ! j) = Queued (of_nat j) \<or> j = l_ended l \<and> holding l (l_joined l ! j)"
  by (simp add: line_inv_def everyone_there_def)

lemma look_fields [simp]:
  "l_mgr (look r t l) = l_mgr l" "l_joined (look r t l) = l_joined l" "l_ended (look r t l) = l_ended l"
  by (simp_all add: look_def split: join_check.split)

lemma in_line_look [simp]: "in_line (look r t l) = in_line l"
  by (simp add: in_line_def fun_eq_iff)

text \<open>A waiting request that looks again keeps the invariant, whatever it finds.\<close>

lemma look_turn:
  assumes inv: "line_inv l" and r: "l_req l r = Queued t" and turn: "Join_check (l_mgr l) t = GotTurn"
  shows "line_inv (look r t l)"
proof -
  obtain j where j: "in_line l j" "t = of_nat j" "l_joined l ! j = r"
    using queuedD [OF inv r] by blast
  have "m_served (l_mgr l) = t" using turn by (auto simp: Join_check_def split: if_splits)
  then have "(of_nat j :: ticket) = of_nat (l_ended l)" using inv j(2) by (simp add: line_inv_def counts_ok_def)
  moreover have front: "in_line l (l_ended l)" using j(1) by (auto simp: in_line_def)
  ultimately have je: "j = l_ended l" using line_window [OF inv j(1) front] by simp
  have alone: "\<not> holding l r'" for r'
    using holdingD [OF inv, of r'] j(3) je r by (auto simp: holding_def)
  have l': "look r t l = l\<lparr>l_req := (l_req l)(r := Holding False), l_granted := l_granted l @ [r]\<rparr>"
    using turn by (simp add: look_def)
  have hold: "holding (look r t l) r' \<longleftrightarrow> r' = r" for r'
    using alone by (auto simp: l' holding_def)
  have "l_granted l @ [r] = take (Suc (l_ended l)) (l_joined l)"
    using inv alone front j(3) je by (simp add: line_inv_def granted_prefix_def in_line_def take_Suc_conv_app_nth)
  then have "granted_prefix (look r t l)" using hold by (simp add: granted_prefix_def l')
  moreover have "front_holds (look r t l)" using front j(3) je by (simp add: front_holds_def hold)
  moreover have "queued_there (look r t l)"
    using queuedD [OF inv] by (auto simp: queued_there_def l' in_line_def)
  moreover have "everyone_there (look r t l)" if "\<not> m_closed (l_mgr l)"
    unfolding everyone_there_def
  proof (intro allI impI)
    fix i assume "in_line (look r t l) i"
    then have i: "in_line l i" by simp
    show "l_req (look r t l) (l_joined (look r t l) ! i) = Queued (of_nat i) \<or>
        i = l_ended (look r t l) \<and> holding (look r t l) (l_joined (look r t l) ! i)"
    proof (cases "l_joined l ! i = r")
      case True
      with thereD [OF inv that, of i] i alone r j(2) have "(of_nat i :: ticket) = of_nat j" by auto
      with line_window [OF inv _ j(1)] i True je show ?thesis by (simp add: hold)
    next
      case False
      with thereD [OF inv that, of i] i alone show ?thesis by (simp add: l')
    qed
  qed
  moreover have "counts_ok (look r t l) = counts_ok l" by (simp add: counts_ok_def)
  ultimately show ?thesis using inv by (simp add: line_inv_def)
qed

lemma look_inv:
  assumes inv: "line_inv l" and r: "l_req l r = Queued t"
  shows "line_inv (look r t l)"
proof (cases "Join_check (l_mgr l) t")
  case KeepWaiting
  then have "look r t l = l" using r by (cases l) (simp add: look_def fun_upd_idem)
  with inv show ?thesis by simp
next
  case (TurnedAway e)
  then have closed: "m_closed (l_mgr l)" by (auto simp: Join_check_def split: if_splits)
  have "holding (look r t l) r' \<longleftrightarrow> holding l r'" for r'
    using TurnedAway r by (simp add: look_def holding_def)
  moreover have "queued_there (look r t l)"
    using inv TurnedAway by (auto simp: line_inv_def queued_there_def look_def in_line_def)
  moreover have "counts_ok (look r t l) = counts_ok l" by (simp add: counts_ok_def)
  moreover have "l_granted (look r t l) = l_granted l" using TurnedAway by (simp add: look_def)
  ultimately show ?thesis
    using inv closed by (simp add: line_inv_def front_holds_def granted_prefix_def)
qed (rule look_turn [OF assms])

text \<open>A request that takes a ticket, before it looks for the first time.\<close>

definition enter :: "nat \<Rightarrow> ticket \<Rightarrow> Manager \<Rightarrow> line \<Rightarrow> line" where
  "enter r t m l = l\<lparr>l_mgr := m, l_joined := l_joined l @ [r], l_req := (l_req l)(r := Queued t)\<rparr>"

lemma look_enter: "look r t (enter r t m l) = look r t (l\<lparr>l_mgr := m, l_joined := l_joined l @ [r]\<rparr>)"
  by (simp add: look_def enter_def split: join_check.split)

lemma enter_inv:
  assumes inv: "line_inv l" and r: "l_req l r = Outside" and join: "Join_enter (l_mgr l) = Inr (t, m)"
  shows "line_inv (enter r t m l)"
proof -
  let ?n = "length (l_joined l)"
  have open': "\<not> m_closed (l_mgr l)" and t: "t = m_next (l_mgr l)" "m = (l_mgr l)\<lparr>m_next := m_next (l_mgr l) + 1\<rparr>"
    and room: "waiting (l_mgr l) < m_maxQueued (l_mgr l)"
    using join inv by (auto simp: Join_enter_def line_inv_def counts_ok_def split: if_splits)
  have tn: "t = of_nat ?n" using inv t by (simp add: line_inv_def counts_ok_def)
  have counts: "counts_ok (enter r t m l)"
    using inv room t line_waiting [OF inv]
    by (auto simp: line_inv_def counts_ok_def enter_def Suc_diff_le of_nat_diff)
  have old: "l_joined l ! j \<noteq> r" if "in_line l j" for j
    using thereD [OF inv open' that] r by (auto simp: holding_def)
  have line: "in_line (enter r t m l) j \<longleftrightarrow> in_line l j \<or> j = ?n" for j
    using line_occupancy [OF inv] by (auto simp: in_line_def enter_def)
  have hold: "holding (enter r t m l) r' \<longleftrightarrow> holding l r'" for r'
    using r by (auto simp: holding_def enter_def)
  have nth: "l_joined (enter r t m l) ! j = (if j = ?n then r else l_joined l ! j)" if "j \<le> ?n" for j
    using that by (auto simp: enter_def nth_append)
  have le: "j \<le> ?n" if "in_line l j" for j using that by (simp add: in_line_def)
  have "queued_there (enter r t m l)"
    unfolding queued_there_def
  proof (intro allI impI)
    fix r' t' assume q: "l_req (enter r t m l) r' = Queued t'"
    show "\<exists>j. in_line (enter r t m l) j \<and> t' = of_nat j \<and> l_joined (enter r t m l) ! j = r'"
    proof (cases "r' = r")
      case True
      with q tn nth [of ?n] line [of ?n] show ?thesis by (auto simp: enter_def)
    next
      case False
      with q have "l_req l r' = Queued t'" by (simp add: enter_def)
      from queuedD [OF inv this] obtain j where j: "in_line l j" "t' = of_nat j" "l_joined l ! j = r'" by blast
      with le [of j] nth [of j] line [of j] show ?thesis by (auto simp: in_line_def)
    qed
  qed
  moreover have "front_holds (enter r t m l)"
    unfolding front_holds_def
  proof (intro allI impI)
    fix r' assume "holding (enter r t m l) r'"
    then have h: "in_line l (l_ended l)" "l_joined l ! l_ended l = r'" using holdingD [OF inv] hold by auto
    have "l_ended l \<noteq> ?n" "l_ended (enter r t m l) = l_ended l" using h(1) by (auto simp: in_line_def enter_def)
    with h le [OF h(1)] nth [of "l_ended l"] line [of "l_ended l"]
    show "in_line (enter r t m l) (l_ended (enter r t m l)) \<and> l_joined (enter r t m l) ! l_ended (enter r t m l) = r'"
      by simp
  qed
  moreover have "granted_prefix (enter r t m l)"
  proof -
    define k where "k = l_ended l + (if \<exists>r. holding l r then 1 else 0)"
    have "k \<le> ?n"
      using line_occupancy [OF inv] holdingD [OF inv] by (auto simp: k_def in_line_def Suc_le_eq)
    moreover have "l_granted l = take k (l_joined l)"
      using inv by (simp add: line_inv_def granted_prefix_def k_def)
    moreover have "granted_prefix (enter r t m l) \<longleftrightarrow> l_granted l = take k (l_joined l @ [r])"
      unfolding granted_prefix_def hold k_def by (simp add: enter_def)
    ultimately show ?thesis by simp
  qed
  moreover have "everyone_there (enter r t m l)"
    unfolding everyone_there_def
  proof (intro allI impI)
    fix j assume "in_line (enter r t m l) j"
    then consider "in_line l j" "j \<noteq> ?n" | "j = ?n" using line by auto
    then show "l_req (enter r t m l) (l_joined (enter r t m l) ! j) = Queued (of_nat j) \<or>
        j = l_ended (enter r t m l) \<and> holding (enter r t m l) (l_joined (enter r t m l) ! j)"
    proof cases
      case 1
      with thereD [OF inv open' 1(1)] old [OF 1(1)] nth [OF le] hold show ?thesis
        by (auto simp: enter_def nth_append in_line_def)
    next
      case 2
      with nth [of ?n] tn show ?thesis by (simp add: enter_def)
    qed
  qed
  ultimately show ?thesis using counts by (simp add: line_inv_def)
qed

lemma finish_inv:
  assumes inv: "line_inv l" and r: "l_req l r = Holding False"
  shows "line_inv (l\<lparr>l_mgr := done_turn (l_mgr l), l_req := (l_req l)(r := Holding True), l_ended := Suc (l_ended l)\<rparr>)"
    (is "line_inv ?l")
proof -
  have front: "in_line l (l_ended l)" "l_joined l ! l_ended l = r"
    using holdingD [OF inv, of r] r by (simp_all add: holding_def)
  have only: "r' = r" if "holding l r'" for r' using holdingD [OF inv that] front(2) by simp
  have hold: "\<not> holding ?l r'" for r' using only [of r'] by (auto simp: holding_def)
  have line: "in_line ?l j \<longleftrightarrow> in_line l j \<and> j \<noteq> l_ended l" for j by (auto simp: in_line_def)
  have "counts_ok ?l"
    using inv front(1) by (auto simp: line_inv_def counts_ok_def done_turn_def in_line_def)
  moreover have "granted_prefix ?l"
    using inv r hold by (auto simp: line_inv_def granted_prefix_def holding_def)
  moreover have "queued_there ?l"
    unfolding queued_there_def
  proof (intro allI impI)
    fix r' t assume "l_req ?l r' = Queued t"
    then have q: "l_req l r' = Queued t" "r' \<noteq> r" by (auto split: if_splits)
    from queuedD [OF inv q(1)] obtain j where j: "in_line l j" "t = of_nat j" "l_joined l ! j = r'" by blast
    with q(2) front(2) have "j \<noteq> l_ended l" by auto
    with j line show "\<exists>j. in_line ?l j \<and> t = of_nat j \<and> l_joined ?l ! j = r'" by auto
  qed
  moreover have "everyone_there ?l" if "\<not> m_closed (l_mgr l)"
    unfolding everyone_there_def
  proof (intro allI impI)
    fix j assume "in_line ?l j"
    then have j: "in_line l j" "j \<noteq> l_ended l" using line by auto
    with thereD [OF inv that j(1)] have q: "l_req l (l_joined l ! j) = Queued (of_nat j)" by simp
    with r show "l_req ?l (l_joined ?l ! j) = Queued (of_nat j) \<or> j = l_ended ?l \<and> holding ?l (l_joined ?l ! j)"
      by auto
  qed
  ultimately show ?thesis
    using hold by (auto simp: line_inv_def front_holds_def done_turn_def)
qed

text \<open>A step that changes neither the turn nor the waiting requests.\<close>

lemma aside_inv:
  assumes inv: "line_inv l" and r: "l_req l r \<noteq> Holding False" "\<forall>t. l_req l r \<noteq> Queued t"
    and q: "q \<noteq> Holding False" "\<forall>t. q \<noteq> Queued t"
  shows "line_inv (l\<lparr>l_req := (l_req l)(r := q)\<rparr>)"
proof -
  let ?l = "l\<lparr>l_req := (l_req l)(r := q)\<rparr>"
  have hold: "holding ?l r' \<longleftrightarrow> holding l r'" for r' using r q by (auto simp: holding_def)
  have line: "in_line ?l = in_line l" by (simp add: in_line_def fun_eq_iff)
  have "queued_there ?l" using queuedD [OF inv] q by (auto simp: queued_there_def line)
  moreover have "everyone_there ?l" if "\<not> m_closed (l_mgr l)"
    using thereD [OF inv that] r by (fastforce simp: everyone_there_def line hold holding_def)
  moreover have "counts_ok ?l = counts_ok l" by (simp add: counts_ok_def)
  ultimately show ?thesis
    using inv by (simp add: line_inv_def front_holds_def granted_prefix_def hold line)
qed

lemma line_step_inv:
  assumes inv: "line_inv l" and step: "line_step l l'"
  shows "line_inv l'"
  using step
proof cases
  case (join r t m)
  have "l_req (enter r t m l) r = Queued t" by (simp add: enter_def)
  from look_inv [OF enter_inv [OF inv join(2,3)] this] show ?thesis
    by (simp only: join(1) look_enter)
next
  case (refuse r e)
  then show ?thesis using aside_inv [OF inv, of r "Refused e"] by simp
next
  case (wake r t)
  then show ?thesis using look_inv [OF inv] by simp
next
  case (finish r called called' m)
  then show ?thesis
    using inv finish_inv [OF inv, of r] by (cases called) (auto simp: Turn_Done_def fun_upd_idem)
next
  case (leave r e)
  then show ?thesis using aside_inv [OF inv, of r Outside] by auto
next
  case close
  moreover have "counts_ok (l\<lparr>l_mgr := Manager_Close (l_mgr l)\<rparr>) = counts_ok l"
    by (simp add: counts_ok_def Manager_Close_def)
  ultimately show ?thesis
    using inv by (simp add: line_inv_def queued_there_def front_holds_def granted_prefix_def holding_def in_line_def
        Manager_Close_def)
qed

interpretation line: machine line_init line_step line_inv
  by unfold_locales (auto intro: line_inv_init line_step_inv)

section \<open>What the line guarantees\<close>

text \<open>At most one request holds the turn.\<close>

lemma one_turn: "line_inv l \<Longrightarrow> holding l r \<Longrightarrow> holding l r' \<Longrightarrow> r = r'"
  using holdingD by metis

text \<open>Turns are granted in the order tickets were taken.\<close>

lemma granted_in_order: "line_inv l \<Longrightarrow> \<exists>n. l_granted l = take n (l_joined l)"
  by (auto simp: line_inv_def granted_prefix_def)

text \<open>No more requests wait than the configuration allows, and \<open>Waiting\<close> counts them.\<close>

lemma waiting_bound:
  assumes "line_inv l"
  shows "0 \<le> waiting (l_mgr l) \<and> waiting (l_mgr l) \<le> m_maxQueued (l_mgr l)"
  using assms line_waiting [OF assms] by (auto simp: line_inv_def counts_ok_def)

text \<open>
  The line never stalls: while it is open and somebody waits, either somebody holds the turn, or
  the request at the front gets it as soon as it looks.
\<close>

lemma line_progress:
  assumes inv: "line_inv l" and open': "\<not> m_closed (l_mgr l)" and waits: "l_req l r = Queued t"
  shows "(\<exists>r'. holding l r') \<or>
    (\<exists>r' t'. l_req l r' = Queued t' \<and> line_step l (look r' t' l) \<and> holding (look r' t' l) r')"
proof -
  obtain j where "in_line l j" using queuedD [OF inv waits] by blast
  then have front: "in_line l (l_ended l)" by (auto simp: in_line_def)
  let ?r = "l_joined l ! l_ended l"
  from thereD [OF inv open' front] show ?thesis
  proof
    assume q: "l_req l ?r = Queued (of_nat (l_ended l))"
    have "Join_check (l_mgr l) (of_nat (l_ended l)) = GotTurn"
      using inv by (simp add: Join_check_def line_inv_def counts_ok_def)
    then have "holding (look ?r (of_nat (l_ended l)) l) ?r" by (simp add: look_def holding_def)
    with q line_step.wake [OF q] show ?thesis by blast
  qed blast
qed

section \<open>Properties\<close>

text \<open>A line in which request 7 holds the turn and request 9 waits, for the witnesses.\<close>

definition busy_line :: line where
  "busy_line =
     \<lparr>l_mgr = \<lparr>m_closed = False, m_next = 2, m_served = 0, m_maxQueued = 5\<rparr>,
      l_req = (\<lambda>_. Outside)(7 := Holding False, 9 := Queued 1), l_joined = [7, 9], l_granted = [7], l_ended = 0\<rparr>"

lemma busy_line_reachable: "reachable line_init line_step busy_line"
proof -
  let ?l0 = "\<lparr>l_mgr = Manager_New 5, l_req = (\<lambda>_. Outside), l_joined = [], l_granted = [], l_ended = 0\<rparr>"
  let ?m1 = "\<lparr>m_closed = False, m_next = 1, m_served = 0, m_maxQueued = 5\<rparr>"
  let ?l1 = "\<lparr>l_mgr = ?m1, l_req = (\<lambda>_. Outside)(7 := Holding False), l_joined = [7], l_granted = [7], l_ended = 0\<rparr>"
  have "reachable line_init line_step ?l0" by (rule reach_init) (auto simp: line_init_def intro!: exI [of _ 5])
  moreover have "line_step ?l0 ?l1"
    using line_step.join [of ?l0 7 0 ?m1] by (simp add: Join_enter_def Manager_New_def waiting_def look_def Join_check_def)
  moreover have "line_step ?l1 busy_line"
    using line_step.join [of ?l1 9 1 "?m1\<lparr>m_next := 2\<rparr>"]
    by (simp add: Join_enter_def waiting_def look_def Join_check_def busy_line_def)
  ultimately show ?thesis by (blast intro: reach_step)
qed

text \<open>C25. Mutual exclusion: whatever the requests do, at most one of them holds the turn.\<close>

theorem queue_mutual_exclusion:
  assumes "reachable line_init line_step l" "holding l r" "holding l r'"
  shows "r = r'"
  using one_turn [OF line.reachable_inv] assms by blast

theorem queue_mutual_exclusion_witness: "{r. holding busy_line r} = {7}"
proof -
  have "holding busy_line 7" by (simp add: busy_line_def holding_def)
  with queue_mutual_exclusion [OF busy_line_reachable] show ?thesis by blast
qed



text \<open>C27. The line never stalls: while the queue is open and a request waits, either some request holds
  the turn, or the request at the front gets it at its next look.\<close>

theorem queue_progress:
  assumes "reachable line_init line_step l" "\<not> m_closed (l_mgr l)" "l_req l r = Queued t"
  shows "(\<exists>r'. holding l r') \<or>
    (\<exists>r' t'. l_req l r' = Queued t' \<and> line_step l (look r' t' l) \<and> holding (look r' t' l) r')"
  using line_progress [OF line.reachable_inv] assms by blast

text \<open>The turn of request 7 has ended, and request 9 has not looked yet.\<close>

definition freed_line :: line where
  "freed_line =
     \<lparr>l_mgr = \<lparr>m_closed = False, m_next = 2, m_served = 1, m_maxQueued = 5\<rparr>,
      l_req = (\<lambda>_. Outside)(7 := Holding True, 9 := Queued 1), l_joined = [7, 9], l_granted = [7], l_ended = 1\<rparr>"

theorem queue_progress_witness:
  "\<exists>r' t'. l_req freed_line r' = Queued t' \<and> line_step freed_line (look r' t' freed_line) \<and>
     holding (look r' t' freed_line) r'"
proof -
  have "(\<lambda>_. Outside)(7 := Holding False, 9 := Queued 1, 7 := Holding True) =
      (\<lambda>_. Outside)((7::nat) := Holding True, 9 := Queued 1)" by (auto simp: fun_eq_iff)
  then have "line_step busy_line freed_line"
    using line_step.finish [of busy_line 7 False True "(l_mgr busy_line)\<lparr>m_served := 1\<rparr>"]
    by (simp add: busy_line_def freed_line_def Turn_Done_def done_turn_def)
  with busy_line_reachable have "reachable line_init line_step freed_line" by (rule reach_step)
  from queue_progress [OF this, of 9 1]
  have "(\<exists>r'. holding freed_line r') \<or> ?thesis" by (simp add: freed_line_def)
  moreover have "\<not> holding freed_line r'" for r' by (simp add: freed_line_def holding_def)
  ultimately show ?thesis by blast
qed

end
