(* ===== verification/Writer.thy ===== *)
theory Writer
  imports Dbfile Fifo
begin

text \<open>
  The writer (\<open>internal/writer\<close>): it runs each write in its turn in the FIFO, on the store, and
  counts the outcomes; a turn that finds the WAL past its threshold ends with a checkpoint. What
  comes from outside in one turn is an argument: what \<open>Join\<close> answered, the size of the WAL file,
  how the checkpoint ended, which statements failed, the UUIDs drawn. \<open>Join\<close> itself is theory
  Fifo: the turn it grants is exclusive, so a turn's work is one step on the store.
\<close>

section \<open>State\<close>

record WriterStats =
  ws_Committed :: nat
  ws_ConditionConflicts :: nat
  ws_ProjectionConflicts :: nat
  ws_WriteQueueFull :: nat
  ws_Checkpoints :: nat
  ws_CheckpointsBusy :: nat
  ws_LastOptimize :: gotime

record Writer =
  w_store :: Store
  w_nextCheckpoint :: int
  w_closed :: bool
  w_stats :: WriterStats

definition no_writer_stats :: WriterStats where
  "no_writer_stats =
     \<lparr>ws_Committed = 0, ws_ConditionConflicts = 0, ws_ProjectionConflicts = 0, ws_WriteQueueFull = 0,
      ws_Checkpoints = 0, ws_CheckpointsBusy = 0, ws_LastOptimize = 0\<rparr>"

definition walCheckpointSize :: int where "walCheckpointSize = 67108864"

definition Writer_New :: "Store \<Rightarrow> Writer" where
  "Writer_New st =
     \<lparr>w_store = st, w_nextCheckpoint = walCheckpointSize, w_closed = False, w_stats = no_writer_stats\<rparr>"

text \<open>What a turn meets outside the writer.\<close>

record turn =
  tn_join :: "queue_error option"
  tn_wal_size :: "store_error + int"
  tn_checkpoint :: "store_error + bool"
  tn_faults :: faults
  tn_uuids :: "nat \<Rightarrow> string"

datatype op_error = QueueErr queue_error | WriterClosed | StoreErr store_error

section \<open>A turn\<close>

definition checkpoint :: "turn \<Rightarrow> Writer \<Rightarrow> Writer" where
  "checkpoint tn w =
     (case tn_wal_size tn of
        Inl e \<Rightarrow> w
      | Inr sz \<Rightarrow>
          if sz < w_nextCheckpoint w then w
          else
            (case tn_checkpoint tn of
               Inl e \<Rightarrow> w
             | Inr done \<Rightarrow>
                 if done
                 then w\<lparr>w_stats := (w_stats w)\<lparr>ws_Checkpoints := Suc (ws_Checkpoints (w_stats w))\<rparr>,
                        w_nextCheckpoint := walCheckpointSize\<rparr>
                 else w\<lparr>w_stats := (w_stats w)\<lparr>ws_CheckpointsBusy := Suc (ws_CheckpointsBusy (w_stats w))\<rparr>,
                        w_nextCheckpoint := i64 (sz + walCheckpointSize)\<rparr>))"

text \<open>
  \<open>RunInTurn\<close>, for work on a state that holds the writer: \<open>get\<close> and \<open>put\<close> reach it there.
\<close>

definition RunInTurn :: "('s \<Rightarrow> Writer) \<Rightarrow> (Writer \<Rightarrow> 's \<Rightarrow> 's) \<Rightarrow> turn \<Rightarrow> ('s \<Rightarrow> (op_error + 'r) \<times> 's) \<Rightarrow> 's \<Rightarrow>
    (op_error + 'r) \<times> 's" where
  "RunInTurn get put tn fn s =
     (case tn_join tn of
        Some e \<Rightarrow>
          (Inl (QueueErr e),
           if e = ErrFull
           then put ((get s)\<lparr>w_stats := (w_stats (get s))\<lparr>ws_WriteQueueFull := Suc (ws_WriteQueueFull (w_stats (get s)))\<rparr>\<rparr>) s
           else s)
      | None \<Rightarrow>
          if w_closed (get s) then (Inl WriterClosed, s)
          else (case fn s of (r, s1) \<Rightarrow> (r, put (checkpoint tn (get s1)) s1)))"

abbreviation in_turn :: "turn \<Rightarrow> (Writer \<Rightarrow> (op_error + 'r) \<times> Writer) \<Rightarrow> Writer \<Rightarrow> (op_error + 'r) \<times> Writer" where
  "in_turn \<equiv> RunInTurn (\<lambda>w. w) (\<lambda>w _. w)"

text \<open>\<open>record\<close>: counts a write's outcome.\<close>

definition record_outcome :: "store_error option \<Rightarrow> WriterStats \<Rightarrow> WriterStats" where
  "record_outcome err st =
     (case err of
        None \<Rightarrow> st\<lparr>ws_Committed := Suc (ws_Committed st)\<rparr>
      | Some (ConditionConflictError i) \<Rightarrow> st\<lparr>ws_ConditionConflicts := Suc (ws_ConditionConflicts st)\<rparr>
      | Some (ProjectionConflictError op i) \<Rightarrow> st\<lparr>ws_ProjectionConflicts := Suc (ws_ProjectionConflicts st)\<rparr>
      | Some _ \<Rightarrow> st)"

definition write_append :: "turn \<Rightarrow> PendingEvent list \<Rightarrow> AppendCondition list \<Rightarrow> Writes \<Rightarrow> Writer \<Rightarrow>
    (op_error + AppendResult) \<times> Writer" where
  "write_append tn events conditions projections =
     in_turn tn (\<lambda>w.
       case Append (tn_faults tn) (tn_uuids tn) (w_store w) events conditions projections of
         (Inl e, st) \<Rightarrow> (Inl (StoreErr e), w\<lparr>w_store := st, w_stats := record_outcome (Some e) (w_stats w)\<rparr>)
       | (Inr result, st) \<Rightarrow> (Inr result, w\<lparr>w_store := st, w_stats := record_outcome None (w_stats w)\<rparr>))"

definition WriteProjections :: "turn \<Rightarrow> Writes \<Rightarrow> Writer \<Rightarrow> (op_error + AppendResult) \<times> Writer" where
  "WriteProjections tn projections = write_append tn [] [] projections"

definition WritePending :: "turn \<Rightarrow> PendingEvent list \<Rightarrow> AppendCondition list \<Rightarrow> Writes \<Rightarrow> Writer \<Rightarrow>
    (op_error + AppendResult) \<times> Writer" where
  "WritePending tn events conditions projections = write_append tn events conditions projections"

definition Writer_Optimize :: "turn \<Rightarrow> gotime \<Rightarrow> Writer \<Rightarrow> (op_error + unit) \<times> Writer" where
  "Writer_Optimize tn now =
     in_turn tn (\<lambda>w.
       case Store_Optimize (tn_faults tn) (w_store w) of
         (Some e, st) \<Rightarrow> (Inl (StoreErr e), w\<lparr>w_store := st\<rparr>)
       | (None, st) \<Rightarrow> (Inr (), w\<lparr>w_store := st, w_stats := (w_stats w)\<lparr>ws_LastOptimize := now\<rparr>\<rparr>))"

definition Writer_Close :: "Writer \<Rightarrow> Writer" where
  "Writer_Close w = w\<lparr>w_closed := True\<rparr>"

text \<open>An operation of the store that a handler runs in a turn of its own: a bulk delete.\<close>

definition delete_in_turn :: "turn \<Rightarrow> (faults \<Rightarrow> Store \<Rightarrow> store_error option \<times> Store) \<Rightarrow> Writer \<Rightarrow>
    (op_error + unit) \<times> Writer" where
  "delete_in_turn tn op =
     in_turn tn (\<lambda>w.
       case op (tn_faults tn) (w_store w) of
         (Some e, st) \<Rightarrow> (Inl (StoreErr e), w\<lparr>w_store := st\<rparr>)
       | (None, st) \<Rightarrow> (Inr (), w\<lparr>w_store := st\<rparr>))"

section \<open>What a turn does to the store\<close>

lemma checkpoint_store [simp]: "w_store (checkpoint tn w) = w_store w" "w_closed (checkpoint tn w) = w_closed w"
  by (auto simp: checkpoint_def split: sum.split)

text \<open>
  The next checkpoint is never nearer than the threshold, and after one that gave up the WAL has
  to grow by the threshold again: no two writes in a row wait for a reader.
\<close>

lemma checkpoint_threshold:
  assumes "walCheckpointSize \<le> w_nextCheckpoint w" "w' = checkpoint tn w"
    and "tn_wal_size tn = Inr sz" "0 \<le> sz" "sz \<le> max_i64 - walCheckpointSize"
  shows "walCheckpointSize \<le> w_nextCheckpoint w'"
    and "sz < w_nextCheckpoint w \<Longrightarrow> w' = w"
    and "ws_CheckpointsBusy (w_stats w') \<noteq> ws_CheckpointsBusy (w_stats w) \<Longrightarrow>
      w_nextCheckpoint w' = sz + walCheckpointSize"
  using assms by (auto simp: checkpoint_def walCheckpointSize_def i64_id split: sum.splits if_splits)

text \<open>A write runs only in a turn of an open writer, and is then one \<open>Append\<close> on the store.\<close>

lemma write_append_cases:
  assumes "write_append tn events conditions w W = (r, W')"
  shows "(r = Inl WriterClosed \<or> (\<exists>e. r = Inl (QueueErr e))) \<and> w_store W' = w_store W \<or>
    \<not> w_closed W \<and> tn_join tn = None \<and>
    (\<exists>r0. Append (tn_faults tn) (tn_uuids tn) (w_store W) events conditions w = (r0, w_store W') \<and>
       r = (case r0 of Inl e \<Rightarrow> Inl (StoreErr e) | Inr x \<Rightarrow> Inr x))"
  using assms by (auto simp: write_append_def RunInTurn_def split: option.splits if_splits prod.splits sum.splits)

section \<open>Properties\<close>

text \<open>The WAL checkpoint comes when it is due: below the threshold nothing happens, a checkpoint that
  was kept from finishing is only tried again once the WAL has grown by another 64 MiB, and the
  threshold never falls below 64 MiB.\<close>

lemma checkpoint_when_due:
  assumes "walCheckpointSize \<le> w_nextCheckpoint w"
    and "tn_wal_size tn = Inr sz" "0 \<le> sz" "sz \<le> max_i64 - walCheckpointSize"
  shows "walCheckpointSize \<le> w_nextCheckpoint (checkpoint tn w) \<and>
    (if sz < w_nextCheckpoint w then checkpoint tn w = w
     else case tn_checkpoint tn of
         Inl e \<Rightarrow> checkpoint tn w = w
       | Inr finished \<Rightarrow> w_nextCheckpoint (checkpoint tn w) = (if finished then walCheckpointSize else sz + walCheckpointSize))"
  using checkpoint_threshold(1) [OF assms(1) refl assms(2-4)] assms
  by (auto simp: checkpoint_def i64_id walCheckpointSize_def split: sum.splits)

end
