(* ===== verification/Transaction.thy ===== *)
theory Transaction
  imports Writer
begin

text \<open>
  What one transaction holds, and what each call does to it (\<open>internal/tx/tx.go\<close> and
  \<open>projections.go\<close>), without the Registry: the open condition, the closed ones, the pending
  events, and the projections read or written.
\<close>

section \<open>Errors\<close>

text \<open>The rules a design error names, the limits a call can go over, the conflicts of a commit.\<close>

datatype design_rule =
    ReadWhileOpen | WriteWithoutRead | ProjectionsWhileOpen | NoProjections | TwiceInOneWrite Key
  | NotRead Key | CreatedExisting Key | ReplacedMissing Key | CommitWhileOpen

datatype tx_limit = MaxReadsPerTx | MaxEventsPerTx | MaxProjectionsPerTx | MaxEventsPerTxRead

datatype tx_conflict = AlreadyExists Key | CreatedSince Key | VersionMoved Key

datatype tx_error =
    ErrNotFound | ErrBusy | ErrDesign design_rule | ErrTooManyTransactions | ErrTooLarge tx_limit
  | ErrPaused | ConflictError tx_conflict | OpErr op_error | IndexPanic

fun is_design :: "tx_error \<Rightarrow> bool" where
  "is_design (ErrDesign r) = True"
| "is_design _ = False"

section \<open>State\<close>

record openCondition =
  oc_query :: Query
  oc_position :: int

record projectionState =
  ps_readFound :: bool
  ps_readVersion :: string
  ps_unread :: bool
  ps_found :: bool
  ps_payload :: string
  ps_written :: bool

record transaction =
  tx_busy :: bool
  tx_lastUsed :: gotime
  tx_open :: "openCondition option"
  tx_conditions :: "AppendCondition list"
  tx_events :: "PendingEvent list"
  tx_projections :: "Key \<rightharpoonup> projectionState"
  tx_touched :: "Key list"
  tx_written :: int

record Config =
  cf_IdleTimeout :: int
  cf_MaxEventsPerTx :: int
  cf_MaxReadsPerTx :: int
  cf_MaxProjectionsPerTx :: int
  cf_MaxEventsPerTxRead :: int
  cf_MaxOpenTx :: int

definition new_transaction :: transaction where
  "new_transaction =
     \<lparr>tx_busy = False, tx_lastUsed = 0, tx_open = None, tx_conditions = [], tx_events = [],
      tx_projections = Map.empty, tx_touched = [], tx_written = 0\<rparr>"

section \<open>Reading events\<close>

record TxRead =
  rd_committed :: "ReadEvent list"
  rd_pending :: "PendingEvent list"
  rd_count :: int
  rd_near_limit :: bool

definition no_read :: TxRead where
  "no_read = \<lparr>rd_committed = [], rd_pending = [], rd_count = 0, rd_near_limit = False\<rparr>"

text \<open>The limit of the store's read: one row past the cap is enough to know the read is over it.\<close>

definition decision_limit :: "Config \<Rightarrow> DecisionFilter \<Rightarrow> int" where
  "decision_limit cfg f =
     (let lim = i64 (cf_MaxEventsPerTxRead cfg + 1)
      in if df_limit f > 0 \<and> df_limit f < lim then df_limit f else lim)"

definition pending_matches :: "Query \<Rightarrow> PendingEvent list \<Rightarrow> PendingEvent list" where
  "pending_matches q events = filter (\<lambda>e. Query_Matches q (pe_data e)) events"

text \<open>How many events the caller sends: committed and pending together, up to the limit.\<close>

definition sent_count :: "DecisionFilter \<Rightarrow> nat \<Rightarrow> int" where
  "sent_count f n = (if df_limit f > 0 \<and> int n > df_limit f then df_limit f else int n)"

text \<open>
  \<open>ReadEvents\<close>: what it returns, with the number of events the caller sends, and the transaction
  after it. \<open>decide\<close> is the store's \<open>ReadDecision\<close>.
\<close>

definition tx_ReadEvents :: "Config \<Rightarrow> (DecisionFilter \<Rightarrow> store_error + Decision) \<Rightarrow> DecisionFilter \<Rightarrow> transaction \<Rightarrow>
    tx_error + TxRead \<times> transaction" where
  "tx_ReadEvents cfg decide f t =
     (if tx_open t \<noteq> None then Inl (ErrDesign ReadWhileOpen)
      else if int (length (tx_conditions t)) + 1 > cf_MaxReadsPerTx cfg then Inl (ErrTooLarge MaxReadsPerTx)
      else
        (let q = df_query f; pending = pending_matches q (tx_events t) in
         case
           (if q_form q = formNone then Inr \<lparr>dn_events = [], dn_position = 0\<rparr>
            else decide (f\<lparr>df_limit := decision_limit cfg f\<rparr>)) of
           Inl e \<Rightarrow> Inl (OpErr (StoreErr e))
         | Inr d \<Rightarrow>
             (let n = sent_count f (length (dn_events d) + length pending)
              in if n > cf_MaxEventsPerTxRead cfg then Inl (ErrTooLarge MaxEventsPerTxRead)
                 else
                   Inr
                     (\<lparr>rd_committed = dn_events d,
                       rd_pending = (if df_backwards f then rev pending else pending),
                       rd_count = n, rd_near_limit = n > cf_MaxEventsPerTxRead cfg div 2\<rparr>,
                      t\<lparr>tx_open := Some \<lparr>oc_query = q, oc_position = dn_position d\<rparr>\<rparr>))))"

section \<open>Writing events\<close>

definition tx_WriteEvents :: "Config \<Rightarrow> gotime \<Rightarrow> EventData list \<Rightarrow> transaction \<Rightarrow> tx_error + gotime \<times> transaction" where
  "tx_WriteEvents cfg now events t =
     (case tx_open t of
        None \<Rightarrow> Inl (ErrDesign WriteWithoutRead)
      | Some open \<Rightarrow>
          if int (length (tx_events t)) + int (length events) > cf_MaxEventsPerTx cfg
          then Inl (ErrTooLarge MaxEventsPerTx)
          else
            Inr (now,
              t\<lparr>tx_events := tx_events t @ NewPendingEvents events now,
                tx_conditions := tx_conditions t @
                  [\<lparr>FailIfEventsMatch = oc_query open, AfterSequence = oc_position open\<rparr>],
                tx_open := None\<rparr>))"

section \<open>Projections\<close>

text \<open>\<open>GetProjection\<close>: only the first read of a key reaches the store.\<close>

definition tx_GetProjection :: "(Key \<Rightarrow> store_error + ProjectionRead) \<Rightarrow> Key \<Rightarrow> transaction \<Rightarrow>
    tx_error + (string \<times> bool) \<times> transaction" where
  "tx_GetProjection get key t =
     (case tx_projections t key of
        Some p \<Rightarrow> Inr ((ps_payload p, ps_found p), t)
      | None \<Rightarrow>
          (case get key of
             Inl e \<Rightarrow> Inl (OpErr (StoreErr e))
           | Inr read \<Rightarrow>
               (let p = \<lparr>ps_readFound = pr_found read, ps_readVersion = pr_version read, ps_unread = False,
                         ps_found = pr_found read, ps_payload = pr_payload read, ps_written = False\<rparr>
                in Inr ((ps_payload p, ps_found p),
                        t\<lparr>tx_projections := (tx_projections t)(key \<mapsto> p), tx_touched := tx_touched t @ [key]\<rparr>))))"

record TxProjection =
  tp_key :: Key
  tp_payload :: string

record TxWrites =
  tw_create :: "TxProjection list"
  tw_replace :: "TxProjection list"
  tw_delete :: "Key list"

definition TxWrites_Len :: "TxWrites \<Rightarrow> nat" where
  "TxWrites_Len w = length (tw_create w) + length (tw_replace w) + length (tw_delete w)"

definition once :: "Key list \<Rightarrow> Key \<Rightarrow> tx_error + Key list" where
  "once seen k = (if k \<in> set seen then Inl (ErrDesign (TwiceInOneWrite k)) else Inr (seen @ [k]))"

definition readFirst :: "(Key \<rightharpoonup> projectionState) \<Rightarrow> Key \<Rightarrow> tx_error + unit" where
  "readFirst ps k = (if ps k = None then Inl (ErrDesign (NotRead k)) else Inr ())"

definition exists_now :: "(Key \<rightharpoonup> projectionState) \<Rightarrow> Key \<Rightarrow> bool" where
  "exists_now ps k = (case ps k of None \<Rightarrow> False | Some s \<Rightarrow> ps_found s)"

text \<open>The three loops of checks, with the keys seen so far.\<close>

fun check_creates :: "(Key \<rightharpoonup> projectionState) \<Rightarrow> Key list \<Rightarrow> TxProjection list \<Rightarrow> tx_error + Key list" where
  "check_creates ps seen [] = Inr seen"
| "check_creates ps seen (p # rest) =
     bind_err (once seen (tp_key p)) (\<lambda>seen'.
     if exists_now ps (tp_key p) then Inl (ErrDesign (CreatedExisting (tp_key p)))
     else check_creates ps seen' rest)"

fun check_replaces :: "(Key \<rightharpoonup> projectionState) \<Rightarrow> Key list \<Rightarrow> TxProjection list \<Rightarrow> tx_error + Key list" where
  "check_replaces ps seen [] = Inr seen"
| "check_replaces ps seen (p # rest) =
     bind_err (once seen (tp_key p)) (\<lambda>seen'.
     bind_err (readFirst ps (tp_key p)) (\<lambda>_.
     if \<not> exists_now ps (tp_key p) then Inl (ErrDesign (ReplacedMissing (tp_key p)))
     else check_replaces ps seen' rest))"

fun check_deletes :: "(Key \<rightharpoonup> projectionState) \<Rightarrow> Key list \<Rightarrow> Key list \<Rightarrow> tx_error + Key list" where
  "check_deletes ps seen [] = Inr seen"
| "check_deletes ps seen (k # rest) =
     bind_err (once seen k) (\<lambda>seen'.
     bind_err (readFirst ps k) (\<lambda>_. check_deletes ps seen' rest))"

definition unread_state :: projectionState where
  "unread_state =
     \<lparr>ps_readFound = False, ps_readVersion = [], ps_unread = True, ps_found = False, ps_payload = [],
      ps_written = False\<rparr>"

text \<open>One create, replace, or delete, once every check has passed.\<close>

definition apply_create :: "TxProjection \<Rightarrow> transaction \<Rightarrow> transaction" where
  "apply_create p t =
     (let k = tp_key p;
          s = (case tx_projections t k of None \<Rightarrow> unread_state | Some s \<Rightarrow> s)
      in t\<lparr>tx_touched := (if tx_projections t k = None then tx_touched t @ [k] else tx_touched t),
           tx_projections := (tx_projections t)
             (k \<mapsto> s\<lparr>ps_found := True, ps_payload := tp_payload p, ps_written := True\<rparr>)\<rparr>)"

definition apply_replace :: "TxProjection \<Rightarrow> transaction \<Rightarrow> transaction" where
  "apply_replace p t =
     t\<lparr>tx_projections := (\<lambda>k. if k = tp_key p
          then map_option (\<lambda>s. s\<lparr>ps_payload := tp_payload p, ps_written := True\<rparr>) (tx_projections t k)
          else tx_projections t k)\<rparr>"

definition apply_delete :: "Key \<Rightarrow> transaction \<Rightarrow> transaction" where
  "apply_delete key t =
     t\<lparr>tx_projections := (\<lambda>k. if k = key
          then map_option (\<lambda>s. s\<lparr>ps_found := False, ps_payload := [], ps_written := True\<rparr>) (tx_projections t k)
          else tx_projections t k)\<rparr>"

definition not_written :: "(Key \<rightharpoonup> projectionState) \<Rightarrow> Key \<Rightarrow> bool" where
  "not_written ps k = (case ps k of None \<Rightarrow> True | Some s \<Rightarrow> \<not> ps_written s)"

definition tx_WriteProjections :: "Config \<Rightarrow> gotime \<Rightarrow> TxWrites \<Rightarrow> transaction \<Rightarrow> tx_error + gotime \<times> transaction" where
  "tx_WriteProjections cfg now w t =
     (if tx_open t \<noteq> None then Inl (ErrDesign ProjectionsWhileOpen)
      else if TxWrites_Len w = 0 then Inl (ErrDesign NoProjections)
      else
        bind_err (check_creates (tx_projections t) [] (tw_create w)) (\<lambda>seen1.
        bind_err (check_replaces (tx_projections t) seen1 (tw_replace w)) (\<lambda>seen2.
        bind_err (check_deletes (tx_projections t) seen2 (tw_delete w)) (\<lambda>seen.
          (let n = tx_written t + int (length (filter (not_written (tx_projections t)) seen))
           in if n > cf_MaxProjectionsPerTx cfg then Inl (ErrTooLarge MaxProjectionsPerTx)
              else
                Inr (now,
                  fold apply_delete (tw_delete w)
                    (fold apply_replace (tw_replace w)
                      (fold apply_create (tw_create w) (t\<lparr>tx_written := n\<rparr>)))))))))"

section \<open>The net writes of a commit\<close>

record opKeys =
  ok_create :: "Key list"
  ok_replace :: "Key list"
  ok_delete :: "Key list"
  ok_unread :: "bool list"

definition no_writes :: Writes where
  "no_writes = \<lparr>w_create = None, w_replace = None, w_delete = None\<rparr>"

definition no_keys :: opKeys where
  "no_keys = \<lparr>ok_create = [], ok_replace = [], ok_delete = [], ok_unread = []\<rparr>"

text \<open>One key of the loop. Every key touched has a state.\<close>

definition net_step :: "(Key \<rightharpoonup> projectionState) \<Rightarrow> Key \<Rightarrow> Writes \<times> opKeys \<Rightarrow> Writes \<times> opKeys" where
  "net_step ps k acc =
     (case (acc, ps k) of
        (_, None) \<Rightarrow> acc
      | ((w, keys), Some s) \<Rightarrow>
          if \<not> ps_written s then acc
          else if \<not> ps_readFound s \<and> ps_found s
          then (w\<lparr>w_create := Some (elems (w_create w) @
                    [\<lparr>c_type = k_type k, c_id = k_id k, c_payload = Some (ps_payload s)\<rparr>])\<rparr>,
                keys\<lparr>ok_create := ok_create keys @ [k], ok_unread := ok_unread keys @ [ps_unread s]\<rparr>)
          else if ps_readFound s \<and> ps_found s
          then (w\<lparr>w_replace := Some (elems (w_replace w) @
                    [\<lparr>r_type = k_type k, r_id = k_id k, r_version = ps_readVersion s, r_payload = Some (ps_payload s)\<rparr>])\<rparr>,
                keys\<lparr>ok_replace := ok_replace keys @ [k]\<rparr>)
          else if ps_readFound s \<and> \<not> ps_found s
          then (w\<lparr>w_delete := Some (elems (w_delete w) @
                    [\<lparr>d_type = k_type k, d_id = k_id k, d_version = ps_readVersion s\<rparr>])\<rparr>,
                keys\<lparr>ok_delete := ok_delete keys @ [k]\<rparr>)
          else acc)"

definition netProjections :: "transaction \<Rightarrow> Writes \<times> opKeys" where
  "netProjections t = fold (net_step (tx_projections t)) (tx_touched t) (no_writes, no_keys)"

text \<open>\<open>opKeys.conflict\<close>. An index past its list panics.\<close>

definition conflict :: "opKeys \<Rightarrow> string \<Rightarrow> nat \<Rightarrow> tx_error" where
  "conflict keys op i =
     (if op = ''create'' then
        (if i < length (ok_unread keys) \<and> i < length (ok_create keys)
         then ConflictError (if ok_unread keys ! i then AlreadyExists (ok_create keys ! i) else CreatedSince (ok_create keys ! i))
         else IndexPanic)
      else if op = ''replace'' then
        (if i < length (ok_replace keys) then ConflictError (VersionMoved (ok_replace keys ! i)) else IndexPanic)
      else
        (if i < length (ok_delete keys) then ConflictError (VersionMoved (ok_delete keys ! i)) else IndexPanic))"

section \<open>The invariant of a transaction\<close>

definition tx_inv :: "Config \<Rightarrow> transaction \<Rightarrow> bool" where
  "tx_inv cfg t \<longleftrightarrow>
     distinct (tx_touched t) \<and> set (tx_touched t) = dom (tx_projections t) \<and>
     tx_written t = int (card {k. \<exists>s. tx_projections t k = Some s \<and> ps_written s}) \<and>
     int (length (tx_events t)) \<le> cf_MaxEventsPerTx cfg \<and>
     int (length (tx_conditions t)) + (if tx_open t = None then 0 else 1) \<le> cf_MaxReadsPerTx cfg \<and>
     tx_written t \<le> cf_MaxProjectionsPerTx cfg"

definition config_wf :: "Config \<Rightarrow> bool" where
  "config_wf cfg \<longleftrightarrow>
     0 < cf_IdleTimeout cfg \<and> 0 < cf_MaxEventsPerTx cfg \<and> 0 < cf_MaxReadsPerTx cfg \<and>
     0 < cf_MaxProjectionsPerTx cfg \<and> 0 < cf_MaxEventsPerTxRead cfg \<and> cf_MaxEventsPerTxRead cfg < max_i64 \<and>
     0 \<le> cf_MaxOpenTx cfg"

lemma new_transaction_inv: "config_wf cfg \<Longrightarrow> tx_inv cfg new_transaction"
  by (simp add: tx_inv_def new_transaction_def config_wf_def)

text \<open>What a read of events did, when it went well: \<open>d\<close> is the decision it read.\<close>

lemma tx_ReadEvents_Inr:
  assumes "tx_ReadEvents cfg decide f t = Inr (read, t')"
  obtains d where
    "if q_form (df_query f) = formNone then d = \<lparr>dn_events = [], dn_position = 0\<rparr>
     else decide (f\<lparr>df_limit := decision_limit cfg f\<rparr>) = Inr d"
    "tx_open t = None" "int (length (tx_conditions t)) + 1 \<le> cf_MaxReadsPerTx cfg"
    "t' = t\<lparr>tx_open := Some \<lparr>oc_query = df_query f, oc_position = dn_position d\<rparr>\<rparr>"
    "rd_committed read = dn_events d"
    "rd_pending read = in_order (df_backwards f) (pending_matches (df_query f) (tx_events t))"
    "rd_count read = sent_count f (length (rd_committed read) + length (rd_pending read))"
    "rd_count read \<le> cf_MaxEventsPerTxRead cfg"
    "rd_near_limit read \<longleftrightarrow> rd_count read > cf_MaxEventsPerTxRead cfg div 2"
proof -
  let ?res = "if q_form (df_query f) = formNone then Inr \<lparr>dn_events = [], dn_position = 0\<rparr>
     else decide (f\<lparr>df_limit := decision_limit cfg f\<rparr>)"
  have checks: "tx_open t = None" "int (length (tx_conditions t)) + 1 \<le> cf_MaxReadsPerTx cfg"
    using assms by (simp_all add: tx_ReadEvents_def split: if_splits)
  obtain d where d: "?res = Inr d"
    using assms checks by (cases ?res) (simp_all add: tx_ReadEvents_def Let_def)
  let ?pending = "pending_matches (df_query f) (tx_events t)"
  let ?n = "sent_count f (length (dn_events d) + length ?pending)"
  have n: "?n \<le> cf_MaxEventsPerTxRead cfg"
    using assms checks by (simp add: tx_ReadEvents_def Let_def d split: if_splits)
  have eq: "read = \<lparr>rd_committed = dn_events d, rd_pending = in_order (df_backwards f) ?pending,
      rd_count = ?n, rd_near_limit = ?n > cf_MaxEventsPerTxRead cfg div 2\<rparr>"
    "t' = t\<lparr>tx_open := Some \<lparr>oc_query = df_query f, oc_position = dn_position d\<rparr>\<rparr>"
    using assms checks n by (auto simp: tx_ReadEvents_def Let_def d in_order_def)
  have "if q_form (df_query f) = formNone then d = \<lparr>dn_events = [], dn_position = 0\<rparr>
     else decide (f\<lparr>df_limit := decision_limit cfg f\<rparr>) = Inr d"
    using d by (auto split: if_splits)
  then show ?thesis
    by (rule that) (use checks n in \<open>simp_all add: eq in_order_def\<close>)
qed

lemma tx_ReadEvents_inv:
  assumes "tx_ReadEvents cfg decide f t = Inr (read, t')" "tx_inv cfg t"
  shows "tx_inv cfg t'"
  using assms(1) by (rule tx_ReadEvents_Inr) (use assms(2) in \<open>simp add: tx_inv_def\<close>)

lemma tx_WriteEvents_inv:
  "tx_WriteEvents cfg now events t = Inr (time, t') \<Longrightarrow> tx_inv cfg t \<Longrightarrow> tx_inv cfg t'"
  by (auto simp: tx_WriteEvents_def tx_inv_def NewPendingEvents_def split: option.splits if_splits)

lemma tx_GetProjection_inv:
  assumes "tx_GetProjection get key t = Inr (x, t')" "tx_inv cfg t"
  shows "tx_inv cfg t'"
proof (cases "tx_projections t key")
  case None
  then have "key \<notin> set (tx_touched t)" using assms(2) by (auto simp: tx_inv_def)
  moreover have "{k. \<exists>s. ((tx_projections t)(key \<mapsto> p)) k = Some s \<and> ps_written s} =
      {k. \<exists>s. tx_projections t k = Some s \<and> ps_written s}" if "\<not> ps_written p" for p
    using None that by auto
  ultimately show ?thesis
    using assms None by (auto simp: tx_GetProjection_def tx_inv_def Let_def split: sum.splits)
qed (use assms in \<open>simp add: tx_GetProjection_def\<close>)

section \<open>Properties\<close>



end
