(* ===== verification/Request.thy ===== *)
theory Request
  imports Wire Transaction
begin

text \<open>
  The bodies of the requests (package api: \<open>body.go\<close>, and the requests of \<open>events.go\<close>,
  \<open>tx.go\<close> and \<open>projection.go\<close>): how a body is read whole and decoded, what each must hold,
  and what is refused before a request goes any further.
\<close>

section \<open>Errors\<close>

text \<open>
  An error of the API: a \<open>*dcb.ValidationError\<close> with the place it is about (empty for the
  request itself) and its rule, one of a projection, an item over a size limit, a body over the
  limit, a client that left before its body was read, or what the layers below return.
\<close>

datatype api_rule =
    Dcb dcb_error | MalformedBody | TooManyProjections | DuplicateProjectionKey string string | NegativeLimit | ZeroLimit
  | LimitExceedsMax | BackwardsAfterSequence | MissingEvents

datatype api_error =
    Invalid string api_rule
  | InvalidProjection string projection_error
  | Oversize string string int int
  | BodyTooLarge int
  | ClientGone
  | Failed tx_error

fun prefixed :: "string \<Rightarrow> api_error \<Rightarrow> api_error" where
  "prefixed path (Invalid p rule) = Invalid (if p = [] then path else path @ '': '' @ p) rule"
| "prefixed path (InvalidProjection p rule) = InvalidProjection (if p = [] then path else path @ '': '' @ p) rule"
| "prefixed path e = e"

text \<open>\<open>fmt.Sprintf("%s[%d]", list, i)\<close>.\<close>

definition at_index :: "string \<Rightarrow> nat \<Rightarrow> string" where
  "at_index list i = list @ ''['' @ decimal i @ '']''"

section \<open>Options\<close>

record Options =
  op_Version :: string
  op_AuthToken :: string
  op_DefaultEventsPerPage :: int
  op_MaxEventsPerPage :: int
  op_MaxEventSize :: int
  op_MaxProjectionSize :: int
  op_MaxProjectionsPerWrite :: int
  op_MaxRequestBodySize :: int
  op_DevMode :: bool
  op_LogLevel :: string

section \<open>Reading a body\<close>

text \<open>
  What arrives of a body: its bytes, and whether the client sent it to its end. Reading stops
  with an error past the limit (\<open>http.MaxBytesReader\<close>).
\<close>

record request_body =
  rb_bytes :: string
  rb_complete :: bool

definition readBody :: "int \<Rightarrow> request_body \<Rightarrow> api_error + string" where
  "readBody limit body =
     (if int (length (rb_bytes body)) > limit then Inl (BodyTooLarge limit)
      else if \<not> rb_complete body then Inl ClientGone
      else Inr (rb_bytes body))"

text \<open>
  Exactly one JSON value, of the shape of the request. A second value after it and a malformed
  one are both a \<open>*dcb.ValidationError\<close>.
\<close>

definition decode_body :: "('r \<Rightarrow> json \<Rightarrow> 'r option) \<Rightarrow> 'r \<Rightarrow> string \<Rightarrow> api_error + 'r" where
  "decode_body dec zero bytes =
     (case parse_json bytes of
        None \<Rightarrow> Inl (Invalid [] MalformedBody)
      | Some j \<Rightarrow> (case dec zero j of None \<Rightarrow> Inl (Invalid [] MalformedBody) | Some r \<Rightarrow> Inr r))"

definition decodeJSONStrict :: "Options \<Rightarrow> request_body \<Rightarrow> ('r \<Rightarrow> json \<Rightarrow> 'r option) \<Rightarrow> 'r \<Rightarrow> api_error + 'r" where
  "decodeJSONStrict opts body dec zero =
     bind_err (readBody (op_MaxRequestBodySize opts) body) (decode_body dec zero)"

text \<open>\<open>if err == nil { err = ... }\<close>: a check of what was decoded.\<close>

definition then_check :: "api_error + 'r \<Rightarrow> ('r \<Rightarrow> api_error option) \<Rightarrow> api_error + 'r" where
  "then_check m f = bind_err m (\<lambda>r. case f r of None \<Rightarrow> Inr r | Some e \<Rightarrow> Inl e)"

lemma then_check_Inr: "then_check m f = Inr r \<longleftrightarrow> m = Inr r \<and> f r = None"
  by (cases m) (auto simp: then_check_def split: option.splits)

section \<open>The requests of a read\<close>

record readRequest =
  rr_Query :: Query
  rr_AfterSequence :: "int option"
  rr_Limit :: "int option"
  rr_Backwards :: bool

definition no_query :: Query where
  "no_query = \<lparr>q_form = formItems, q_items = None\<rparr>"

definition no_readRequest :: readRequest where
  "no_readRequest = \<lparr>rr_Query = no_query, rr_AfterSequence = None, rr_Limit = None, rr_Backwards = False\<rparr>"

definition decode_query :: "(nat \<Rightarrow> bool) \<Rightarrow> json \<Rightarrow> Query option" where
  "decode_query is_print v = (case Query_UnmarshalJSON is_print v of Inl e \<Rightarrow> None | Inr q \<Rightarrow> Some q)"

definition readRequest_field :: "(nat \<Rightarrow> bool) \<Rightarrow> string \<Rightarrow> json \<Rightarrow> readRequest \<Rightarrow> readRequest option" where
  "readRequest_field is_print k v r =
     (if is_field ''query'' k then map_option (\<lambda>q. r\<lparr>rr_Query := q\<rparr>) (decode_query is_print v)
      else if is_field ''afterSequence'' k then
        map_option (\<lambda>n. r\<lparr>rr_AfterSequence := n\<rparr>) (decode_pointer decode_int 0 (rr_AfterSequence r) v)
      else if is_field ''limit'' k then map_option (\<lambda>n. r\<lparr>rr_Limit := n\<rparr>) (decode_pointer decode_int 0 (rr_Limit r) v)
      else if is_field ''backwards'' k then map_option (\<lambda>b. r\<lparr>rr_Backwards := b\<rparr>) (decode_bool (rr_Backwards r) v)
      else None)"

definition validateLimit :: "int \<Rightarrow> api_error option" where
  "validateLimit limit =
     (if limit < 0 then Some (Invalid [] NegativeLimit)
      else if limit = 0 then Some (Invalid [] ZeroLimit)
      else None)"

definition invalid_query :: "Query \<Rightarrow> api_error option" where
  "invalid_query q = map_option (\<lambda>e. Invalid [] (Dcb e)) (Query_Validate q)"

definition read_filter :: "Options \<Rightarrow> readRequest \<Rightarrow> api_error + ReadFilter" where
  "read_filter opts req =
     (case invalid_query (rr_Query req) of
        Some e \<Rightarrow> Inl e
      | None \<Rightarrow>
          if (case rr_AfterSequence req of None \<Rightarrow> False | Some a \<Rightarrow> a < 0) then Inl (Invalid [] (Dcb ErrNegativeAfterSequence))
          else if rr_AfterSequence req \<noteq> None \<and> rr_Backwards req then Inl (Invalid [] BackwardsAfterSequence)
          else
            (let filter = \<lparr>rf_query = rr_Query req, rf_after = rr_AfterSequence req, rf_limit = op_DefaultEventsPerPage opts,
               rf_backwards = rr_Backwards req\<rparr>
             in case rr_Limit req of
                  None \<Rightarrow> Inr filter
                | Some n \<Rightarrow>
                    (case validateLimit n of
                       Some e \<Rightarrow> Inl e
                     | None \<Rightarrow>
                         if n > op_MaxEventsPerPage opts then Inl (Invalid [] LimitExceedsMax)
                         else Inr (filter\<lparr>rf_limit := n\<rparr>))))"

definition parseReadRequest :: "(nat \<Rightarrow> bool) \<Rightarrow> Options \<Rightarrow> request_body \<Rightarrow> api_error + ReadFilter" where
  "parseReadRequest is_print opts body =
     bind_err (decodeJSONStrict opts body (decode_struct (readRequest_field is_print)) no_readRequest) (read_filter opts)"

text \<open>The read of a transaction: no position and no page.\<close>

record txReadRequest =
  tr_Query :: Query
  tr_Backwards :: bool
  tr_Limit :: "int option"

definition no_txReadRequest :: txReadRequest where
  "no_txReadRequest = \<lparr>tr_Query = no_query, tr_Backwards = False, tr_Limit = None\<rparr>"

definition txReadRequest_field :: "(nat \<Rightarrow> bool) \<Rightarrow> string \<Rightarrow> json \<Rightarrow> txReadRequest \<Rightarrow> txReadRequest option" where
  "txReadRequest_field is_print k v r =
     (if is_field ''query'' k then map_option (\<lambda>q. r\<lparr>tr_Query := q\<rparr>) (decode_query is_print v)
      else if is_field ''backwards'' k then map_option (\<lambda>b. r\<lparr>tr_Backwards := b\<rparr>) (decode_bool (tr_Backwards r) v)
      else if is_field ''limit'' k then map_option (\<lambda>n. r\<lparr>tr_Limit := n\<rparr>) (decode_pointer decode_int 0 (tr_Limit r) v)
      else None)"

definition tx_read_filter :: "(nat \<Rightarrow> bool) \<Rightarrow> Options \<Rightarrow> request_body \<Rightarrow> api_error + DecisionFilter" where
  "tx_read_filter is_print opts body =
     bind_err
       (then_check (decodeJSONStrict opts body (decode_struct (txReadRequest_field is_print)) no_txReadRequest)
         (\<lambda>req. invalid_query (tr_Query req)))
       (\<lambda>req.
         let f = \<lparr>df_query = tr_Query req, df_backwards = tr_Backwards req, df_limit = 0\<rparr>
         in case tr_Limit req of
              None \<Rightarrow> Inr f
            | Some n \<Rightarrow> (case validateLimit n of Some e \<Rightarrow> Inl e | None \<Rightarrow> Inr (f\<lparr>df_limit := n\<rparr>)))"

section \<open>The events of a write\<close>

definition no_EventInput :: EventInput where
  "no_EventInput = \<lparr>ei_type = [], ei_identifiers = [], ei_metadata = [], ei_payload = None\<rparr>"

definition EventInput_field :: "((string \<times> json) list \<Rightarrow> (string \<times> json) list) \<Rightarrow> string \<Rightarrow> json \<Rightarrow> EventInput \<Rightarrow> EventInput option" where
  "EventInput_field range_order k v r =
     (if is_field ''type'' k then map_option (\<lambda>s. r\<lparr>ei_type := s\<rparr>) (decode_string (ei_type r) v)
      else if is_field ''identifiers'' k then map_option (\<lambda>s. r\<lparr>ei_identifiers := s\<rparr>) (IdentifierSet_UnmarshalJSON range_order v)
      else if is_field ''metadata'' k then map_option (\<lambda>s. r\<lparr>ei_metadata := s\<rparr>) (MetadataSet_UnmarshalJSON range_order v)
      else if is_field ''payload'' k then map_option (\<lambda>s. r\<lparr>ei_payload := s\<rparr>) (decode_pointer decode_string [] (ei_payload r) v)
      else None)"

text \<open>\<open>Events\<close> is a pointer to a slice: \<open>None\<close> when its key is missing or \<open>null\<close>.\<close>

definition txEventsRequest_field :: "((string \<times> json) list \<Rightarrow> (string \<times> json) list) \<Rightarrow> string \<Rightarrow> json \<Rightarrow>
    (EventInput list option \<times> EventInput list) option \<Rightarrow> (EventInput list option \<times> EventInput list) option option" where
  "txEventsRequest_field range_order k v r =
     (if is_field ''events'' k
      then decode_pointer (decode_slice (decode_struct (EventInput_field range_order)) no_EventInput) (None, []) r v
      else None)"

fun validateEvents :: "nat \<Rightarrow> EventInput list \<Rightarrow> int \<Rightarrow> api_error option" where
  "validateEvents i [] maxEventSize = None"
| "validateEvents i (ev # evs) maxEventSize =
     (let at = at_index ''events'' i; size = int (Size (EventInput_Data ev)) in
      case EventInput_Validate ev of
        Some e \<Rightarrow> Some (prefixed at (Invalid [] (Dcb e)))
      | None \<Rightarrow>
          if size > maxEventSize then Some (Oversize at ''maxEventSize'' size maxEventSize)
          else validateEvents (Suc i) evs maxEventSize)"

definition eventData :: "EventInput list \<Rightarrow> EventData list" where
  "eventData events = map EventInput_Data events"

definition tx_events_request :: "((string \<times> json) list \<Rightarrow> (string \<times> json) list) \<Rightarrow> Options \<Rightarrow> request_body \<Rightarrow>
    api_error + EventInput list" where
  "tx_events_request range_order opts body =
     bind_err (decodeJSONStrict opts body (decode_struct (txEventsRequest_field range_order)) None) (\<lambda>req.
     case req of
       None \<Rightarrow> Inl (Invalid [] MissingEvents)
     | Some (events, mem) \<Rightarrow>
         then_check (Inr (elems events)) (\<lambda>evs. validateEvents 0 evs (op_MaxEventSize opts)))"

section \<open>Projections\<close>

definition Key_field :: "string \<Rightarrow> json \<Rightarrow> Key \<Rightarrow> Key option" where
  "Key_field k v r =
     (if is_field ''type'' k then map_option (\<lambda>s. r\<lparr>k_type := s\<rparr>) (decode_string (k_type r) v)
      else if is_field ''id'' k then map_option (\<lambda>s. r\<lparr>k_id := s\<rparr>) (decode_string (k_id r) v)
      else None)"

definition Create_field :: "string \<Rightarrow> json \<Rightarrow> Create \<Rightarrow> Create option" where
  "Create_field k v r =
     (if is_field ''type'' k then map_option (\<lambda>s. r\<lparr>c_type := s\<rparr>) (decode_string (c_type r) v)
      else if is_field ''id'' k then map_option (\<lambda>s. r\<lparr>c_id := s\<rparr>) (decode_string (c_id r) v)
      else if is_field ''payload'' k then map_option (\<lambda>s. r\<lparr>c_payload := s\<rparr>) (decode_pointer decode_string [] (c_payload r) v)
      else None)"

definition Replace_field :: "string \<Rightarrow> json \<Rightarrow> Replace \<Rightarrow> Replace option" where
  "Replace_field k v r =
     (if is_field ''type'' k then map_option (\<lambda>s. r\<lparr>r_type := s\<rparr>) (decode_string (r_type r) v)
      else if is_field ''id'' k then map_option (\<lambda>s. r\<lparr>r_id := s\<rparr>) (decode_string (r_id r) v)
      else if is_field ''version'' k then map_option (\<lambda>s. r\<lparr>r_version := s\<rparr>) (decode_string (r_version r) v)
      else if is_field ''payload'' k then map_option (\<lambda>s. r\<lparr>r_payload := s\<rparr>) (decode_pointer decode_string [] (r_payload r) v)
      else None)"

definition Delete_field :: "string \<Rightarrow> json \<Rightarrow> Delete \<Rightarrow> Delete option" where
  "Delete_field k v r =
     (if is_field ''type'' k then map_option (\<lambda>s. r\<lparr>d_type := s\<rparr>) (decode_string (d_type r) v)
      else if is_field ''id'' k then map_option (\<lambda>s. r\<lparr>d_id := s\<rparr>) (decode_string (d_id r) v)
      else if is_field ''version'' k then map_option (\<lambda>s. r\<lparr>d_version := s\<rparr>) (decode_string (d_version r) v)
      else None)"

definition no_Key :: Key where "no_Key = \<lparr>k_type = [], k_id = []\<rparr>"

definition no_Create :: Create where "no_Create = \<lparr>c_type = [], c_id = [], c_payload = None\<rparr>"

definition no_Replace :: Replace where "no_Replace = \<lparr>r_type = [], r_id = [], r_version = [], r_payload = None\<rparr>"

definition no_Delete :: Delete where "no_Delete = \<lparr>d_type = [], d_id = [], d_version = []\<rparr>"

text \<open>The three lists while their keys are read, each with the memory behind it.\<close>

type_synonym 'a slice = "'a list option \<times> 'a list"

definition Writes_field :: "string \<Rightarrow> json \<Rightarrow> Create slice \<times> Replace slice \<times> Delete slice \<Rightarrow>
    (Create slice \<times> Replace slice \<times> Delete slice) option" where
  "Writes_field k v r =
     (case r of (c, rp, d) \<Rightarrow>
        if is_field ''create'' k then map_option (\<lambda>x. (x, rp, d)) (decode_slice (decode_struct Create_field) no_Create c v)
        else if is_field ''replace'' k then map_option (\<lambda>x. (c, x, d)) (decode_slice (decode_struct Replace_field) no_Replace rp v)
        else if is_field ''delete'' k then map_option (\<lambda>x. (c, rp, x)) (decode_slice (decode_struct Delete_field) no_Delete d v)
        else None)"

definition txProjectionsRequest_field :: "string \<Rightarrow> json \<Rightarrow> Create slice \<times> Create slice \<times> Key slice \<Rightarrow>
    (Create slice \<times> Create slice \<times> Key slice) option" where
  "txProjectionsRequest_field k v r =
     (case r of (c, rp, d) \<Rightarrow>
        if is_field ''create'' k then map_option (\<lambda>x. (x, rp, d)) (decode_slice (decode_struct Create_field) no_Create c v)
        else if is_field ''replace'' k then map_option (\<lambda>x. (c, x, d)) (decode_slice (decode_struct Create_field) no_Create rp v)
        else if is_field ''delete'' k then map_option (\<lambda>x. (c, rp, x)) (decode_slice (decode_struct Key_field) no_Key d v)
        else None)"

definition projectionSize :: "string \<Rightarrow> string \<Rightarrow> string option \<Rightarrow> int" where
  "projectionSize typ ident payload =
     int (length typ) + int (length ident) + (case payload of None \<Rightarrow> 0 | Some p \<Rightarrow> int (length p))"

text \<open>
  \<open>validateProjections\<close>: \<open>check\<close> on each projection of the three lists, with the places of
  the keys seen so far. An item is what \<open>check\<close> gets of it: its key, its payload, and what its
  own \<open>Validate\<close> says.
\<close>

type_synonym check_item = "string \<times> string \<times> string option \<times> projection_error option"

definition check_projection :: "int \<Rightarrow> string \<Rightarrow> nat \<Rightarrow> check_item \<Rightarrow> (string \<times> string \<rightharpoonup> string) \<Rightarrow>
    api_error + (string \<times> string \<rightharpoonup> string)" where
  "check_projection maxSize oper i item seen =
     (case item of (typ, ident, payload, valid) \<Rightarrow>
        let at = at_index oper i; size = projectionSize typ ident payload in
        case valid of
          Some e \<Rightarrow> Inl (prefixed at (InvalidProjection [] e))
        | None \<Rightarrow>
            (case seen (typ, ident) of
               Some first \<Rightarrow> Inl (Invalid [] (DuplicateProjectionKey at first))
             | None \<Rightarrow>
                 if size > maxSize then Inl (Oversize at ''maxProjectionSize'' size maxSize)
                 else Inr (seen((typ, ident) \<mapsto> at))))"

fun check_list :: "int \<Rightarrow> string \<Rightarrow> nat \<Rightarrow> check_item list \<Rightarrow> (string \<times> string \<rightharpoonup> string) \<Rightarrow>
    api_error + (string \<times> string \<rightharpoonup> string)" where
  "check_list maxSize oper i [] seen = Inr seen"
| "check_list maxSize oper i (x # xs) seen =
     bind_err (check_projection maxSize oper i x seen) (check_list maxSize oper (Suc i) xs)"

definition create_item :: "Create \<Rightarrow> check_item" where
  "create_item c = (c_type c, c_id c, c_payload c, Create_Validate c)"

definition replace_item :: "Replace \<Rightarrow> check_item" where
  "replace_item r = (r_type r, r_id r, r_payload r, Replace_Validate r)"

definition delete_item :: "Delete \<Rightarrow> check_item" where
  "delete_item d = (d_type d, d_id d, None, Delete_Validate d)"

definition validateProjections :: "Writes \<Rightarrow> int \<Rightarrow> api_error option" where
  "validateProjections w maxProjectionSize =
     (case
        bind_err (check_list maxProjectionSize ''create'' 0 (map create_item (elems (w_create w))) Map.empty) (\<lambda>seen.
        bind_err (check_list maxProjectionSize ''replace'' 0 (map replace_item (elems (w_replace w))) seen) (\<lambda>seen.
        check_list maxProjectionSize ''delete'' 0 (map delete_item (elems (w_delete w))) seen)) of
        Inl e \<Rightarrow> Some e
      | Inr seen \<Rightarrow> None)"

definition validateWriteProjections :: "Options \<Rightarrow> Writes \<Rightarrow> api_error option" where
  "validateWriteProjections opts req =
     (if int (Writes_Len req) > op_MaxProjectionsPerWrite opts then Some (Invalid [] TooManyProjections)
      else validateProjections req (op_MaxProjectionSize opts))"

definition write_projections_request :: "Options \<Rightarrow> request_body \<Rightarrow> api_error + Writes" where
  "write_projections_request opts body =
     bind_err (decodeJSONStrict opts body (decode_struct Writes_field) ((None, []), (None, []), (None, []))) (\<lambda>(c, r, d).
     then_check (Inr \<lparr>w_create = fst c, w_replace = fst r, w_delete = fst d\<rparr>) (validateWriteProjections opts))"

definition get_projection_request :: "Options \<Rightarrow> request_body \<Rightarrow> api_error + Key" where
  "get_projection_request opts body =
     then_check (decodeJSONStrict opts body (decode_struct Key_field) no_Key)
       (\<lambda>key. map_option (InvalidProjection []) (Key_Validate key))"

text \<open>The writes of a transaction: each checked alone, since the transaction knows its own keys.\<close>

fun check_each :: "int \<Rightarrow> string \<Rightarrow> nat \<Rightarrow> check_item list \<Rightarrow> api_error option" where
  "check_each maxSize oper i [] = None"
| "check_each maxSize oper i ((typ, ident, payload, valid) # xs) =
     (let at = at_index oper i; size = projectionSize typ ident payload in
      case valid of
        Some e \<Rightarrow> Some (prefixed at (InvalidProjection [] e))
      | None \<Rightarrow>
          if size > maxSize then Some (Oversize at ''maxProjectionSize'' size maxSize)
          else check_each maxSize oper (Suc i) xs)"

definition key_item :: "Key \<Rightarrow> check_item" where
  "key_item k = (k_type k, k_id k, None, Key_Validate k)"

definition validateTxProjections :: "Options \<Rightarrow> Create list \<Rightarrow> Create list \<Rightarrow> Key list \<Rightarrow> api_error option" where
  "validateTxProjections opts create replace delete =
     (case check_each (op_MaxProjectionSize opts) ''create'' 0 (map create_item create) of
        Some e \<Rightarrow> Some e
      | None \<Rightarrow>
          (case check_each (op_MaxProjectionSize opts) ''replace'' 0 (map create_item replace) of
             Some e \<Rightarrow> Some e
           | None \<Rightarrow> check_each (op_MaxProjectionSize opts) ''delete'' 0 (map key_item delete)))"

text \<open>\<open>toTx\<close> reads each payload; \<open>None\<close> would be a nil pointer, a panic.\<close>

fun toTx :: "Create list \<Rightarrow> TxProjection list option" where
  "toTx [] = Some []"
| "toTx (p # ps) =
     (case c_payload p of
        None \<Rightarrow> None
      | Some s \<Rightarrow>
          map_option ((#) \<lparr>tp_key = \<lparr>k_type = c_type p, k_id = c_id p\<rparr>, tp_payload = s\<rparr>) (toTx ps))"

definition tx_projections_request :: "Options \<Rightarrow> request_body \<Rightarrow> api_error + Create list \<times> Create list \<times> Key list" where
  "tx_projections_request opts body =
     bind_err (decodeJSONStrict opts body (decode_struct txProjectionsRequest_field) ((None, []), (None, []), (None, []))) (\<lambda>(c, r, d).
     then_check (Inr (elems (fst c), elems (fst r), elems (fst d))) (\<lambda>(c, r, d). validateTxProjections opts c r d))"

section \<open>What a checked request holds\<close>

lemma validateLimit_None: "validateLimit n = None \<longleftrightarrow> 0 < n"
  by (auto simp: validateLimit_def)

lemma read_filter_Inr:
  assumes "read_filter opts req = Inr f" "0 < op_DefaultEventsPerPage opts" "op_DefaultEventsPerPage opts \<le> op_MaxEventsPerPage opts"
  shows "1 \<le> rf_limit f \<and> rf_limit f \<le> op_MaxEventsPerPage opts \<and> rf_query f = rr_Query req \<and> rf_after f = rr_AfterSequence req \<and>
    rf_backwards f = rr_Backwards req \<and> Query_Validate (rf_query f) = None \<and>
    (case rf_after f of None \<Rightarrow> True | Some a \<Rightarrow> 0 \<le> a \<and> \<not> rf_backwards f)"
  using assms by (auto simp: read_filter_def invalid_query_def validateLimit_def Let_def split: option.splits if_splits)

lemma validateEvents_None:
  "validateEvents i evs m = None \<longleftrightarrow>
    list_all (\<lambda>e. EventInput_Validate e = None \<and> int (Size (EventInput_Data e)) \<le> m) evs"
  by (induction evs arbitrary: i) (auto simp: Let_def split: option.splits)

lemma check_projection_Inr:
  "check_projection m oper i (typ, ident, payload, valid) seen = Inr seen' \<longleftrightarrow>
    valid = None \<and> seen (typ, ident) = None \<and> projectionSize typ ident payload \<le> m \<and>
    seen' = seen((typ, ident) \<mapsto> at_index oper i)"
  by (auto simp: check_projection_def Let_def split: option.splits)

definition item_key :: "check_item \<Rightarrow> string \<times> string" where
  "item_key x = (fst x, fst (snd x))"

definition projection_ok :: "int \<Rightarrow> check_item \<Rightarrow> bool" where
  "projection_ok m x \<longleftrightarrow> (case x of (typ, ident, payload, valid) \<Rightarrow> valid = None \<and> projectionSize typ ident payload \<le> m)"

lemma check_projection_ok:
  "check_projection m oper i x seen = Inr seen' \<longleftrightarrow>
    projection_ok m x \<and> item_key x \<notin> dom seen \<and> seen' = seen(item_key x \<mapsto> at_index oper i)"
  by (cases x) (auto simp: check_projection_Inr projection_ok_def item_key_def)

lemma check_list_iff:
  "(\<exists>s. check_list m oper i xs seen = Inr s) \<longleftrightarrow>
    list_all (projection_ok m) xs \<and> distinct (map item_key xs) \<and> item_key ` set xs \<inter> dom seen = {}"
proof (induction xs arbitrary: i seen)
  case (Cons x xs)
  have "(\<exists>s. check_list m oper i (x # xs) seen = Inr s) \<longleftrightarrow>
      projection_ok m x \<and> item_key x \<notin> dom seen \<and>
      (\<exists>s. check_list m oper (Suc i) xs (seen(item_key x \<mapsto> at_index oper i)) = Inr s)"
    by (auto simp: bind_err_iffs check_projection_ok)
  also have "\<dots> \<longleftrightarrow> list_all (projection_ok m) (x # xs) \<and> distinct (map item_key (x # xs)) \<and>
      item_key ` set (x # xs) \<inter> dom seen = {}"
    unfolding Cons.IH by (simp del: domIff) blast
  finally show ?case .
qed simp

lemma check_list_dom: "check_list m oper i xs seen = Inr s \<Longrightarrow> dom s = dom seen \<union> item_key ` set xs"
proof (induction xs arbitrary: i seen)
  case (Cons x xs)
  then obtain mid where "check_projection m oper i x seen = Inr mid" "check_list m oper (Suc i) xs mid = Inr s"
    by (auto simp: bind_err_iffs)
  with Cons.IH [of "Suc i" mid] show ?case by (auto simp: check_projection_ok simp del: domIff)
qed simp

lemma check_each_None: "check_each m oper i xs = None \<longleftrightarrow> list_all (projection_ok m) xs"
  by (induction m oper i xs rule: check_each.induct) (auto simp: Let_def projection_ok_def split: option.splits)

text \<open>A write of projections is accepted exactly when each one is valid, none repeats a key, and none is too large.\<close>

definition write_items :: "Writes \<Rightarrow> check_item list" where
  "write_items w = map create_item (elems (w_create w)) @ map replace_item (elems (w_replace w)) @ map delete_item (elems (w_delete w))"

lemma check_three_lists:
  "(\<exists>s. bind_err (check_list m o1 0 xs Map.empty) (\<lambda>s1. bind_err (check_list m o2 0 ys s1) (check_list m o3 0 zs)) = Inr s) \<longleftrightarrow>
    list_all (projection_ok m) (xs @ ys @ zs) \<and> distinct (map item_key (xs @ ys @ zs))"
  (is "?run \<longleftrightarrow> ?ok")
proof
  assume ?run
  then obtain s s1 s2 where run: "check_list m o1 0 xs Map.empty = Inr s1" "check_list m o2 0 ys s1 = Inr s2"
    "check_list m o3 0 zs s2 = Inr s" by (auto simp: bind_err_iffs)
  have ok: "list_all (projection_ok m) xs \<and> distinct (map item_key xs) \<and> item_key ` set xs \<inter> dom seen = {}"
    if "check_list m oper i xs seen = Inr s" for oper i xs s and seen :: "string \<times> string \<rightharpoonup> string"
    using check_list_iff [of m oper i xs seen] that by blast
  from ok [OF run(1)] ok [OF run(2)] ok [OF run(3)] check_list_dom [OF run(1)] check_list_dom [OF run(2)] show ?ok
    by (auto simp del: domIff)
next
  assume ok: ?ok
  then obtain s1 where s1: "check_list m o1 0 xs Map.empty = Inr s1" using check_list_iff [of m o1 0 xs Map.empty] by auto
  have "item_key ` set ys \<inter> dom s1 = {}" using ok check_list_dom [OF s1] by auto
  then obtain s2 where s2: "check_list m o2 0 ys s1 = Inr s2" using check_list_iff [of m o2 0 ys s1] ok by auto
  have "item_key ` set zs \<inter> dom s2 = {}" using ok check_list_dom [OF s1] check_list_dom [OF s2] by auto
  then obtain s where "check_list m o3 0 zs s2 = Inr s" using check_list_iff [of m o3 0 zs s2] ok by auto
  with s1 s2 show ?run by auto
qed

lemma validateProjections_None:
  "validateProjections w m = None \<longleftrightarrow> list_all (projection_ok m) (write_items w) \<and> distinct (map item_key (write_items w))"
proof -
  have "validateProjections w m = None \<longleftrightarrow>
      (\<exists>s. bind_err (check_list m ''create'' 0 (map create_item (elems (w_create w))) Map.empty) (\<lambda>seen.
        bind_err (check_list m ''replace'' 0 (map replace_item (elems (w_replace w))) seen)
        (check_list m ''delete'' 0 (map delete_item (elems (w_delete w))))) = Inr s)"
    by (simp add: validateProjections_def split: sum.split)
  then show ?thesis by (simp only: check_three_lists write_items_def)
qed

lemma toTx_valid: "list_all (projection_ok m) (map create_item ps) \<Longrightarrow> \<exists>ts. toTx ps = Some ts"
proof (induction ps)
  case (Cons p ps)
  then obtain s where "c_payload p = Some s"
    by (cases "c_payload p")
      (auto simp: create_item_def projection_ok_def Create_Validate_def validatePayload_def split: option.splits)
  with Cons show ?case by auto
qed simp

end
