(* ===== verification/Netwrites.thy ===== *)
theory Netwrites
  imports Transaction
begin

text \<open>
  The projections of a transaction: each write changes the view the transaction has of them as
  one would expect, and the one store operation per projection that a commit turns it all into
  (\<open>netProjections\<close>) has the same effect, provided nothing moved since it was read.
\<close>

section \<open>Folds over distinct keys\<close>

lemma fold_pointwise:
  assumes step: "\<And>p t. get (f p t) = (\<lambda>k. if k = key p then g p (get t k) else get t k)"
    and "distinct (map key ps)"
  shows "get (fold f ps t) k = (case find (\<lambda>p. key p = k) ps of None \<Rightarrow> get t k | Some p \<Rightarrow> g p (get t k))"
  using assms(2)
proof (induction ps arbitrary: t)
  case (Cons p ps)
  have "find (\<lambda>p'. key p' = key p) ps = None"
    using Cons.prems by (force simp: find_None_iff image_iff)
  with Cons show ?case by (auto simp: step split: option.split)
qed simp

lemma find_key: "distinct (map key ps) \<Longrightarrow> p \<in> set ps \<Longrightarrow> find (\<lambda>p'. key p' = key p) ps = Some p"
  by (induction ps) force+

lemma find_no_key: "k \<notin> key ` set ps \<Longrightarrow> find (\<lambda>p. key p = k) ps = None"
  by (auto simp: find_None_iff)

section \<open>The checks of a write\<close>

lemma check_creates_Inr:
  "check_creates ps seen xs = Inr seen' \<Longrightarrow>
     seen' = seen @ map tp_key xs \<and> (distinct seen \<longrightarrow> distinct seen') \<and> (\<forall>p\<in>set xs. \<not> exists_now ps (tp_key p))"
  by (induction xs arbitrary: seen) (fastforce simp: once_def bind_err_iffs split: if_splits)+

lemma check_replaces_Inr:
  "check_replaces ps seen xs = Inr seen' \<Longrightarrow>
     seen' = seen @ map tp_key xs \<and> (distinct seen \<longrightarrow> distinct seen') \<and> (\<forall>p\<in>set xs. exists_now ps (tp_key p))"
  by (induction xs arbitrary: seen) (fastforce simp: once_def readFirst_def bind_err_iffs split: if_splits)+

lemma check_deletes_Inr:
  "check_deletes ps seen xs = Inr seen' \<Longrightarrow>
     seen' = seen @ xs \<and> (distinct seen \<longrightarrow> distinct seen') \<and> (\<forall>k\<in>set xs. ps k \<noteq> None)"
  by (induction xs arbitrary: seen) (fastforce simp: once_def readFirst_def bind_err_iffs split: if_splits)+

lemma exists_now_dom: "exists_now ps k \<Longrightarrow> ps k \<noteq> None"
  by (auto simp: exists_now_def split: option.splits)

definition written_keys :: "TxWrites \<Rightarrow> Key list" where
  "written_keys w = map tp_key (tw_create w) @ map tp_key (tw_replace w) @ tw_delete w"

lemma tx_WriteProjections_Inr:
  assumes "tx_WriteProjections cfg now w t = Inr (time, t')"
  shows "time = now" "tx_open t = None" "distinct (written_keys w)"
    "\<forall>p\<in>set (tw_create w). \<not> exists_now (tx_projections t) (tp_key p)"
    "\<forall>p\<in>set (tw_replace w). exists_now (tx_projections t) (tp_key p)"
    "\<forall>k\<in>set (tw_delete w). tx_projections t k \<noteq> None"
    "tx_written t + int (length (filter (not_written (tx_projections t)) (written_keys w))) \<le> cf_MaxProjectionsPerTx cfg"
    "t' = fold apply_delete (tw_delete w) (fold apply_replace (tw_replace w) (fold apply_create (tw_create w)
       (t\<lparr>tx_written := tx_written t + int (length (filter (not_written (tx_projections t)) (written_keys w)))\<rparr>)))"
proof -
  obtain s1 s2 s3 where
    1: "check_creates (tx_projections t) [] (tw_create w) = Inr s1" and
    2: "check_replaces (tx_projections t) s1 (tw_replace w) = Inr s2" and
    3: "check_deletes (tx_projections t) s2 (tw_delete w) = Inr s3"
    using assms by (auto simp: tx_WriteProjections_def bind_err_iffs split: if_splits)
  have s3: "s3 = written_keys w"
    using check_creates_Inr [OF 1] check_replaces_Inr [OF 2] check_deletes_Inr [OF 3]
    by (simp add: written_keys_def)
  have "distinct s3"
    using check_creates_Inr [OF 1] check_replaces_Inr [OF 2] check_deletes_Inr [OF 3]
    by (metis distinct.simps(1))
  with s3 have d: "distinct (written_keys w)" by simp
  show "distinct (written_keys w)" by (rule d)
  show "\<forall>p\<in>set (tw_create w). \<not> exists_now (tx_projections t) (tp_key p)"
    "\<forall>p\<in>set (tw_replace w). exists_now (tx_projections t) (tp_key p)"
    "\<forall>k\<in>set (tw_delete w). tx_projections t k \<noteq> None"
    using check_creates_Inr [OF 1] check_replaces_Inr [OF 2] check_deletes_Inr [OF 3] by blast+
  show "time = now" "tx_open t = None"
    "tx_written t + int (length (filter (not_written (tx_projections t)) (written_keys w))) \<le> cf_MaxProjectionsPerTx cfg"
    "t' = fold apply_delete (tw_delete w) (fold apply_replace (tw_replace w) (fold apply_create (tw_create w)
       (t\<lparr>tx_written := tx_written t + int (length (filter (not_written (tx_projections t)) (written_keys w)))\<rparr>)))"
    using assms 1 2 3 s3 by (auto simp: tx_WriteProjections_def Let_def split: if_splits)
qed

section \<open>What a write does\<close>

definition created :: "TxProjection \<Rightarrow> projectionState option \<Rightarrow> projectionState option" where
  "created p old =
     Some ((case old of None \<Rightarrow> unread_state | Some s \<Rightarrow> s)
       \<lparr>ps_found := True, ps_payload := tp_payload p, ps_written := True\<rparr>)"

definition replaced :: "TxProjection \<Rightarrow> projectionState option \<Rightarrow> projectionState option" where
  "replaced p old = map_option (\<lambda>s. s\<lparr>ps_payload := tp_payload p, ps_written := True\<rparr>) old"

definition deleted :: "projectionState option \<Rightarrow> projectionState option" where
  "deleted old = map_option (\<lambda>s. s\<lparr>ps_found := False, ps_payload := [], ps_written := True\<rparr>) old"

lemma apply_states:
  "tx_projections (apply_create p t) = (\<lambda>k. if k = tp_key p then created p (tx_projections t k) else tx_projections t k)"
  "tx_projections (apply_replace p t) = (\<lambda>k. if k = tp_key p then replaced p (tx_projections t k) else tx_projections t k)"
  "tx_projections (apply_delete d t) = (\<lambda>k. if k = d then deleted (tx_projections t k) else tx_projections t k)"
  by (auto simp: apply_create_def apply_replace_def apply_delete_def created_def replaced_def deleted_def Let_def)

text \<open>The state of each projection after a write.\<close>

definition state_after :: "TxWrites \<Rightarrow> (Key \<rightharpoonup> projectionState) \<Rightarrow> Key \<rightharpoonup> projectionState" where
  "state_after w ps k =
     (let s1 = (case find (\<lambda>p. tp_key p = k) (tw_create w) of None \<Rightarrow> ps k | Some p \<Rightarrow> created p (ps k));
          s2 = (case find (\<lambda>p. tp_key p = k) (tw_replace w) of None \<Rightarrow> s1 | Some p \<Rightarrow> replaced p s1)
      in case find (\<lambda>d. d = k) (tw_delete w) of None \<Rightarrow> s2 | Some d \<Rightarrow> deleted s2)"

lemma state_after_write:
  assumes "tx_WriteProjections cfg now w t = Inr (time, t')"
  shows "tx_projections t' = state_after w (tx_projections t)"
proof
  fix k
  have d: "distinct (map tp_key (tw_create w))" "distinct (map tp_key (tw_replace w))" "distinct (map (\<lambda>d. d) (tw_delete w))"
    using tx_WriteProjections_Inr(3) [OF assms] by (auto simp: written_keys_def)
  show "tx_projections t' k = state_after w (tx_projections t) k"
    unfolding tx_WriteProjections_Inr(8) [OF assms] state_after_def Let_def
      fold_pointwise [of tx_projections apply_delete "\<lambda>d. d" "\<lambda>_. deleted", OF apply_states(3) d(3)]
      fold_pointwise [of tx_projections apply_replace tp_key replaced, OF apply_states(2) d(2)]
      fold_pointwise [of tx_projections apply_create tp_key created, OF apply_states(1) d(1)]
    by (simp cong: option.case_cong)
qed

lemma write_elsewhere: "k \<notin> set (written_keys w) \<Longrightarrow> state_after w ps k = ps k"
  by (simp add: state_after_def written_keys_def find_no_key find_no_key [of k "\<lambda>d. d"])

lemma find_id_None: "k \<notin> set ds \<Longrightarrow> find (\<lambda>d. d = k) ds = None"
  by (auto simp: find_None_iff)

lemma find_id_Some: "k \<in> set ds \<Longrightarrow> find (\<lambda>d. d = k) ds = Some k"
  by (induction ds) auto

lemma write_states:
  assumes "distinct (written_keys w)"
  shows "p \<in> set (tw_create w) \<Longrightarrow> state_after w ps (tp_key p) = created p (ps (tp_key p))"
    and "p \<in> set (tw_replace w) \<Longrightarrow> state_after w ps (tp_key p) = replaced p (ps (tp_key p))"
    and "k \<in> set (tw_delete w) \<Longrightarrow> state_after w ps k = deleted (ps k)"
proof -
  have d: "distinct (map tp_key (tw_create w))" "distinct (map tp_key (tw_replace w))"
    "tp_key ` set (tw_create w) \<inter> tp_key ` set (tw_replace w) = {}" "tp_key ` set (tw_create w) \<inter> set (tw_delete w) = {}"
    "tp_key ` set (tw_replace w) \<inter> set (tw_delete w) = {}"
    using assms by (auto simp: written_keys_def)
  show "state_after w ps (tp_key p) = created p (ps (tp_key p))" if "p \<in> set (tw_create w)"
  proof -
    from that d have "tp_key p \<notin> tp_key ` set (tw_replace w)" "tp_key p \<notin> set (tw_delete w)" by blast+
    then show ?thesis
      by (simp add: state_after_def find_key [OF d(1) that] find_no_key find_id_None)
  qed
  show "state_after w ps (tp_key p) = replaced p (ps (tp_key p))" if "p \<in> set (tw_replace w)"
  proof -
    from that d have "tp_key p \<notin> tp_key ` set (tw_create w)" "tp_key p \<notin> set (tw_delete w)" by blast+
    then show ?thesis
      by (simp add: state_after_def find_key [OF d(2) that] find_no_key find_id_None)
  qed
  show "state_after w ps k = deleted (ps k)" if "k \<in> set (tw_delete w)"
  proof -
    from that d have "k \<notin> tp_key ` set (tw_create w)" "k \<notin> tp_key ` set (tw_replace w)" by blast+
    then show ?thesis by (simp add: state_after_def find_no_key find_id_Some [OF that])
  qed
qed

section \<open>The view of a transaction\<close>

text \<open>
  What the transaction sees of one projection: its own state of it, or what the store holds.
\<close>

definition tx_view :: "(Key \<Rightarrow> string option) \<Rightarrow> transaction \<Rightarrow> Key \<Rightarrow> string option" where
  "tx_view stored t k =
     (case tx_projections t k of
        None \<Rightarrow> stored k
      | Some s \<Rightarrow> if ps_found s then Some (ps_payload s) else None)"

lemma tx_view_write:
  assumes w: "tx_WriteProjections cfg now w t = Inr (time, t')"
  shows "p \<in> set (tw_create w) \<Longrightarrow> tx_view stored t' (tp_key p) = Some (tp_payload p)"
    and "p \<in> set (tw_replace w) \<Longrightarrow> tx_view stored t' (tp_key p) = Some (tp_payload p)"
    and "k \<in> set (tw_delete w) \<Longrightarrow> tx_view stored t' k = None"
    and "k \<notin> set (written_keys w) \<Longrightarrow> tx_view stored t' k = tx_view stored t k"
  using write_states [OF tx_WriteProjections_Inr(3) [OF w], of _ "tx_projections t"]
    write_elsewhere [of k w "tx_projections t"] tx_WriteProjections_Inr(5,6) [OF w]
  by (auto simp: tx_view_def state_after_write [OF w] created_def replaced_def deleted_def exists_now_def
      dest!: bspec split: option.splits)

section \<open>The invariant is kept\<close>

definition touched_ok :: "transaction \<Rightarrow> bool" where
  "touched_ok t \<longleftrightarrow> distinct (tx_touched t) \<and> set (tx_touched t) = dom (tx_projections t)"

lemma fold_keeps: "(\<And>x t. P t \<Longrightarrow> P (f x t)) \<Longrightarrow> P t \<Longrightarrow> P (fold f xs t)"
  by (induction xs arbitrary: t) auto

lemma touched_create: "touched_ok t \<Longrightarrow> touched_ok (apply_create p t)"
  by (auto simp: touched_ok_def apply_create_def Let_def split: if_splits)

lemma touched_replace: "touched_ok t \<Longrightarrow> touched_ok (apply_replace p t)"
  by (auto simp: touched_ok_def apply_replace_def dom_def)

lemma touched_delete: "touched_ok t \<Longrightarrow> touched_ok (apply_delete k t)"
  by (auto simp: touched_ok_def apply_delete_def dom_def)

lemma apply_rest [simp]:
  "tx_written (apply_create p t) = tx_written t" "tx_events (apply_create p t) = tx_events t"
  "tx_conditions (apply_create p t) = tx_conditions t" "tx_open (apply_create p t) = tx_open t"
  "tx_written (apply_replace p t) = tx_written t" "tx_events (apply_replace p t) = tx_events t"
  "tx_conditions (apply_replace p t) = tx_conditions t" "tx_open (apply_replace p t) = tx_open t"
  "tx_written (apply_delete k t) = tx_written t" "tx_events (apply_delete k t) = tx_events t"
  "tx_conditions (apply_delete k t) = tx_conditions t" "tx_open (apply_delete k t) = tx_open t"
  by (simp_all add: apply_create_def apply_replace_def apply_delete_def Let_def)

text \<open>What the applications of a write leave alone.\<close>

definition tx_rest where
  "tx_rest t = (tx_written t, tx_events t, tx_conditions t, tx_open t)"

lemma fold_rest:
  "tx_rest (fold apply_create cs t) = tx_rest t"
  "tx_rest (fold apply_replace rs t) = tx_rest t"
  "tx_rest (fold apply_delete ds t) = tx_rest t"
proof -
  show "tx_rest (fold apply_create cs t) = tx_rest t"
    by (induction cs arbitrary: t) (simp_all add: tx_rest_def)
  show "tx_rest (fold apply_replace rs t) = tx_rest t"
    by (induction rs arbitrary: t) (simp_all add: tx_rest_def)
  show "tx_rest (fold apply_delete ds t) = tx_rest t"
    by (induction ds arbitrary: t) (simp_all add: tx_rest_def)
qed

definition written_set :: "(Key \<rightharpoonup> projectionState) \<Rightarrow> Key set" where
  "written_set ps = {k. \<exists>s. ps k = Some s \<and> ps_written s}"

lemma written_set_after:
  assumes w: "tx_WriteProjections cfg now w t = Inr (time, t')"
  shows "written_set (tx_projections t') = written_set (tx_projections t) \<union> set (written_keys w)"
proof (rule set_eqI)
  fix k
  note d = tx_WriteProjections_Inr(3) [OF w]
  show "k \<in> written_set (tx_projections t') \<longleftrightarrow> k \<in> written_set (tx_projections t) \<union> set (written_keys w)"
  proof (cases "k \<in> set (written_keys w)")
    case False
    then show ?thesis by (simp add: written_set_def state_after_write [OF w] write_elsewhere)
  next
    case True
    then consider p where "p \<in> set (tw_create w)" "k = tp_key p" | p where "p \<in> set (tw_replace w)" "k = tp_key p"
      | "k \<in> set (tw_delete w)"
      by (auto simp: written_keys_def)
    then have "k \<in> written_set (tx_projections t')"
      using write_states [OF d, of _ "tx_projections t"] tx_WriteProjections_Inr(5,6) [OF w]
      by cases (auto simp: written_set_def state_after_write [OF w] created_def replaced_def deleted_def dest!: bspec exists_now_dom)
    with True show ?thesis by simp
  qed
qed

lemma tx_WriteProjections_inv:
  assumes w: "tx_WriteProjections cfg now w t = Inr (time, t')" and inv: "tx_inv cfg t"
  shows "tx_inv cfg t'"
proof -
  let ?n = "tx_written t + int (length (filter (not_written (tx_projections t)) (written_keys w)))"
  note t' = tx_WriteProjections_Inr(8) [OF w]
  have "touched_ok (t\<lparr>tx_written := ?n\<rparr>)" using inv by (simp add: tx_inv_def touched_ok_def)
  then have touched: "touched_ok t'"
    unfolding t'
    by (intro fold_keeps [where P = touched_ok, OF touched_delete] fold_keeps [where P = touched_ok, OF touched_replace]
        fold_keeps [where P = touched_ok, OF touched_create])
  have "tx_rest t' = tx_rest (t\<lparr>tx_written := ?n\<rparr>)" unfolding t' by (simp only: fold_rest)
  then have rest: "tx_written t' = ?n" "tx_events t' = tx_events t" "tx_conditions t' = tx_conditions t" "tx_open t' = tx_open t"
    by (simp_all add: tx_rest_def)
  have fin: "finite (written_set (tx_projections t))"
  proof (rule finite_subset)
    show "written_set (tx_projections t) \<subseteq> dom (tx_projections t)" by (auto simp: written_set_def)
    show "finite (dom (tx_projections t))" using inv unfolding tx_inv_def by (metis List.finite_set)
  qed
  have "card (written_set (tx_projections t) \<union> set (written_keys w)) =
      card (written_set (tx_projections t)) + card (set (written_keys w) - written_set (tx_projections t))"
    using card_Un_disjoint [of "written_set (tx_projections t)" "set (written_keys w) - written_set (tx_projections t)"] fin
    by (simp add: Un_Diff_cancel)
  also have "set (written_keys w) - written_set (tx_projections t) = set (filter (not_written (tx_projections t)) (written_keys w))"
    by (auto simp: written_set_def not_written_def split: option.splits)
  also have "card \<dots> = length (filter (not_written (tx_projections t)) (written_keys w))"
    using tx_WriteProjections_Inr(3) [OF w] by (intro distinct_card) simp
  finally have "tx_written t' = int (card (written_set (tx_projections t')))"
    using inv by (simp add: rest(1) written_set_after [OF w]) (simp add: tx_inv_def written_set_def)
  then show ?thesis
    using inv touched rest tx_WriteProjections_Inr(7) [OF w] by (simp add: tx_inv_def touched_ok_def written_set_def)
qed

section \<open>The net writes\<close>

definition kk :: "Key \<Rightarrow> string \<times> string" where
  "kk k = (k_type k, k_id k)"

lemma kk_eq [simp]: "kk k = kk k' \<longleftrightarrow> k = k'"
  by (cases k; cases k') (simp add: kk_def)

lemma inj_kk: "inj kk"
  by (simp add: inj_def)

definition written_state :: "(Key \<rightharpoonup> projectionState) \<Rightarrow> (projectionState \<Rightarrow> bool) \<Rightarrow> Key \<Rightarrow> bool" where
  "written_state ps P k \<longleftrightarrow> (\<exists>s. ps k = Some s \<and> ps_written s \<and> P s)"

abbreviation net_create where "net_create ps \<equiv> written_state ps (\<lambda>s. \<not> ps_readFound s \<and> ps_found s)"
abbreviation net_replace where "net_replace ps \<equiv> written_state ps (\<lambda>s. ps_readFound s \<and> ps_found s)"
abbreviation net_delete where "net_delete ps \<equiv> written_state ps (\<lambda>s. ps_readFound s \<and> \<not> ps_found s)"

definition state_of :: "(Key \<rightharpoonup> projectionState) \<Rightarrow> Key \<Rightarrow> projectionState" where
  "state_of ps k = (case ps k of None \<Rightarrow> unread_state | Some s \<Rightarrow> s)"

definition create_of where
  "create_of ps k = \<lparr>c_type = k_type k, c_id = k_id k, c_payload = Some (ps_payload (state_of ps k))\<rparr>"

definition replace_of where
  "replace_of ps k = \<lparr>r_type = k_type k, r_id = k_id k, r_version = ps_readVersion (state_of ps k),
    r_payload = Some (ps_payload (state_of ps k))\<rparr>"

definition delete_of where
  "delete_of ps k = \<lparr>d_type = k_type k, d_id = k_id k, d_version = ps_readVersion (state_of ps k)\<rparr>"

text \<open>What the loop has collected from the keys so far.\<close>

definition net_lists :: "(Key \<rightharpoonup> projectionState) \<Rightarrow> Key list \<Rightarrow> Writes \<times> opKeys \<Rightarrow> bool" where
  "net_lists ps ks acc \<longleftrightarrow>
     elems (w_create (fst acc)) = map (create_of ps) (filter (net_create ps) ks) \<and>
     elems (w_replace (fst acc)) = map (replace_of ps) (filter (net_replace ps) ks) \<and>
     elems (w_delete (fst acc)) = map (delete_of ps) (filter (net_delete ps) ks) \<and>
     ok_create (snd acc) = filter (net_create ps) ks \<and>
     ok_unread (snd acc) = map (\<lambda>k. ps_unread (state_of ps k)) (filter (net_create ps) ks) \<and>
     ok_replace (snd acc) = filter (net_replace ps) ks \<and>
     ok_delete (snd acc) = filter (net_delete ps) ks"

lemma net_lists_step: "net_lists ps ks acc \<Longrightarrow> net_lists ps (ks @ [k]) (net_step ps k acc)"
proof (cases "ps k")
  case None
  then show "net_lists ps ks acc \<Longrightarrow> net_lists ps (ks @ [k]) (net_step ps k acc)"
    by (simp add: net_lists_def net_step_def written_state_def split: prod.split)
next
  case (Some s)
  obtain w keys where acc: "acc = (w, keys)" by fastforce
  show "net_lists ps ks acc \<Longrightarrow> net_lists ps (ks @ [k]) (net_step ps k acc)"
    by (cases "ps_written s"; cases "ps_readFound s"; cases "ps_found s")
      (simp_all add: acc Some net_lists_def net_step_def written_state_def create_of_def replace_of_def
        delete_of_def state_of_def)
qed

lemma net_lists_fold: "net_lists ps ks acc \<Longrightarrow> net_lists ps (ks @ ks') (fold (net_step ps) ks' acc)"
proof (induction ks' arbitrary: ks acc)
  case (Cons k ks')
  from Cons.IH [OF net_lists_step [OF Cons.prems, of k]] show ?case by simp
qed simp

lemma netProjections_lists: "net_lists (tx_projections t) (tx_touched t) (netProjections t)"
  using net_lists_fold [of "tx_projections t" "[]" "(no_writes, no_keys)" "tx_touched t"]
  by (simp add: netProjections_def net_lists_def no_writes_def no_keys_def)

section \<open>Conditional writes of distinct keys\<close>

definition rows :: "cond_write list \<Rightarrow> ((string \<times> string) \<times> row) list" where
  "rows ws = map (\<lambda>(k, ok, row). (k, row)) ws"

definition after_writes :: "cond_write list \<Rightarrow> ((string \<times> string) \<rightharpoonup> (string \<times> string)) \<Rightarrow> (string \<times> string) \<rightharpoonup> (string \<times> string)" where
  "after_writes ws m k = (case map_of (rows ws) k of None \<Rightarrow> m k | Some row \<Rightarrow> row)"

lemma map_of_rows_None: "map_of (rows ws) k = None \<longleftrightarrow> k \<notin> fst ` set ws"
  by (auto simp: map_of_eq_None_iff rows_def image_image case_prod_unfold)

lemma run_writes_Inr:
  assumes "distinct (map fst ws)"
  shows "run_writes op i ws m = Inr m' \<longleftrightarrow> (\<forall>(k, ok, row)\<in>set ws. ok (m k)) \<and> m' = after_writes ws m"
  using assms
proof (induction ws arbitrary: i m)
  case Nil
  then show ?case by (auto simp: after_writes_def rows_def fun_eq_iff)
next
  case (Cons w ws)
  obtain k ok row where w: "w = (k, ok, row)" by (metis prod_cases3)
  have fresh: "k \<notin> fst ` set ws" using Cons.prems by (simp add: w)
  then have "(\<forall>(k', ok, row')\<in>set ws. ok ((m(k := row)) k')) \<longleftrightarrow> (\<forall>(k', ok, row')\<in>set ws. ok (m k'))"
    by (force simp: image_iff)
  moreover have "after_writes ws (m(k := row)) = after_writes (w # ws) m"
    using fresh map_of_rows_None [of ws k]
    by (auto simp: after_writes_def fun_eq_iff w rows_def split: option.splits)
  moreover have "run_writes op i (w # ws) m = Inr m' \<longleftrightarrow> ok (m k) \<and> run_writes op (Suc i) ws (m(k := row)) = Inr m'"
    by (simp add: w)
  moreover have "distinct (map fst ws)" using Cons.prems by simp
  ultimately show ?case using Cons.IH [of "Suc i" "m(k := row)"] by (simp add: w del: fun_upd_apply run_writes.simps)
qed

lemma run_writes_Inl:
  assumes "run_writes op i ws m = Inl e" "distinct (map fst ws)"
  shows "\<exists>j<length ws. e = ProjectionConflictError op (i + j) \<and> \<not> fst (snd (ws ! j)) (m (fst (ws ! j)))"
  using assms
proof (induction ws arbitrary: i m)
  case (Cons w ws)
  obtain k ok row where w: "w = (k, ok, row)" by (metis prod_cases3)
  show ?case
  proof (cases "ok (m k)")
    case True
    with Cons.prems w have "run_writes op (Suc i) ws (m(k := row)) = Inl e" "distinct (map fst ws)" by simp_all
    from Cons.IH [OF this] obtain j where j: "j < length ws" "e = ProjectionConflictError op (Suc i + j)"
      "\<not> fst (snd (ws ! j)) ((m(k := row)) (fst (ws ! j)))"
      by (elim exE conjE)
    have "fst (ws ! j) \<in> fst ` set ws" using j(1) by (intro imageI nth_mem)
    then have "fst (ws ! j) \<noteq> k" using Cons.prems(2) by (auto simp: w)
    with j show ?thesis by (intro exI [of _ "Suc j"]) simp
  next
    case False
    with Cons.prems(1) show ?thesis by (intro exI [of _ 0]) (simp add: w)
  qed
qed simp

text \<open>Lists of writes one after the other, on distinct keys.\<close>

lemma after_writes_elsewhere: "k \<notin> fst ` set ws \<Longrightarrow> after_writes ws m k = m k"
  using map_of_rows_None [of ws k] by (simp add: after_writes_def)

lemma after_writes_append:
  assumes "distinct (map fst (xs @ ys))"
  shows "after_writes ys (after_writes xs m) = after_writes (xs @ ys) m"
proof
  fix k
  show "after_writes ys (after_writes xs m) k = after_writes (xs @ ys) m k"
  proof (cases "map_of (rows xs) k")
    case None
    then show ?thesis by (simp add: after_writes_def rows_def map_add_def split: option.split)
  next
    case (Some row)
    then have "k \<in> fst ` set xs" using map_of_rows_None [of xs k] by auto
    then have "k \<notin> fst ` set ys" using assms by auto
    with Some show ?thesis
      using map_of_rows_None [of ys k] by (simp add: after_writes_def rows_def map_add_def split: option.split)
  qed
qed

lemma ok_after_writes:
  assumes "distinct (map fst (xs @ ys))"
  shows "(\<forall>(k, ok, row)\<in>set ys. ok (after_writes xs m k)) \<longleftrightarrow> (\<forall>(k, ok, row)\<in>set ys. ok (m k))"
proof -
  have "after_writes xs m k = m k" if "(k, ok, row) \<in> set ys" for k ok row
    using assms that by (intro after_writes_elsewhere) force
  then show ?thesis by (metis (no_types, lifting) case_prodD case_prodI2)
qed

definition all_writes :: "(nat \<Rightarrow> string) \<Rightarrow> Writes \<Rightarrow> cond_write list" where
  "all_writes uuids w = creates uuids w @ replaces uuids w @ deletes w"

lemma spec_writes_Inr:
  assumes d: "distinct (map fst (all_writes uuids w))"
  shows "spec_writes uuids w m = Inr m' \<longleftrightarrow>
    (\<forall>(k, ok, row)\<in>set (all_writes uuids w). ok (m k)) \<and> m' = after_writes (all_writes uuids w) m"
proof -
  let ?c = "creates uuids w" and ?r = "replaces uuids w" and ?d = "deletes w"
  have d': "distinct (map fst (?c @ ?r))" "distinct (map fst ((?c @ ?r) @ ?d))" "distinct (map fst ?c)"
    "distinct (map fst ?r)" "distinct (map fst ?d)"
    using d by (simp_all add: all_writes_def Int_Un_distrib)
  have "spec_writes uuids w m = Inr m' \<longleftrightarrow>
      (\<forall>(k, ok, row)\<in>set ?c. ok (m k)) \<and> (\<forall>(k, ok, row)\<in>set ?r. ok (after_writes ?c m k)) \<and>
      (\<forall>(k, ok, row)\<in>set ?d. ok (after_writes (?c @ ?r) m k)) \<and> m' = after_writes ((?c @ ?r) @ ?d) m"
    unfolding spec_writes_def bind_err_Inr_iff run_writes_Inr [OF d'(3)] run_writes_Inr [OF d'(4)] run_writes_Inr [OF d'(5)]
    by (simp add: conj_assoc after_writes_append [OF d'(1)] after_writes_append [OF d'(2)] del: append_assoc)
  then show ?thesis
    unfolding ok_after_writes [OF d'(1)] ok_after_writes [OF d'(2)] by (simp add: all_writes_def ball_Un conj_assoc)
qed

lemma spec_writes_Inl:
  assumes d: "distinct (map fst (all_writes uuids w))" and fail: "spec_writes uuids w m = Inl e"
  shows "\<exists>op ws j. (op, ws) \<in> {(''create'', creates uuids w), (''replace'', replaces uuids w), (''delete'', deletes w)} \<and>
    j < length ws \<and> e = ProjectionConflictError op j \<and> \<not> fst (snd (ws ! j)) (m (fst (ws ! j)))"
proof -
  let ?c = "creates uuids w" and ?r = "replaces uuids w" and ?d = "deletes w"
  have d': "distinct (map fst (?c @ ?r))" "distinct (map fst ((?c @ ?r) @ ?d))" "distinct (map fst ?c)"
    "distinct (map fst ?r)" "distinct (map fst ?d)"
    using d by (simp_all add: all_writes_def Int_Un_distrib)
  have there: "after_writes xs m (fst (ys ! j)) = m (fst (ys ! j))" if "j < length ys" "distinct (map fst (xs @ ys))" for xs ys j
  proof (rule after_writes_elsewhere)
    have "fst (ys ! j) \<in> fst ` set ys" using that(1) by (intro imageI nth_mem)
    then show "fst (ys ! j) \<notin> fst ` set xs" using that(2) by auto
  qed
  from fail consider (c) "run_writes ''create'' 0 ?c m = Inl e"
    | (r) "run_writes ''replace'' 0 ?r (after_writes ?c m) = Inl e"
    | (d) "run_writes ''delete'' 0 ?d (after_writes (?c @ ?r) m) = Inl e"
    by (auto simp only: spec_writes_def bind_err_Inl_iff run_writes_Inr [OF d'(3)] run_writes_Inr [OF d'(4)]
        after_writes_append [OF d'(1)])
  then show ?thesis
  proof cases
    case c
    from run_writes_Inl [OF c d'(3)] show ?thesis by auto
  next
    case r
    from run_writes_Inl [OF r d'(4)] there [OF _ d'(1)] show ?thesis by auto
  next
    case d
    from run_writes_Inl [OF d d'(5)] there [OF _ d'(2)] show ?thesis by auto
  qed
qed

lemma after_writes_in:
  assumes "distinct (map fst ws)" "(k, ok, row) \<in> set ws"
  shows "after_writes ws m k = row"
proof -
  have "map fst (rows ws) = map fst ws" by (simp add: rows_def case_prod_unfold)
  moreover have "(k, row) \<in> set (rows ws)" using assms(2) by (force simp: rows_def)
  ultimately have "map_of (rows ws) k = Some row" using assms(1) by simp
  then show ?thesis by (simp add: after_writes_def)
qed

section \<open>A commit's projections\<close>

text \<open>The projections that a commit writes, and whether the store still holds what was read of one.\<close>

definition net_changed :: "transaction \<Rightarrow> Key \<Rightarrow> bool" where
  "net_changed t k = written_state (tx_projections t) (\<lambda>s. ps_readFound s \<or> ps_found s) k"

definition as_read :: "transaction \<Rightarrow> ((string \<times> string) \<rightharpoonup> (string \<times> string)) \<Rightarrow> Key \<Rightarrow> bool" where
  "as_read t m k =
     (let s = state_of (tx_projections t) k
      in if ps_readFound s then at_version (ps_readVersion s) (m (kk k)) else m (kk k) = None)"

text \<open>The payloads of stored projections, by key.\<close>

definition payloads :: "((string \<times> string) \<rightharpoonup> (string \<times> string)) \<Rightarrow> Key \<Rightarrow> string option" where
  "payloads m k = map_option snd (m (kk k))"

abbreviation net_keys :: "transaction \<Rightarrow> Key list" where
  "net_keys t \<equiv> filter (net_create (tx_projections t)) (tx_touched t) @
     filter (net_replace (tx_projections t)) (tx_touched t) @ filter (net_delete (tx_projections t)) (tx_touched t)"

lemma state_of_Some: "ps k = Some s \<Longrightarrow> state_of ps k = s"
  by (simp add: state_of_def)

lemma creates_net:
  assumes "net_lists ps ks (w, keys)"
  shows "creates uuids w = map (\<lambda>(i, k). (kk k, (\<lambda>row. row = None), Some (uuids i, ps_payload (state_of ps k))))
    (enumerate 0 (filter (net_create ps) ks))"
  using assms by (simp add: net_lists_def creates_def enumerate_map_upt enumerate_eq_zip zip_map2 kk_def create_of_def
      payload_of_def case_prod_unfold)

lemma replaces_net:
  assumes "net_lists ps ks (w, keys)"
  shows "replaces uuids w = map (\<lambda>(i, k). (kk k, at_version (ps_readVersion (state_of ps k)),
      Some (uuids i, ps_payload (state_of ps k))))
    (enumerate (length (filter (net_create ps) ks)) (filter (net_replace ps) ks))"
  using assms by (simp add: net_lists_def replaces_def enumerate_eq_zip zip_map2 kk_def replace_of_def
      payload_of_def case_prod_unfold)

lemma deletes_net:
  assumes "net_lists ps ks (w, keys)"
  shows "deletes w = map (\<lambda>k. (kk k, at_version (ps_readVersion (state_of ps k)), None)) (filter (net_delete ps) ks)"
  using assms by (simp add: net_lists_def deletes_def kk_def delete_of_def comp_def)

text \<open>Every net write, at its place in its list.\<close>

lemma net_keys_distinct: "distinct (tx_touched t) \<Longrightarrow> distinct (net_keys t)"
  by (auto simp: written_state_def)

lemma all_writes_keys:
  assumes "netProjections t = (w, keys)"
  shows "map fst (all_writes uuids w) = map kk (net_keys t)"
proof -
  note lists = netProjections_lists [of t, unfolded assms]
  have key: "map fst (map (\<lambda>(i, k). (kk k, f i k, g i k)) (enumerate n xs)) = map kk xs"
    for f :: "nat \<Rightarrow> Key \<Rightarrow> row \<Rightarrow> bool" and g :: "nat \<Rightarrow> Key \<Rightarrow> row" and n xs
    by (rule nth_equalityI) (simp_all add: nth_enumerate_eq)
  show ?thesis
    unfolding all_writes_def map_append creates_net [OF lists] replaces_net [OF lists] deletes_net [OF lists] key
    by (simp add: comp_def)
qed

lemma all_writes_distinct:
  assumes "netProjections t = (w, keys)" "distinct (tx_touched t)"
  shows "distinct (map fst (all_writes uuids w))"
  unfolding all_writes_keys [OF assms(1)] distinct_map
  using net_keys_distinct [OF assms(2)] by (simp add: inj_on_def)

lemma net_keys_changed: "set (tx_touched t) = dom (tx_projections t) \<Longrightarrow> k \<in> set (net_keys t) \<longleftrightarrow> net_changed t k"
  by (auto simp: net_changed_def written_state_def)

text \<open>What one net write asks of the stored row, and the row it leaves.\<close>

lemma net_write_at:
  assumes "netProjections t = (w, keys)" "j < length (all_writes uuids w)"
  shows "\<exists>k v. k = net_keys t ! j \<and> fst (all_writes uuids w ! j) = kk k \<and>
    (fst (snd (all_writes uuids w ! j)) (m (kk k)) \<longleftrightarrow> as_read t m k) \<and>
    snd (snd (all_writes uuids w ! j)) =
      (let s = state_of (tx_projections t) k in if ps_found s then Some (v, ps_payload s) else None)"
proof -
  note lists = netProjections_lists [of t, unfolded assms(1)]
  let ?ps = "tx_projections t"
  let ?C = "filter (net_create ?ps) (tx_touched t)" and ?R = "filter (net_replace ?ps) (tx_touched t)"
    and ?D = "filter (net_delete ?ps) (tx_touched t)"
  note defs = all_writes_def creates_net [OF lists] replaces_net [OF lists] deletes_net [OF lists]
  have len: "length (creates uuids w) = length ?C" "length (replaces uuids w) = length ?R"
    unfolding defs by simp_all
  consider (c) "j < length ?C" | (r) i where "j = length ?C + i" "i < length ?R"
    | (d) i where "j = length ?C + (length ?R + i)" "i < length ?D"
  proof (cases "j < length ?C + length ?R")
    case False
    then show ?thesis using assms(2) that(3) [of "j - (length ?C + length ?R)"] by (simp add: defs len)
  qed (metis add_diff_inverse_nat nat_add_left_cancel_less that(1,2))
  then show ?thesis
  proof cases
    case c
    have "?C ! j \<in> set ?C" using c by (rule nth_mem)
    then show ?thesis using c
      by (auto simp: defs nth_append nth_enumerate_eq as_read_def written_state_def state_of_def Let_def)
  next
    case r
    have "?R ! i \<in> set ?R" using r(2) by (rule nth_mem)
    then show ?thesis using r(2)
      by (auto simp: r(1) defs nth_append nth_enumerate_eq as_read_def written_state_def state_of_def Let_def)
  next
    case d
    have "?D ! i \<in> set ?D" using d(2) by (rule nth_mem)
    then show ?thesis using d(2)
      by (auto simp: d(1) defs nth_append nth_enumerate_eq as_read_def written_state_def state_of_def Let_def)
  qed
qed

lemma all_writes_length:
  assumes "netProjections t = (w, keys)"
  shows "length (all_writes uuids w) = length (net_keys t)"
  using arg_cong [OF all_writes_keys [OF assms, of uuids], of length] by simp

text \<open>The writes go through exactly when every projection they change is still as it was read.\<close>

lemma net_writes_Inr:
  assumes net: "netProjections t = (w, keys)" and ok: "touched_ok t" and run: "spec_writes uuids w m = Inr m'"
  shows "net_changed t k \<Longrightarrow> as_read t m k"
    and "net_changed t k \<Longrightarrow> payloads m' k = tx_view (payloads m) t k"
    and "\<not> net_changed t k \<Longrightarrow> m' (kk k) = m (kk k)"
proof -
  have dom: "set (tx_touched t) = dom (tx_projections t)" and dist: "distinct (tx_touched t)"
    using ok by (simp_all add: touched_ok_def)
  note d = all_writes_distinct [OF net dist]
  let ?ws = "all_writes uuids w"
  from run have all: "\<forall>(k, ok, row)\<in>set ?ws. ok (m k)" and m': "m' = after_writes ?ws m"
    using spec_writes_Inr [OF d] by blast+
  have at: "\<exists>j v. j < length ?ws \<and> (kk k, fst (snd (?ws ! j)), snd (snd (?ws ! j))) \<in> set ?ws \<and>
      (fst (snd (?ws ! j)) (m (kk k)) \<longleftrightarrow> as_read t m k) \<and>
      snd (snd (?ws ! j)) = (let s = state_of (tx_projections t) k in if ps_found s then Some (v, ps_payload s) else None)"
    if "net_changed t k"
  proof -
    from that have "k \<in> set (net_keys t)" using net_keys_changed [OF dom] by blast
    then obtain j where j: "j < length ?ws" "net_keys t ! j = k"
      unfolding in_set_conv_nth all_writes_length [OF net] by blast
    from net_write_at [OF net j(1), of m] j(2) obtain v where v: "fst (?ws ! j) = kk k"
      "fst (snd (?ws ! j)) (m (kk k)) \<longleftrightarrow> as_read t m k"
      "snd (snd (?ws ! j)) = (let s = state_of (tx_projections t) k in if ps_found s then Some (v, ps_payload s) else None)"
      by blast
    have "?ws ! j \<in> set ?ws" using j(1) by (rule nth_mem)
    then have "(kk k, fst (snd (?ws ! j)), snd (snd (?ws ! j))) \<in> set ?ws" by (simp flip: v(1))
    with j(1) v(2,3) show ?thesis by blast
  qed
  show "as_read t m k" if "net_changed t k"
    using at [OF that] all by blast
  show "payloads m' k = tx_view (payloads m) t k" if changed: "net_changed t k"
  proof -
    from at [OF changed] obtain v where "m' (kk k) =
        (let s = state_of (tx_projections t) k in if ps_found s then Some (v, ps_payload s) else None)"
      unfolding m' by (metis after_writes_in [OF d])
    with changed show ?thesis
      by (auto simp: payloads_def tx_view_def net_changed_def written_state_def state_of_def Let_def)
  qed
  show "m' (kk k) = m (kk k)" if "\<not> net_changed t k"
  proof -
    from that have "k \<notin> set (net_keys t)" using net_keys_changed [OF dom] by blast
    then have "kk k \<notin> set (map fst ?ws)" unfolding all_writes_keys [OF net] by auto
    then show ?thesis unfolding m' by (intro after_writes_elsewhere) simp
  qed
qed

lemma net_writes_ok:
  assumes net: "netProjections t = (w, keys)" and ok: "touched_ok t"
    and held: "\<And>k. net_changed t k \<Longrightarrow> as_read t m k"
  shows "\<exists>m'. spec_writes uuids w m = Inr m'"
proof -
  have dom: "set (tx_touched t) = dom (tx_projections t)" and dist: "distinct (tx_touched t)"
    using ok by (simp_all add: touched_ok_def)
  let ?ws = "all_writes uuids w"
  have "fst (snd x) (m (fst x))" if "x \<in> set ?ws" for x
  proof -
    from that obtain j where j: "j < length ?ws" "x = ?ws ! j" by (metis in_set_conv_nth)
    from j(1) have "net_keys t ! j \<in> set (net_keys t)" unfolding all_writes_length [OF net] by (rule nth_mem)
    then have "as_read t m (net_keys t ! j)" using net_keys_changed [OF dom] held by blast
    with net_write_at [OF net j(1), of m] j(2) show ?thesis by auto
  qed
  then have "\<forall>(k, ok, row)\<in>set ?ws. ok (m k)" by auto
  then show ?thesis using spec_writes_Inr [OF all_writes_distinct [OF net dist]] by blast
qed

text \<open>A conflict names a projection that isn't as it was read, and its index is never out of its list.\<close>

fun conflict_key :: "tx_conflict \<Rightarrow> Key" where
  "conflict_key (AlreadyExists k) = k"
| "conflict_key (CreatedSince k) = k"
| "conflict_key (VersionMoved k) = k"

lemma net_writes_conflict:
  assumes net: "netProjections t = (w, keys)" and ok: "touched_ok t" and run: "spec_writes uuids w m = Inl e"
  shows "\<exists>op j c. e = ProjectionConflictError op j \<and> conflict keys op j = ConflictError c \<and>
    net_changed t (conflict_key c) \<and> \<not> as_read t m (conflict_key c)"
proof -
  have dom: "set (tx_touched t) = dom (tx_projections t)" and dist: "distinct (tx_touched t)"
    using ok by (simp_all add: touched_ok_def)
  note lists = netProjections_lists [of t, unfolded net]
  let ?ps = "tx_projections t"
  let ?C = "filter (net_create ?ps) (tx_touched t)" and ?R = "filter (net_replace ?ps) (tx_touched t)"
    and ?D = "filter (net_delete ?ps) (tx_touched t)"
  from spec_writes_Inl [OF all_writes_distinct [OF net dist] run] obtain op ws j where
    op: "(op, ws) \<in> {(''create'', creates uuids w), (''replace'', replaces uuids w), (''delete'', deletes w)}"
    and j: "j < length ws" and e: "e = ProjectionConflictError op j" and fails: "\<not> fst (snd (ws ! j)) (m (fst (ws ! j)))"
    by blast
  have keys: "ok_create keys = ?C" "ok_unread keys = map (\<lambda>k. ps_unread (state_of ?ps k)) ?C"
    "ok_replace keys = ?R" "ok_delete keys = ?D"
    using lists by (simp_all add: net_lists_def)
  have changed: "k \<in> set ?C \<or> k \<in> set ?R \<or> k \<in> set ?D \<Longrightarrow> net_changed t k" for k
    using net_keys_changed [OF dom, of k] by auto
  from op consider (c) "op = ''create''" "ws = creates uuids w" | (r) "op = ''replace''" "ws = replaces uuids w"
    | (d) "op = ''delete''" "ws = deletes w" by blast
  then show ?thesis
  proof cases
    case c
    then have l: "j < length ?C" using j by (simp add: creates_net [OF lists])
    then have k: "?C ! j \<in> set ?C" by (rule nth_mem)
    have "\<not> as_read t m (?C ! j)"
      using fails l k by (auto simp: c creates_net [OF lists] nth_enumerate_eq as_read_def written_state_def state_of_def)
    moreover have "\<exists>c. conflict keys op j = ConflictError c \<and> conflict_key c = ?C ! j"
      using l by (simp add: conflict_def keys c)
    ultimately show ?thesis using e changed [of "?C ! j"] k by metis
  next
    case r
    then have l: "j < length ?R" using j by (simp add: replaces_net [OF lists])
    then have k: "?R ! j \<in> set ?R" by (rule nth_mem)
    have "\<not> as_read t m (?R ! j)"
      using fails l k by (auto simp: r replaces_net [OF lists] nth_enumerate_eq as_read_def written_state_def state_of_def)
    moreover have "conflict keys op j = ConflictError (VersionMoved (?R ! j))"
      using l by (simp add: conflict_def keys r)
    ultimately show ?thesis using e changed [of "?R ! j"] k by (metis conflict_key.simps(3))
  next
    case d
    then have l: "j < length ?D" using j by (simp add: deletes_net [OF lists])
    then have k: "?D ! j \<in> set ?D" by (rule nth_mem)
    have "\<not> as_read t m (?D ! j)"
      using fails l k by (auto simp: d deletes_net [OF lists] as_read_def written_state_def state_of_def)
    moreover have "conflict keys op j = ConflictError (VersionMoved (?D ! j))"
      using l by (simp add: conflict_def keys d)
    ultimately show ?thesis using e changed [of "?D ! j"] k by (metis conflict_key.simps(3))
  qed
qed

section \<open>Properties\<close>

text \<open>C31. A transaction reads its own writes of projections: after a write that is accepted, reading a
  projection it created or replaced gives the payload written, reading one it deleted finds
  nothing, and reading any other gives what it gave before.\<close>

theorem read_your_projection_writes:
  assumes "tx_WriteProjections cfg now w t = Inr (time, t')"
  shows "(\<forall>p \<in> set (tw_create w @ tw_replace w). tx_GetProjection get (tp_key p) t' = Inr ((tp_payload p, True), t')) \<and>
    (\<forall>k \<in> set (tw_delete w). tx_GetProjection get k t' = Inr (([], False), t')) \<and>
    (\<forall>k. if k \<in> set (map tp_key (tw_create w @ tw_replace w) @ tw_delete w) then True
       else map_sum (\<lambda>e. e) fst (tx_GetProjection get k t') = map_sum (\<lambda>e. e) fst (tx_GetProjection get k t))"
proof -
  note d = tx_WriteProjections_Inr(3) [OF assms]
  note st = state_after_write [OF assms] write_states [OF d, of _ "tx_projections t"]
  have other: "tx_projections t' k = tx_projections t k" if "k \<notin> set (map tp_key (tw_create w @ tw_replace w) @ tw_delete w)" for k
    using that st(1) write_elsewhere [of k w "tx_projections t"] by (simp add: written_keys_def)
  show ?thesis
  proof (intro conjI ballI allI)
    show "tx_GetProjection get (tp_key p) t' = Inr ((tp_payload p, True), t')" if "p \<in> set (tw_create w @ tw_replace w)" for p
      using that st tx_WriteProjections_Inr(5,6) [OF assms]
      by (auto simp: tx_GetProjection_def created_def replaced_def exists_now_def dest!: bspec split: option.splits)
    show "tx_GetProjection get k t' = Inr (([], False), t')" if "k \<in> set (tw_delete w)" for k
      using that st tx_WriteProjections_Inr(5,6) [OF assms]
      by (auto simp: tx_GetProjection_def deleted_def dest!: bspec)
    show "if k \<in> set (map tp_key (tw_create w @ tw_replace w) @ tw_delete w) then True
       else map_sum (\<lambda>e. e) fst (tx_GetProjection get k t') = map_sum (\<lambda>e. e) fst (tx_GetProjection get k t)" for k
      using other [of k] by (auto simp: tx_GetProjection_def Let_def split: option.split sum.split)
  qed
qed

text \<open>C29. The net writes of a transaction are exact: they go through in the store exactly when every
  projection they change is still as the transaction read it; then each holds what the
  transaction last saw of it and no other row changes; otherwise the error names, through its
  index, a changed projection that is not as it was read, and the index is never out of range.\<close>

theorem net_writes_exact:
  assumes "tx_inv cfg t" "netProjections t = (w, keys)"
  shows "case spec_writes uuids w m of
      Inr m' \<Rightarrow> (\<forall>k. if net_changed t k
          then as_read t m k \<and> payloads m' k = tx_view (payloads m) t k
          else m' (kk k) = m (kk k))
    | Inl e \<Rightarrow> (\<exists>op j c. e = ProjectionConflictError op j \<and> conflict keys op j = ConflictError c \<and>
          net_changed t (conflict_key c) \<and> \<not> as_read t m (conflict_key c))"
proof -
  have ok: "touched_ok t" using assms(1) by (simp add: tx_inv_def touched_ok_def)
  show ?thesis
    using net_writes_Inr [OF assms(2) ok] net_writes_conflict [OF assms(2) ok]
    by (cases "spec_writes uuids w m") auto
qed

text \<open>A transaction that read a projection, replaced it, and created another, for the witnesses.\<close>

definition user_key :: "string \<Rightarrow> Key" where
  "user_key i = \<lparr>k_type = ''User'', k_id = i\<rparr>"

definition with_projections :: transaction where
  "with_projections = new_transaction\<lparr>
     tx_projections := [user_key ''1'' \<mapsto> \<lparr>ps_readFound = True, ps_readVersion = ''v1'', ps_unread = False, ps_found = True,
         ps_payload = ''new'', ps_written = True\<rparr>],
     tx_touched := [user_key ''1''], tx_written := 1\<rparr>"

definition tiny_config :: Config where
  "tiny_config = \<lparr>cf_IdleTimeout = 1000, cf_MaxEventsPerTx = 10, cf_MaxReadsPerTx = 10, cf_MaxProjectionsPerTx = 10,
     cf_MaxEventsPerTxRead = 10, cf_MaxOpenTx = 2\<rparr>"

lemma with_projections_inv: "tx_inv tiny_config with_projections"
proof -
  have "{k. \<exists>s. tx_projections with_projections k = Some s \<and> ps_written s} = {user_key ''1''}"
    by (auto simp: with_projections_def)
  then show ?thesis
    by (simp add: tx_inv_def with_projections_def new_transaction_def tiny_config_def)
qed

theorem net_writes_exact_witness:
  "(let (w, keys) = netProjections with_projections
    in case spec_writes (\<lambda>_. ''v2'') w [(''User'', ''1'') \<mapsto> (''moved'', ''other'')] of
         Inr m' \<Rightarrow> False
       | Inl e \<Rightarrow> (\<exists>op j c. e = ProjectionConflictError op j \<and> conflict keys op j = ConflictError c))"
proof -
  obtain w keys where net: "netProjections with_projections = (w, keys)" by fastforce
  have "net_changed with_projections (user_key ''1'')" "\<not> as_read with_projections [(''User'', ''1'') \<mapsto> (''moved'', ''other'')] (user_key ''1'')"
    by (simp_all add: net_changed_def written_state_def as_read_def state_of_def with_projections_def kk_def user_key_def at_version_def)
  with net_writes_exact [OF with_projections_inv net,
      where uuids = "\<lambda>_. ''v2''" and m = "[(''User'', ''1'') \<mapsto> (''moved'', ''other'')]"]
  show ?thesis by (auto simp: net split: sum.splits)
qed

theorem read_your_projection_writes_witness:
  "(case tx_WriteProjections tiny_config 5 \<lparr>tw_create = [\<lparr>tp_key = user_key ''2'', tp_payload = ''hello''\<rparr>], tw_replace = [],
      tw_delete = [user_key ''1'']\<rparr> with_projections of
    Inl e \<Rightarrow> False
  | Inr (time, t') \<Rightarrow> tx_GetProjection (\<lambda>_. Inl NoSchema) (user_key ''2'') t' = Inr ((''hello'', True), t') \<and>
      tx_GetProjection (\<lambda>_. Inl NoSchema) (user_key ''1'') t' = Inr (([], False), t'))"
proof -
  let ?w = "\<lparr>tw_create = [\<lparr>tp_key = user_key ''2'', tp_payload = ''hello''\<rparr>], tw_replace = [], tw_delete = [user_key ''1'']\<rparr>"
  obtain time t' where run: "tx_WriteProjections tiny_config 5 ?w with_projections = Inr (time, t')"
    by (simp add: tx_WriteProjections_def with_projections_def new_transaction_def TxWrites_Len_def once_def readFirst_def
        exists_now_def user_key_def tiny_config_def not_written_def)
  from read_your_projection_writes [OF run, of "\<lambda>_. Inl NoSchema"] show ?thesis by (simp add: run)
qed

end
