(* ===== verification/Registry.thy ===== *)
theory Registry
  imports Netwrites
begin

text \<open>
  The Registry of open transactions (\<open>internal/tx\<close>): beginning and ending them, the calls on
  them, their expiry, commits, and the pause. Each function that takes \<open>r.mu\<close> does so through
  \<open>lock\<close>, which first reads the clock and ends the idle transactions; the clock is a stream of
  readings, \<open>r_clock\<close>, of which \<open>r_ticks\<close> have been taken. The map of transactions is an
  association list. A call that finds its transaction works on the copy it found and puts it
  back: the busy flag makes it the only one.
\<close>

section \<open>State\<close>

datatype PauseState = Running | PauseRequested | Paused

definition PauseState_String :: "PauseState \<Rightarrow> string" where
  "PauseState_String s = (case s of PauseRequested \<Rightarrow> ''pauseRequested'' | Paused \<Rightarrow> ''paused'' | Running \<Rightarrow> ''normal'')"

record TxStats =
  ts_Begun :: nat
  ts_Committed :: nat
  ts_Abandoned :: nat
  ts_Expired :: nat
  ts_DesignErrors :: nat
  ts_Paused :: nat
  ts_Busy :: nat
  ts_TooMany :: nat
  ts_LargestRead :: int

definition no_tx_stats :: TxStats where
  "no_tx_stats =
     \<lparr>ts_Begun = 0, ts_Committed = 0, ts_Abandoned = 0, ts_Expired = 0, ts_DesignErrors = 0, ts_Paused = 0,
      ts_Busy = 0, ts_TooMany = 0, ts_LargestRead = 0\<rparr>"

record Registry =
  r_writer :: Writer
  r_cfg :: Config
  r_txs :: "(string \<times> transaction) list"
  r_stats :: TxStats
  r_pause :: PauseState
  r_pauseSince :: gotime
  r_clock :: "nat \<Rightarrow> gotime"
  r_ticks :: nat

text \<open>\<open>r.cfg.Now()\<close>.\<close>

definition tick :: "Registry \<Rightarrow> gotime \<times> Registry" where
  "tick r = (r_clock r (r_ticks r), r\<lparr>r_ticks := Suc (r_ticks r)\<rparr>)"

definition Registry_New :: "Writer \<Rightarrow> Config \<Rightarrow> (nat \<Rightarrow> gotime) \<Rightarrow> Registry" where
  "Registry_New wr cfg clock =
     (let (at, paused) = PausedAt (w_store wr)
      in \<lparr>r_writer = wr, r_cfg = cfg, r_txs = [], r_stats = no_tx_stats,
          r_pause = (if paused then Paused else Running),
          r_pauseSince = (if paused then at else clock 0), r_clock = clock, r_ticks = 1\<rparr>)"

section \<open>The registry's lock\<close>

definition idle :: "Config \<Rightarrow> gotime \<Rightarrow> transaction \<Rightarrow> bool" where
  "idle cfg now t \<longleftrightarrow> \<not> tx_busy t \<and> now - tx_lastUsed t \<ge> cf_IdleTimeout cfg"

definition lock :: "Registry \<Rightarrow> Registry" where
  "lock r =
     (let (now, r1) = tick r;
          (expired, kept) = partition (\<lambda>(tid, t). idle (r_cfg r1) now t) (r_txs r1)
      in r1\<lparr>r_txs := kept, r_stats := (r_stats r1)\<lparr>ts_Expired := ts_Expired (r_stats r1) + length expired\<rparr>\<rparr>)"

definition Begin :: "string \<Rightarrow> Registry \<Rightarrow> (tx_error + string) \<times> Registry" where
  "Begin tid r =
     (let r1 = lock r
      in if r_pause r1 \<noteq> Running
         then (Inl ErrPaused, r1\<lparr>r_stats := (r_stats r1)\<lparr>ts_Paused := Suc (ts_Paused (r_stats r1))\<rparr>\<rparr>)
         else if cf_MaxOpenTx (r_cfg r1) > 0 \<and> int (length (r_txs r1)) \<ge> cf_MaxOpenTx (r_cfg r1)
         then (Inl ErrTooManyTransactions, r1\<lparr>r_stats := (r_stats r1)\<lparr>ts_TooMany := Suc (ts_TooMany (r_stats r1))\<rparr>\<rparr>)
         else
           (let (now, r2) = tick r1
            in (Inr tid,
                r2\<lparr>r_txs := AList.update tid (new_transaction\<lparr>tx_lastUsed := now\<rparr>) (r_txs r2),
                   r_stats := (r_stats r2)\<lparr>ts_Begun := Suc (ts_Begun (r_stats r2))\<rparr>\<rparr>)))"

definition put_tx :: "string \<Rightarrow> transaction \<Rightarrow> Registry \<Rightarrow> Registry" where
  "put_tx tid t r = r\<lparr>r_txs := AList.map_entry tid (\<lambda>_. t) (r_txs r)\<rparr>"

definition acquire :: "string \<Rightarrow> Registry \<Rightarrow> (tx_error + transaction) \<times> Registry" where
  "acquire tid r =
     (let r1 = lock r
      in case map_of (r_txs r1) tid of
           None \<Rightarrow> (Inl ErrNotFound, r1)
         | Some t \<Rightarrow>
             if tx_busy t
             then (Inl ErrBusy, r1\<lparr>r_stats := (r_stats r1)\<lparr>ts_Busy := Suc (ts_Busy (r_stats r1))\<rparr>\<rparr>)
             else (Inr (t\<lparr>tx_busy := True\<rparr>), put_tx tid (t\<lparr>tx_busy := True\<rparr>) r1))"

text \<open>
  \<open>release\<close> writes to the transaction it was given; once ended, that one is out of the map, and
  nothing sees the write.
\<close>

definition release :: "string \<Rightarrow> Registry \<Rightarrow> Registry" where
  "release tid r =
     (let r1 = lock r; (now, r2) = tick r1
      in r2\<lparr>r_txs := AList.map_entry tid (\<lambda>t. t\<lparr>tx_busy := False, tx_lastUsed := now\<rparr>) (r_txs r2)\<rparr>)"

definition end_tx :: "string \<Rightarrow> Registry \<Rightarrow> Registry" where
  "end_tx tid r = (let r1 = lock r in r1\<lparr>r_txs := AList.delete tid (r_txs r1)\<rparr>)"

definition count_design :: "Registry \<Rightarrow> Registry" where
  "count_design r =
     (let r1 = lock r in r1\<lparr>r_stats := (r_stats r1)\<lparr>ts_DesignErrors := Suc (ts_DesignErrors (r_stats r1))\<rparr>\<rparr>)"

section \<open>Calls on a transaction\<close>

text \<open>\<open>do\<close>: \<open>fn\<close> gets the transaction, and gives it back changed, or an error, which ends it.\<close>

definition do_tx :: "string \<Rightarrow> (transaction \<Rightarrow> Registry \<Rightarrow> (tx_error + 'a \<times> transaction) \<times> Registry) \<Rightarrow> Registry \<Rightarrow>
    (tx_error + 'a) \<times> Registry" where
  "do_tx tid fn r =
     (case acquire tid r of
        (Inl e, r1) \<Rightarrow> (Inl e, r1)
      | (Inr t, r1) \<Rightarrow>
          (case fn t r1 of
             (Inl e, r2) \<Rightarrow>
               (let r3 = end_tx tid r2; r4 = (if is_design e then count_design r3 else r3)
                in (Inl e, release tid r4))
           | (Inr (x, t'), r2) \<Rightarrow> (Inr x, release tid (put_tx tid t' r2))))"

definition Abandon :: "string \<Rightarrow> Registry \<Rightarrow> tx_error option \<times> Registry" where
  "Abandon tid r =
     (case acquire tid r of
        (Inl e, r1) \<Rightarrow> ((if e = ErrNotFound then None else Some e), r1)
      | (Inr t, r1) \<Rightarrow>
          (let r2 = lock (end_tx tid r1);
               r3 = r2\<lparr>r_stats := (r_stats r2)\<lparr>ts_Abandoned := Suc (ts_Abandoned (r_stats r2))\<rparr>\<rparr>
           in (None, release tid r3)))"

definition Reject :: "string \<Rightarrow> bool \<Rightarrow> Registry \<Rightarrow> tx_error option \<times> Registry" where
  "Reject tid design r =
     (case acquire tid r of
        (Inl e, r1) \<Rightarrow> (Some e, r1)
      | (Inr t, r1) \<Rightarrow>
          (let r2 = end_tx tid r1
           in (None, release tid (if design then count_design r2 else r2))))"

definition ReadEvents :: "faults \<Rightarrow> string \<Rightarrow> DecisionFilter \<Rightarrow> Registry \<Rightarrow> (tx_error + TxRead) \<times> Registry" where
  "ReadEvents faults tid f =
     do_tx tid (\<lambda>t r.
       case tx_ReadEvents (r_cfg r) (ReadDecision faults (w_store (r_writer r))) f t of
         Inl e \<Rightarrow> (Inl e, r)
       | Inr (read, t') \<Rightarrow>
           (let r1 = lock r
            in (Inr (read, t'),
                r1\<lparr>r_stats := (r_stats r1)\<lparr>ts_LargestRead := max (ts_LargestRead (r_stats r1)) (rd_count read)\<rparr>\<rparr>)))"

definition WriteEvents :: "gotime \<Rightarrow> string \<Rightarrow> EventData list \<Rightarrow> Registry \<Rightarrow> (tx_error + gotime) \<times> Registry" where
  "WriteEvents now tid events =
     do_tx tid (\<lambda>t r. (tx_WriteEvents (r_cfg r) now events t, r))"

definition Registry_GetProjection :: "faults \<Rightarrow> string \<Rightarrow> Key \<Rightarrow> Registry \<Rightarrow> (tx_error + string \<times> bool) \<times> Registry" where
  "Registry_GetProjection faults tid key =
     do_tx tid (\<lambda>t r. (tx_GetProjection (\<lambda>k. GetProjection faults (w_store (r_writer r)) (k_type k) (k_id k)) key t, r))"

definition Registry_WriteProjections :: "gotime \<Rightarrow> string \<Rightarrow> TxWrites \<Rightarrow> Registry \<Rightarrow> (tx_error + gotime) \<times> Registry" where
  "Registry_WriteProjections now tid w =
     do_tx tid (\<lambda>t r. (tx_WriteProjections (r_cfg r) now w t, r))"

section \<open>Commit\<close>

definition countCommit :: "Registry \<Rightarrow> Registry" where
  "countCommit r =
     (let r1 = lock r in r1\<lparr>r_stats := (r_stats r1)\<lparr>ts_Committed := Suc (ts_Committed (r_stats r1))\<rparr>\<rparr>)"

definition commit_error :: "opKeys \<Rightarrow> op_error \<Rightarrow> tx_error" where
  "commit_error keys e =
     (case e of StoreErr (ProjectionConflictError op i) \<Rightarrow> conflict keys op i | _ \<Rightarrow> OpErr e)"

text \<open>The write of a commit, in its turn.\<close>

definition commit_write :: "turn \<Rightarrow> transaction \<Rightarrow> Writes \<Rightarrow> opKeys \<Rightarrow> Registry \<Rightarrow> (tx_error + unit) \<times> Registry" where
  "commit_write tn t writes keys r =
     (case WritePending tn (tx_events t) (tx_conditions t) writes (r_writer r) of
        (Inl e, w) \<Rightarrow> (Inl (commit_error keys e), r\<lparr>r_writer := w\<rparr>)
      | (Inr _, w) \<Rightarrow> (Inr (), countCommit (r\<lparr>r_writer := w\<rparr>)))"

definition commit_tx :: "turn \<Rightarrow> string \<Rightarrow> transaction \<Rightarrow> Registry \<Rightarrow> (tx_error + unit \<times> transaction) \<times> Registry" where
  "commit_tx tn tid t r =
     (if tx_open t \<noteq> None then (Inl (ErrDesign CommitWhileOpen), r)
      else
        (let (writes, keys) = netProjections t;
             (res, r1) =
               (if length (tx_events t) = 0 \<and> Writes_Len writes = 0 then (Inr (), countCommit r)
                else commit_write tn t writes keys r)
         in (bind_err res (\<lambda>x. Inr (x, t)), end_tx tid r1)))"

definition Commit :: "turn \<Rightarrow> string \<Rightarrow> Registry \<Rightarrow> (tx_error + unit) \<times> Registry" where
  "Commit tn tid = do_tx tid (commit_tx tn tid)"

section \<open>The pause\<close>

record PauseResult =
  pz_Paused :: bool
  pz_LastSequence :: int
  pz_Open :: nat

record PauseInfo =
  pi_State :: PauseState
  pi_Since :: gotime
  pi_Open :: nat

abbreviation registry_in_turn where
  "registry_in_turn \<equiv> RunInTurn r_writer (\<lambda>w r. r\<lparr>r_writer := w\<rparr>)"

text \<open>What \<open>Pause\<close> does in its turn.\<close>

definition pause_turn :: "faults \<Rightarrow> Registry \<Rightarrow> (op_error + PauseResult) \<times> Registry" where
  "pause_turn faults r =
     (let r1 = lock r in
      if r_pause r1 = Paused
      then (Inr \<lparr>pz_Paused = True, pz_LastSequence = LastSequence (w_store (r_writer r1)), pz_Open = 0\<rparr>, r1)
      else if length (r_txs r1) > 0
      then
        (let r2 = (if r_pause r1 = Running
                   then (let (now, r2) = tick r1 in r2\<lparr>r_pause := PauseRequested, r_pauseSince := now\<rparr>)
                   else r1)
         in (Inr \<lparr>pz_Paused = False, pz_LastSequence = 0, pz_Open = length (r_txs r2)\<rparr>, r2))
      else
        (let (now, r2) = tick r1
         in case SetPause faults (w_store (r_writer r2)) now of
              (Inl e, st) \<Rightarrow> (Inl (StoreErr e), r2\<lparr>r_writer := (r_writer r2)\<lparr>w_store := st\<rparr>\<rparr>)
            | (Inr lastSeq, st) \<Rightarrow>
                (Inr \<lparr>pz_Paused = True, pz_LastSequence = lastSeq, pz_Open = 0\<rparr>,
                 r2\<lparr>r_writer := (r_writer r2)\<lparr>w_store := st\<rparr>, r_pause := Paused, r_pauseSince := now\<rparr>)))"

definition Pause :: "turn \<Rightarrow> Registry \<Rightarrow> (op_error + PauseResult) \<times> Registry" where
  "Pause tn = registry_in_turn tn (pause_turn (tn_faults tn))"

definition resume_turn :: "faults \<Rightarrow> Registry \<Rightarrow> (op_error + unit) \<times> Registry" where
  "resume_turn faults r =
     (let r1 = lock r;
          (err, r2) =
            (if r_pause r1 = Paused
             then (case ClearPause faults (w_store (r_writer r1)) of
                     (err, st) \<Rightarrow> (err, r1\<lparr>r_writer := (r_writer r1)\<lparr>w_store := st\<rparr>\<rparr>))
             else (None, r1))
      in case err of
           Some e \<Rightarrow> (Inl (StoreErr e), r2)
         | None \<Rightarrow>
             (Inr (),
              if r_pause r2 \<noteq> Running
              then (let (now, r3) = tick r2 in r3\<lparr>r_pause := Running, r_pauseSince := now\<rparr>)
              else r2))"

definition Resume :: "turn \<Rightarrow> Registry \<Rightarrow> (op_error + unit) \<times> Registry" where
  "Resume tn r =
     (let r1 = lock r
      in if r_pause r1 = Running then (Inr (), r1)
         else registry_in_turn tn (resume_turn (tn_faults tn)) r1)"

definition Registry_PauseInfo :: "Registry \<Rightarrow> PauseInfo \<times> Registry" where
  "Registry_PauseInfo r =
     (let r1 = lock r
      in (\<lparr>pi_State = r_pause r1, pi_Since = r_pauseSince r1, pi_Open = length (r_txs r1)\<rparr>, r1))"

definition Registry_Stats :: "Registry \<Rightarrow> TxStats \<times> Registry" where
  "Registry_Stats r = (let r1 = lock r in (r_stats r1, r1))"

section \<open>Looking a transaction up\<close>

definition find_tx :: "Registry \<Rightarrow> string \<Rightarrow> transaction option" where
  "find_tx r i = map_of (r_txs r) i"

definition ids_ok :: "Registry \<Rightarrow> bool" where
  "ids_ok r \<longleftrightarrow> distinct (map fst (r_txs r))"

definition free_tx :: "transaction \<Rightarrow> gotime \<Rightarrow> transaction" where
  "free_tx t now = t\<lparr>tx_busy := False, tx_lastUsed := now\<rparr>"

lemma lock_txs: "r_txs (lock r) = filter (\<lambda>(i, t). \<not> idle (r_cfg r) (r_clock r (r_ticks r)) t) (r_txs r)"
  by (simp add: lock_def tick_def Let_def partition_filter_conv case_prod_unfold comp_def)

text \<open>What only \<open>Begin\<close>, a commit and the pause change.\<close>

lemma lock_rest [simp]:
  "r_writer (lock r) = r_writer r" "r_cfg (lock r) = r_cfg r" "r_pause (lock r) = r_pause r" "r_clock (lock r) = r_clock r"
  by (simp_all add: lock_def tick_def Let_def partition_filter_conv)

lemma tick_rest [simp]:
  "r_writer (snd (tick r)) = r_writer r" "r_cfg (snd (tick r)) = r_cfg r" "r_pause (snd (tick r)) = r_pause r"
  "r_txs (snd (tick r)) = r_txs r" "r_clock (snd (tick r)) = r_clock r" "fst (tick r) = r_clock r (r_ticks r)"
  by (simp_all add: tick_def)

lemma section_rest [simp]:
  "r_writer (release i r) = r_writer r" "r_cfg (release i r) = r_cfg r" "r_pause (release i r) = r_pause r"
  "r_clock (release i r) = r_clock r"
  "r_writer (end_tx i r) = r_writer r" "r_cfg (end_tx i r) = r_cfg r" "r_pause (end_tx i r) = r_pause r"
  "r_clock (end_tx i r) = r_clock r"
  "r_writer (count_design r) = r_writer r" "r_cfg (count_design r) = r_cfg r" "r_pause (count_design r) = r_pause r"
  "r_clock (count_design r) = r_clock r"
  "r_writer (countCommit r) = r_writer r" "r_cfg (countCommit r) = r_cfg r" "r_pause (countCommit r) = r_pause r"
  "r_clock (countCommit r) = r_clock r"
  "r_writer (put_tx i t r) = r_writer r" "r_cfg (put_tx i t r) = r_cfg r" "r_pause (put_tx i t r) = r_pause r"
  "r_clock (put_tx i t r) = r_clock r"
  by (simp_all add: release_def end_tx_def count_design_def countCommit_def put_tx_def Let_def case_prod_unfold)

lemma section_txs [simp]:
  "r_txs (count_design r) = r_txs (lock r)" "r_txs (countCommit r) = r_txs (lock r)"
  "r_txs (end_tx i r) = AList.delete i (r_txs (lock r))" "r_txs (put_tx i t r) = AList.map_entry i (\<lambda>_. t) (r_txs r)"
  by (simp_all add: end_tx_def count_design_def countCommit_def put_tx_def Let_def)

lemma release_txs: "\<exists>now. r_txs (release i r) = AList.map_entry i (\<lambda>t. free_tx t now) (r_txs (lock r))"
  by (auto simp: release_def Let_def case_prod_unfold free_tx_def)

lemma map_of_filter:
  "distinct (map fst xs) \<Longrightarrow>
    map_of (filter (\<lambda>(i, t). P t) xs) i = (case map_of xs i of None \<Rightarrow> None | Some t \<Rightarrow> if P t then Some t else None)"
  by (induction xs) (auto simp: map_of_eq_None_iff image_iff split: option.splits)

lemma find_lock:
  assumes "ids_ok r"
  shows "find_tx (lock r) i = (case find_tx r i of None \<Rightarrow> None
    | Some t \<Rightarrow> if idle (r_cfg r) (r_clock r (r_ticks r)) t then None else Some t)"
  unfolding find_tx_def lock_txs using map_of_filter [OF assms [unfolded ids_ok_def]]
  by (auto split: option.split)

lemma ids_lock [simp]: "ids_ok r \<Longrightarrow> ids_ok (lock r)"
  by (simp add: ids_ok_def lock_txs distinct_map_filter)

lemma ids_sections [simp]:
  "ids_ok r \<Longrightarrow> ids_ok (end_tx i r)" "ids_ok r \<Longrightarrow> ids_ok (put_tx i t r)" "ids_ok r \<Longrightarrow> ids_ok (release i r)"
  "ids_ok r \<Longrightarrow> ids_ok (count_design r)" "ids_ok r \<Longrightarrow> ids_ok (countCommit r)"
proof -
  assume ok: "ids_ok r"
  then have "distinct (map fst (r_txs (lock r)))" using ids_lock by (simp add: ids_ok_def)
  then show "ids_ok (end_tx i r)" "ids_ok (release i r)" "ids_ok (count_design r)" "ids_ok (countCommit r)"
    using release_txs [of i r] by (auto simp: ids_ok_def distinct_delete distinct_map_entry)
  show "ids_ok (put_tx i t r)" using ok by (simp add: ids_ok_def distinct_map_entry)
qed

text \<open>A busy transaction never expires; one that isn't there doesn't come back.\<close>

lemma lock_keeps_busy: "ids_ok r \<Longrightarrow> find_tx r i = Some t \<Longrightarrow> tx_busy t \<Longrightarrow> find_tx (lock r) i = Some t"
  by (simp add: find_lock idle_def)

lemma lock_None: "ids_ok r \<Longrightarrow> find_tx r i = None \<Longrightarrow> find_tx (lock r) i = None"
  by (simp add: find_lock)

lemma find_end: "find_tx (end_tx i r) j = (if j = i then None else find_tx (lock r) j)"
  by (simp add: find_tx_def delete_conv')

lemma find_put: "find_tx (put_tx i t r) j = (if j = i \<and> find_tx r i \<noteq> None then Some t else find_tx r j)"
  by (auto simp: find_tx_def map_of_map_entry split: option.split)

lemma find_release:
  "\<exists>now. find_tx (release i r) = (\<lambda>j. if j = i then map_option (\<lambda>t. free_tx t now) (find_tx (lock r) i) else find_tx (lock r) j)"
proof -
  obtain now where "r_txs (release i r) = AList.map_entry i (\<lambda>t. free_tx t now) (r_txs (lock r))"
    using release_txs by blast
  then show ?thesis by (auto simp: find_tx_def map_of_map_entry fun_eq_iff split: option.split)
qed

lemma find_counts [simp]: "find_tx (count_design r) i = find_tx (lock r) i" "find_tx (countCommit r) i = find_tx (lock r) i"
  by (simp_all add: find_tx_def)

lemma release_None: "ids_ok r \<Longrightarrow> find_tx r i = None \<Longrightarrow> find_tx (release j r) i = None"
  using find_release [of j r] lock_None [of r i] by auto

lemma acquire_cases:
  assumes "acquire i r = (res, r')" "ids_ok r"
  obtains (missing) "res = Inl ErrNotFound" "find_tx r' i = None" "r' = lock r"
    | (busy) t where "res = Inl ErrBusy" "find_tx (lock r) i = Some t" "tx_busy t" "find_tx r' = find_tx (lock r)"
        "r_writer r' = r_writer r" "r_txs r' = r_txs (lock r)" "r_cfg r' = r_cfg r" "r_pause r' = r_pause r" "r_clock r' = r_clock r"
    | (got) t where "res = Inr (t\<lparr>tx_busy := True\<rparr>)" "find_tx (lock r) i = Some t" "\<not> tx_busy t"
        "r' = put_tx i (t\<lparr>tx_busy := True\<rparr>) (lock r)"
proof (cases "find_tx (lock r) i")
  case None
  then have "res = Inl ErrNotFound" "r' = lock r"
    using assms(1) by (simp_all add: acquire_def Let_def find_tx_def)
  with None show thesis by (intro missing) simp_all
next
  case (Some t)
  show thesis
  proof (cases "tx_busy t")
    case True
    with assms(1) Some have eq: "res = Inl ErrBusy"
      "r' = (lock r)\<lparr>r_stats := (r_stats (lock r))\<lparr>ts_Busy := Suc (ts_Busy (r_stats (lock r)))\<rparr>\<rparr>"
      by (simp_all add: acquire_def Let_def find_tx_def)
    show thesis by (rule busy [OF eq(1) Some True]) (simp_all add: eq(2) find_tx_def fun_eq_iff)
  next
    case False
    with assms(1) Some have "res = Inr (t\<lparr>tx_busy := True\<rparr>)" "r' = put_tx i (t\<lparr>tx_busy := True\<rparr>) (lock r)"
      by (simp_all add: acquire_def Let_def find_tx_def)
    then show thesis by (rule got [OF _ Some False])
  qed
qed

section \<open>The invariant of the Registry\<close>

text \<open>
  Every transaction keeps within its limits, no more are open than the configuration allows, and
  a pause in place means that none is open and that the store keeps the pause.
\<close>

definition reg_inv :: "Registry \<Rightarrow> bool" where
  "reg_inv r \<longleftrightarrow>
     ids_ok r \<and> config_wf (r_cfg r) \<and> (\<forall>(i, t)\<in>set (r_txs r). tx_inv (r_cfg r) t) \<and>
     (cf_MaxOpenTx (r_cfg r) > 0 \<longrightarrow> int (length (r_txs r)) \<le> cf_MaxOpenTx (r_cfg r)) \<and>
     (r_pause r = Paused \<longrightarrow> r_txs r = []) \<and>
     (r_pause r = Paused \<longleftrightarrow> st_pausedAt (w_store (r_writer r)) \<noteq> 0) \<and> (\<forall>n. r_clock r n \<noteq> 0)"

lemma tx_inv_flags [simp]:
  "tx_inv cfg (t\<lparr>tx_busy := b\<rparr>) = tx_inv cfg t" "tx_inv cfg (t\<lparr>tx_lastUsed := l\<rparr>) = tx_inv cfg t"
  "tx_inv cfg (free_tx t now) = tx_inv cfg t"
  by (simp_all add: tx_inv_def free_tx_def)

lemma length_map_entry [simp]: "length (AList.map_entry k f xs) = length xs"
  by (induction xs) auto

lemma map_entry_Nil_iff [simp]: "AList.map_entry k f xs = [] \<longleftrightarrow> xs = []"
  by (metis length_0_conv length_map_entry)

lemma length_update_le: "length (AList.update k v xs) \<le> Suc (length xs)"
  by (induction xs) auto

lemma in_map_entry: "(i, t) \<in> set (AList.map_entry k f xs) \<Longrightarrow> (\<exists>t'. (i, t') \<in> set xs \<and> t = f t') \<or> (i, t) \<in> set xs"
  by (induction xs) (auto split: if_splits)

lemma in_delete: "x \<in> set (AList.delete k xs) \<Longrightarrow> x \<in> set xs"
  by (simp add: AList.delete_eq)

lemma reg_invD:
  "reg_inv r \<Longrightarrow> ids_ok r"
  "reg_inv r \<Longrightarrow> (i, t) \<in> set (r_txs r) \<Longrightarrow> tx_inv (r_cfg r) t"
  "reg_inv r \<Longrightarrow> find_tx r i = Some t \<Longrightarrow> tx_inv (r_cfg r) t"
  "reg_inv r \<Longrightarrow> r_pause r = Paused \<Longrightarrow> r_txs r = []"
  by (auto simp: reg_inv_def find_tx_def dest: map_of_SomeD)

text \<open>A registry whose transactions were changed or removed, and nothing else that the invariant reads.\<close>

lemma reg_inv_shrink:
  assumes inv: "reg_inv r" and rest: "r_cfg r' = r_cfg r" "r_pause r' = r_pause r" "r_clock r' = r_clock r"
    "st_pausedAt (w_store (r_writer r')) = st_pausedAt (w_store (r_writer r))"
    and txs: "ids_ok r'" "length (r_txs r') \<le> length (r_txs r)" "\<And>i t. (i, t) \<in> set (r_txs r') \<Longrightarrow> tx_inv (r_cfg r) t"
  shows "reg_inv r'"
proof -
  have "r_txs r = [] \<Longrightarrow> r_txs r' = []" using txs(2) by simp
  then show ?thesis using inv txs by (auto simp: reg_inv_def rest)
qed

lemma reg_inv_lock [simp]:
  assumes "reg_inv r"
  shows "reg_inv (lock r)"
  by (rule reg_inv_shrink [OF assms]) (use reg_invD(1,2) [OF assms] in \<open>auto simp: lock_txs\<close>)

lemma reg_inv_end [simp]:
  assumes "reg_inv r"
  shows "reg_inv (end_tx i r)"
proof (rule reg_inv_shrink [OF reg_inv_lock [OF assms]])
  show "tx_inv (r_cfg (lock r)) t" if "(j, t) \<in> set (r_txs (end_tx i r))" for j t
    using that reg_invD(2) [OF reg_inv_lock [OF assms]] by (auto dest: in_delete)
qed (use reg_invD(1) [OF assms] in \<open>simp_all add: length_delete_le\<close>)

lemma reg_inv_put:
  assumes "reg_inv r" "tx_inv (r_cfg r) t"
  shows "reg_inv (put_tx i t r)"
proof (rule reg_inv_shrink [OF assms(1)])
  show "tx_inv (r_cfg r) u" if "(j, u) \<in> set (r_txs (put_tx i t r))" for j u
    using that reg_invD(2) [OF assms(1)] assms(2) by (auto dest: in_map_entry)
qed (use reg_invD(1) [OF assms(1)] in simp_all)

lemma reg_inv_counts [simp]:
  assumes "reg_inv r"
  shows "reg_inv (count_design r)" "reg_inv (countCommit r)"
  by (rule reg_inv_shrink [OF reg_inv_lock [OF assms]];
      use reg_invD(1) [OF assms] reg_invD(2) [OF reg_inv_lock [OF assms]] in simp)+

lemma reg_inv_release [simp]:
  assumes "reg_inv r"
  shows "reg_inv (release i r)"
proof -
  obtain now where txs: "r_txs (release i r) = AList.map_entry i (\<lambda>t. free_tx t now) (r_txs (lock r))"
    using release_txs by blast
  show ?thesis
  proof (rule reg_inv_shrink [OF reg_inv_lock [OF assms]])
    show "tx_inv (r_cfg (lock r)) t" if "(j, t) \<in> set (r_txs (release i r))" for j t
      using that reg_invD(2) [OF reg_inv_lock [OF assms]] unfolding txs by (auto dest!: in_map_entry)
  qed (use reg_invD(1) [OF assms] in \<open>simp_all add: txs\<close>)
qed

lemma reg_inv_stats [simp]: "reg_inv (r\<lparr>r_stats := x\<rparr>) = reg_inv r"
  by (simp add: reg_inv_def ids_ok_def)

lemma reg_inv_acquire:
  assumes inv: "reg_inv r" and run: "acquire i r = (res, r')"
  shows "reg_inv r'" "r_cfg r' = r_cfg r" "r_writer r' = r_writer r"
    "res = Inr t \<Longrightarrow> tx_inv (r_cfg r) t \<and> tx_busy t"
proof -
  note lock = reg_inv_lock [OF inv]
  from run reg_invD(1) [OF inv]
  have "reg_inv r' \<and> r_cfg r' = r_cfg r \<and> r_writer r' = r_writer r \<and> (res = Inr t \<longrightarrow> tx_inv (r_cfg r) t \<and> tx_busy t)"
  proof (cases rule: acquire_cases)
    case missing
    with lock show ?thesis by simp
  next
    case busy
    have "ids_ok r'" using reg_invD(1) [OF lock] busy(6) by (simp add: ids_ok_def)
    then have "reg_inv r'"
      by (intro reg_inv_shrink [OF lock]) (use busy reg_invD(2) [OF lock] in simp_all)
    with busy show ?thesis by simp
  next
    case (got t)
    then show ?thesis using lock reg_invD(3) [OF lock got(2)] by (auto intro!: reg_inv_put)
  qed
  then show "reg_inv r'" "r_cfg r' = r_cfg r" "r_writer r' = r_writer r" "res = Inr t \<Longrightarrow> tx_inv (r_cfg r) t \<and> tx_busy t"
    by blast+
qed

section \<open>Every operation keeps the invariant\<close>

definition fn_ok :: "(transaction \<Rightarrow> Registry \<Rightarrow> (tx_error + 'a \<times> transaction) \<times> Registry) \<Rightarrow> bool" where
  "fn_ok fn \<longleftrightarrow> (\<forall>t r. reg_inv r \<longrightarrow> tx_inv (r_cfg r) t \<longrightarrow>
     reg_inv (snd (fn t r)) \<and> r_cfg (snd (fn t r)) = r_cfg r \<and>
     (\<forall>x t'. fst (fn t r) = Inr (x, t') \<longrightarrow> tx_inv (r_cfg r) t'))"

lemma do_tx_inv:
  assumes fn: "fn_ok fn" and inv: "reg_inv r"
  shows "reg_inv (snd (do_tx i fn r))"
proof -
  obtain res r1 where acq: "acquire i r = (res, r1)" by fastforce
  note r1 = reg_inv_acquire [OF inv acq]
  show ?thesis
  proof (cases res)
    case (Inl e)
    then show ?thesis using r1(1) by (simp add: do_tx_def acq)
  next
    case (Inr t)
    obtain res2 r2 where run: "fn t r1 = (res2, r2)" by fastforce
    have r2: "reg_inv r2" "r_cfg r2 = r_cfg r" "res2 = Inr (x, t') \<Longrightarrow> tx_inv (r_cfg r) t'" for x t'
      using fn r1(1,2) r1(4) [OF Inr] run unfolding fn_ok_def by (metis fst_conv snd_conv)+
    show ?thesis
    proof (cases res2)
      case (Inl e)
      then show ?thesis using r2(1) by (simp add: do_tx_def acq Inr run Let_def)
    next
      case (Inr y)
      then show ?thesis using r2 \<open>res = Inr t\<close>
        by (cases y) (auto simp: do_tx_def acq run intro!: reg_inv_release reg_inv_put)
    qed
  qed
qed

lemma fn_ok_pure:
  assumes "\<And>t r x t'. tx_inv (r_cfg r) t \<Longrightarrow> f t r = Inr (x, t') \<Longrightarrow> tx_inv (r_cfg r) t'"
  shows "fn_ok (\<lambda>t r. (f t r, r))"
  using assms by (simp add: fn_ok_def)

lemma ReadEvents_inv: "reg_inv r \<Longrightarrow> reg_inv (snd (ReadEvents faults i f r))"
  unfolding ReadEvents_def
  by (rule do_tx_inv) (auto simp: fn_ok_def Let_def dest: tx_ReadEvents_inv split: sum.split)

lemma WriteEvents_inv: "reg_inv r \<Longrightarrow> reg_inv (snd (WriteEvents now i events r))"
  unfolding WriteEvents_def by (rule do_tx_inv [OF fn_ok_pure]) (auto dest: tx_WriteEvents_inv)

lemma GetProjection_inv: "reg_inv r \<Longrightarrow> reg_inv (snd (Registry_GetProjection faults i key r))"
  unfolding Registry_GetProjection_def by (rule do_tx_inv [OF fn_ok_pure]) (auto dest: tx_GetProjection_inv)

lemma WriteProjections_inv: "reg_inv r \<Longrightarrow> reg_inv (snd (Registry_WriteProjections now i w r))"
  unfolding Registry_WriteProjections_def by (rule do_tx_inv [OF fn_ok_pure]) (auto dest: tx_WriteProjections_inv)

lemma Begin_inv:
  assumes "reg_inv r"
  shows "reg_inv (snd (Begin i r))"
proof -
  note lock = reg_inv_lock [OF assms]
  have cfg: "config_wf (r_cfg r)" using assms by (simp add: reg_inv_def)
  have "reg_inv (r2\<lparr>r_txs := AList.update i (new_transaction\<lparr>tx_lastUsed := now\<rparr>) (r_txs r2), r_stats := s\<rparr>)"
    if "tick (lock r) = (now, r2)" "r_pause r = Running"
      "\<not> (cf_MaxOpenTx (r_cfg r) > 0 \<and> int (length (r_txs (lock r))) \<ge> cf_MaxOpenTx (r_cfg r))" for now r2 s
  proof -
    have r2: "r2 = (lock r)\<lparr>r_ticks := Suc (r_ticks (lock r))\<rparr>" using that(1) by (simp add: tick_def)
    have "tx_inv (r_cfg r) t"
      if "(j, t) \<in> set (AList.update i (new_transaction\<lparr>tx_lastUsed := now\<rparr>) (r_txs (lock r)))" for j t
    proof -
      have "distinct (map fst (AList.update i (new_transaction\<lparr>tx_lastUsed := now\<rparr>) (r_txs (lock r))))"
        using reg_invD(1) [OF lock] by (simp add: ids_ok_def distinct_update)
      with that have "((map_of (r_txs (lock r)))(i \<mapsto> new_transaction\<lparr>tx_lastUsed := now\<rparr>)) j = Some t"
        by (metis map_of_eq_Some_iff update_conv')
      then show ?thesis
        using reg_invD(2) [OF lock] new_transaction_inv [OF cfg] by (auto split: if_splits dest: map_of_SomeD)
    qed
    moreover have "length (AList.update i (new_transaction\<lparr>tx_lastUsed := now\<rparr>) (r_txs (lock r))) \<le> Suc (length (r_txs (lock r)))"
      by (rule length_update_le)
    ultimately show ?thesis
      using lock that(2,3) by (auto simp: reg_inv_def r2 ids_ok_def distinct_update)
  qed
  moreover obtain now r2 where "tick (lock r) = (now, r2)" by fastforce
  ultimately show ?thesis using lock by (auto simp: Begin_def Let_def)
qed

lemma Abandon_inv: "reg_inv r \<Longrightarrow> reg_inv (snd (Abandon i r))"
  using reg_inv_acquire(1) [of r i] by (auto simp: Abandon_def Let_def split: prod.split sum.split)

lemma Reject_inv: "reg_inv r \<Longrightarrow> reg_inv (snd (Reject i d r))"
  using reg_inv_acquire(1) [of r i] by (auto simp: Reject_def Let_def split: prod.split sum.split)

lemma Append_pausedAt: "st_pausedAt (snd (Append faults uuids s events conditions w)) = st_pausedAt s"
  by (simp add: Append_def reserveSequences_def releaseSequences_def Let_def split: option.split sum.split prod.split)

lemma WritePending_pausedAt:
  assumes "WritePending tn events conditions w W = (r, W')"
  shows "st_pausedAt (w_store W') = st_pausedAt (w_store W)"
  using write_append_cases [OF assms [unfolded WritePending_def]] Append_pausedAt by (metis snd_conv)

lemma reg_inv_writer:
  assumes "reg_inv r" "st_pausedAt (w_store w) = st_pausedAt (w_store (r_writer r))"
  shows "reg_inv (r\<lparr>r_writer := w\<rparr>)"
  using assms by (simp add: reg_inv_def ids_ok_def)

lemma commit_write_inv:
  assumes "reg_inv r"
  shows "reg_inv (snd (commit_write tn t writes keys r)) \<and> r_cfg (snd (commit_write tn t writes keys r)) = r_cfg r"
proof -
  obtain res w where run: "WritePending tn (tx_events t) (tx_conditions t) writes (r_writer r) = (res, w)" by fastforce
  have "reg_inv (r\<lparr>r_writer := w\<rparr>)" by (rule reg_inv_writer [OF assms WritePending_pausedAt [OF run]])
  then show ?thesis by (simp add: commit_write_def run split: sum.split)
qed

lemma commit_tx_ok: "fn_ok (commit_tx tn i)"
  unfolding fn_ok_def
proof (intro allI impI)
  fix t r assume inv: "reg_inv r" and t: "tx_inv (r_cfg r) t"
  obtain writes keys where net: "netProjections t = (writes, keys)" by fastforce
  obtain res r1 where run: "commit_write tn t writes keys r = (res, r1)" by fastforce
  have r1: "reg_inv r1 \<and> r_cfg r1 = r_cfg r" using commit_write_inv [OF inv, of tn t writes keys] by (simp add: run)
  show "reg_inv (snd (commit_tx tn i t r)) \<and> r_cfg (snd (commit_tx tn i t r)) = r_cfg r \<and>
      (\<forall>x t'. fst (commit_tx tn i t r) = Inr (x, t') \<longrightarrow> tx_inv (r_cfg r) t')"
    using inv t r1 by (auto simp: commit_tx_def net run bind_err_Inr_iff)
qed

lemma Commit_inv: "reg_inv r \<Longrightarrow> reg_inv (snd (Commit tn i r))"
  unfolding Commit_def by (rule do_tx_inv [OF commit_tx_ok])

lemma reg_inv_checkpoint: "reg_inv r \<Longrightarrow> reg_inv (r\<lparr>r_writer := checkpoint tn (r_writer r)\<rparr>)"
  by (rule reg_inv_writer) simp_all

text \<open>What one turn of the registry keeps, when its work keeps it.\<close>

lemma registry_in_turn_inv:
  assumes "registry_in_turn tn fn r = (res, r')" "reg_inv r" "reg_inv (snd (fn r))"
  shows "reg_inv r'"
proof (cases "tn_join tn")
  case (Some e)
  then have "r' = r \<or> (\<exists>s. r' = r\<lparr>r_writer := (r_writer r)\<lparr>w_stats := s\<rparr>\<rparr>)"
    using assms(1) by (auto simp: RunInTurn_def split: if_splits)
  then show ?thesis using assms(2) by (auto intro!: reg_inv_writer)
next
  case None
  then show ?thesis
    using assms by (auto simp: RunInTurn_def split: if_splits prod.splits intro!: reg_inv_checkpoint)
qed

lemma pause_turn_cases:
  assumes inv: "reg_inv r" and run: "pause_turn faults r = (res, r')"
  shows "reg_inv r' \<and>
    (case res of
       Inl e \<Rightarrow> r_pause r' = r_pause r \<and> r_txs r' = r_txs (lock r)
     | Inr p \<Rightarrow>
         if pz_Paused p
         then r_pause r' = Paused \<and> r_txs r' = [] \<and> pz_LastSequence p = LastSequence (w_store (r_writer r'))
         else r_pause r' = PauseRequested \<and> r_txs r' \<noteq> [] \<and> pz_Open p = length (r_txs r') \<and> r_writer r' = r_writer r)"
proof -
  note lock = reg_inv_lock [OF inv]
  have clock: "r_clock r n \<noteq> 0" for n using inv by (simp add: reg_inv_def)
  consider (paused) "r_pause r = Paused" | (open_txs) "r_pause r \<noteq> Paused" "r_txs (lock r) \<noteq> []"
    | (place) "r_pause r \<noteq> Paused" "r_txs (lock r) = []" by blast
  then show ?thesis
  proof cases
    case paused
    then show ?thesis using run lock reg_invD(4) [OF lock] by (auto simp: pause_turn_def Let_def)
  next
    case open_txs
    have "reg_inv (r1\<lparr>r_pause := PauseRequested, r_pauseSince := since\<rparr>)"
      if "r1 = (lock r)\<lparr>r_ticks := k\<rparr>" for r1 since k
      using lock open_txs(1) by (auto simp: that reg_inv_def ids_ok_def)
    moreover have "r_pause r = PauseRequested" if "r_pause r \<noteq> Running" using that open_txs(1) by (cases "r_pause r") auto
    ultimately show ?thesis
      using run lock open_txs by (auto simp: pause_turn_def Let_def tick_def split: if_splits)
  next
    case place
    let ?now = "r_clock r (r_ticks (lock r))" and ?r2 = "snd (tick (lock r))"
    obtain ans st where set: "SetPause faults (w_store (r_writer r)) ?now = (ans, st)" by fastforce
    show ?thesis
    proof (cases ans)
      case (Inl e)
      then have "st_pausedAt st = st_pausedAt (w_store (r_writer r))"
        using set by (auto simp: SetPause_def run_statement_def split: sum.splits prod.splits option.splits)
      then have "reg_inv (?r2\<lparr>r_writer := (r_writer ?r2)\<lparr>w_store := st\<rparr>\<rparr>)"
        using lock by (intro reg_inv_writer) (auto simp: reg_inv_def ids_ok_def)
      then show ?thesis using run place Inl set by (auto simp: pause_turn_def Let_def case_prod_unfold)
    next
      case (Inr lastSeq)
      have st: "st_pausedAt st = ?now" "lastSeq = LastSequence st"
        using set Inr by (auto simp: SetPause_def LastSequence_def split: sum.splits prod.splits option.splits)
      have "reg_inv (?r2\<lparr>r_writer := (r_writer ?r2)\<lparr>w_store := st\<rparr>, r_pause := Paused, r_pauseSince := ?now\<rparr>)"
        using lock place(2) clock by (auto simp: reg_inv_def ids_ok_def st(1))
      then show ?thesis using run place Inr set st(2) by (auto simp: pause_turn_def Let_def case_prod_unfold)
    qed
  qed
qed

lemma Pause_inv:
  assumes "reg_inv r"
  shows "reg_inv (snd (Pause tn r))"
proof -
  obtain res r' where run: "Pause tn r = (res, r')" by fastforce
  obtain x y where "pause_turn (tn_faults tn) r = (x, y)" by fastforce
  with registry_in_turn_inv [OF run [unfolded Pause_def] assms] pause_turn_cases [OF assms this] run
  show ?thesis by simp
qed

lemma resume_turn_cases:
  assumes inv: "reg_inv r" and run: "resume_turn faults r = (res, r')"
  shows "reg_inv r' \<and> r_txs r' = r_txs (lock r) \<and>
    (case res of Inl e \<Rightarrow> r_pause r' = r_pause r | Inr _ \<Rightarrow> r_pause r' = Running)"
proof -
  note lock = reg_inv_lock [OF inv]
  show ?thesis
  proof (cases "r_pause r = Paused")
    case False
    then have "reg_inv (r2\<lparr>r_pause := Running, r_pauseSince := since\<rparr>)" if "r2 = (lock r)\<lparr>r_ticks := k\<rparr>" for r2 since k
      using lock by (auto simp: that reg_inv_def ids_ok_def)
    then show ?thesis using run lock False by (auto simp: resume_turn_def Let_def tick_def split: if_splits)
  next
    case True
    obtain err st where clear: "ClearPause faults (w_store (r_writer r)) = (err, st)" by fastforce
    show ?thesis
    proof (cases err)
      case None
      then have "st_pausedAt st = 0" using clear by (auto simp: ClearPause_def split: prod.splits option.splits)
      then have "reg_inv ((lock r)\<lparr>r_writer := (r_writer r)\<lparr>w_store := st\<rparr>, r_ticks := k, r_pause := Running, r_pauseSince := since\<rparr>)"
        for since k
        using lock by (auto simp: reg_inv_def ids_ok_def)
      then show ?thesis using run None clear True by (auto simp: resume_turn_def Let_def tick_def)
    next
      case (Some e)
      then have "st_pausedAt st = st_pausedAt (w_store (r_writer r))"
        using clear by (auto simp: ClearPause_def run_statement_def split: sum.splits prod.splits option.splits)
      then have "reg_inv ((lock r)\<lparr>r_writer := (r_writer r)\<lparr>w_store := st\<rparr>\<rparr>)"
        using lock by (intro reg_inv_writer) auto
      then show ?thesis using run Some clear True by (auto simp: resume_turn_def Let_def)
    qed
  qed
qed

lemma Resume_inv:
  assumes "reg_inv r"
  shows "reg_inv (snd (Resume tn r))"
proof (cases "r_pause r = Running")
  case False
  obtain res r' where run: "registry_in_turn tn (resume_turn (tn_faults tn)) (lock r) = (res, r')" by fastforce
  obtain x y where "resume_turn (tn_faults tn) (lock r) = (x, y)" by fastforce
  with registry_in_turn_inv [OF run reg_inv_lock [OF assms]] resume_turn_cases [OF reg_inv_lock [OF assms] this]
  have "reg_inv r'" by simp
  then show ?thesis using run False by (simp add: Resume_def Let_def)
qed (use assms in \<open>simp add: Resume_def Let_def\<close>)

end
