(* ===== verification/Commits.thy ===== *)
theory Commits
  imports Registry
begin

text \<open>
  What the calls on a transaction mean for the client that makes them: an error ends the
  transaction, unless another call was using it; a commit writes all the transaction holds, or
  nothing; and what the transaction read is still there when it commits.
\<close>

section \<open>Errors end a transaction\<close>

lemma lock_None': "find_tx r i = None \<Longrightarrow> find_tx (lock r) i = None"
  by (auto simp: find_tx_def lock_txs map_of_eq_None_iff)

lemma release_None': "find_tx r i = None \<Longrightarrow> find_tx (release j r) i = None"
  using find_release [of j r] lock_None' [of r i] by auto

lemma do_tx_error:
  assumes "do_tx i fn r = (Inl e, r')" "ids_ok r"
  shows "e = ErrBusy \<and> find_tx r' = find_tx (lock r) \<and> r_writer r' = r_writer r \<or> find_tx r' i = None"
proof -
  obtain res r1 where acq: "acquire i r = (res, r1)" by fastforce
  from acq assms(2) show ?thesis
  proof (cases rule: acquire_cases)
    case missing
    then show ?thesis using assms(1) by (simp add: do_tx_def acq)
  next
    case busy
    then show ?thesis using assms(1) by (simp add: do_tx_def acq)
  next
    case (got t)
    obtain res2 r2 where run: "fn (t\<lparr>tx_busy := True\<rparr>) r1 = (res2, r2)" by fastforce
    have "find_tx (end_tx i r2) i = None" by (simp add: find_end)
    then have "find_tx (release i (if is_design e then count_design (end_tx i r2) else end_tx i r2)) i = None" for e
      by (intro release_None') (simp add: lock_None')
    then show ?thesis
      using assms(1) by (auto simp: do_tx_def acq got(1) run Let_def split: sum.splits prod.splits)
  qed
qed

lemma do_tx_run:
  assumes "find_tx (lock r) i = Some t" "\<not> tx_busy t" "ids_ok r"
    and "fn (t\<lparr>tx_busy := True\<rparr>) (put_tx i (t\<lparr>tx_busy := True\<rparr>) (lock r)) = (res, r2)"
  shows "do_tx i fn r =
    (case res of
       Inl e \<Rightarrow> (Inl e, release i (if is_design e then count_design (end_tx i r2) else end_tx i r2))
     | Inr (x, t') \<Rightarrow> (Inr x, release i (put_tx i t' r2)))"
proof -
  have "acquire i r = (Inr (t\<lparr>tx_busy := True\<rparr>), put_tx i (t\<lparr>tx_busy := True\<rparr>) (lock r))"
    using assms(1,2) by (simp add: acquire_def Let_def find_tx_def)
  then show ?thesis using assms(4) by (simp add: do_tx_def Let_def split: sum.split prod.split)
qed

section \<open>A commit\<close>

text \<open>What the application gave to the transaction, checked before it reached the Registry.\<close>

definition tx_wf :: "spec \<Rightarrow> transaction \<Rightarrow> bool" where
  "tx_wf a t \<longleftrightarrow>
     (\<forall>e\<in>set (tx_events t). pe_time e \<noteq> 0 \<and> tags_distinct (pe_data e)) \<and>
     (\<forall>c\<in>set (tx_conditions t). query_wf (FailIfEventsMatch c)) \<and>
     sp_next a + int (length (tx_events t)) \<le> max_i64"

definition has_writes :: "transaction \<Rightarrow> bool" where
  "has_writes t \<longleftrightarrow> tx_events t \<noteq> [] \<or> (\<exists>k. net_changed t k)"

text \<open>
  The transaction is committed: nothing it depends on had changed, its events follow the log, its
  projections are written, and nothing else changed.
\<close>

definition committed :: "transaction \<Rightarrow> spec \<Rightarrow> spec \<Rightarrow> bool" where
  "committed t a a' \<longleftrightarrow>
     list_all (condition_holds (sp_log a)) (tx_conditions t) \<and>
     sp_log a' = sp_log a @ placed (sp_next a) (tx_events t) \<and>
     sp_next a' = sp_next a + int (length (tx_events t)) \<and>
     (\<forall>k. if net_changed t k
        then as_read t (sp_projections a) k \<and>
          payloads (sp_projections a') k = tx_view (payloads (sp_projections a)) t k
        else sp_projections a' (kk k) = sp_projections a (kk k))"

text \<open>The commit was refused for a reason that holds.\<close>

definition refused :: "transaction \<Rightarrow> spec \<Rightarrow> tx_error \<Rightarrow> bool" where
  "refused t a e \<longleftrightarrow>
     (case e of
        ConflictError c \<Rightarrow> net_changed t (conflict_key c) \<and> \<not> as_read t (sp_projections a) (conflict_key c)
      | OpErr (StoreErr (ConditionConflictError j)) \<Rightarrow>
          j < length (tx_conditions t) \<and> \<not> condition_holds (sp_log a) (tx_conditions t ! j)
      | ErrDesign rule \<Rightarrow> tx_open t \<noteq> None
      | OpErr op \<Rightarrow> True
      | _ \<Rightarrow> False)"

lemma first_failing_Some:
  "first_failing evs i cs = Some j \<Longrightarrow> i \<le> j \<and> j < i + length cs \<and> \<not> condition_holds evs (cs ! (j - i))"
proof (induction cs arbitrary: i)
  case (Cons c cs)
  show ?case
  proof (cases "condition_holds evs c")
    case True
    with Cons.prems have "first_failing evs (Suc i) cs = Some j" by simp
    from Cons.IH [OF this] have "Suc i \<le> j" "j < Suc i + length cs" "\<not> condition_holds evs (cs ! (j - Suc i))" by blast+
    moreover from this(1) have "j - i = Suc (j - Suc i)" by simp
    ultimately show ?thesis by simp
  next
    case False
    with Cons.prems show ?thesis by auto
  qed
qed simp

lemma first_failing_None: "first_failing evs i cs = None \<longleftrightarrow> list_all (condition_holds evs) cs"
  by (induction cs arbitrary: i) auto

lemma net_writes_wf: "netProjections t = (w, keys) \<Longrightarrow> writes_wf w"
  using netProjections_lists [of t] by (auto simp: writes_wf_def net_lists_def list_all_iff create_of_def replace_of_def)

lemma net_writes_none:
  assumes "netProjections t = (w, keys)" "touched_ok t"
  shows "Writes_Len w = 0 \<longleftrightarrow> (\<forall>k. \<not> net_changed t k)"
proof -
  have "Writes_Len w = length (net_keys t)"
    using netProjections_lists [of t] assms(1) by (simp add: Writes_Len_def net_lists_def)
  moreover define ks where "ks = net_keys t"
  have "k \<in> set ks \<longleftrightarrow> net_changed t k" for k
    unfolding ks_def using assms(2) by (intro net_keys_changed) (simp add: touched_ok_def)
  then have "ks = [] \<longleftrightarrow> (\<forall>k. \<not> net_changed t k)" by (cases ks) auto
  ultimately show ?thesis by (simp add: ks_def)
qed

lemma committed_by_append:
  assumes net: "netProjections t = (w, keys)" and ok: "touched_ok t"
    and app: "spec_append uuids a (tx_events t) (tx_conditions t) w = (Inr x, a')"
  shows "committed t a a'"
proof -
  from app obtain m where m: "first_failing (sp_log a) 0 (tx_conditions t) = None"
    "spec_writes uuids w (sp_projections a) = Inr m"
    "a' = \<lparr>sp_log = sp_log a @ placed (sp_next a) (tx_events t), sp_next = sp_next a + int (length (tx_events t)),
       sp_projections = m\<rparr>"
    by (auto simp: spec_append_def split: option.splits sum.splits)
  show ?thesis
    using net_writes_Inr [OF net ok m(2)] m(1,3) by (simp add: committed_def first_failing_None)
qed

lemma refused_by_append:
  assumes net: "netProjections t = (w, keys)" and ok: "touched_ok t"
    and app: "spec_append uuids a (tx_events t) (tx_conditions t) w = (Inl e, a')"
  shows "refused t a (commit_error keys (StoreErr e))"
proof (cases "first_failing (sp_log a) 0 (tx_conditions t)")
  case (Some j)
  with app have "e = ConditionConflictError j" by (simp add: spec_append_def)
  then show ?thesis using first_failing_Some [OF Some] by (simp add: refused_def commit_error_def)
next
  case None
  with app have "spec_writes uuids w (sp_projections a) = Inl e"
    by (auto simp: spec_append_def split: sum.splits)
  from net_writes_conflict [OF net ok this] show ?thesis by (auto simp: refused_def commit_error_def)
qed

lemma commit_write_spec:
  assumes rep: "store_rep (w_store (r_writer r)) a" and ok: "touched_ok t" and wf: "tx_wf a t"
    and net: "netProjections t = (w, keys)" and run: "commit_write tn t w keys r = (res, r2)"
  shows "case res of
      Inr _ \<Rightarrow> \<exists>a'. store_rep (w_store (r_writer r2)) a' \<and> committed t a a'
    | Inl e \<Rightarrow> w_store (r_writer r2) = w_store (r_writer r) \<and> refused t a e"
proof -
  obtain ans W where wr: "write_append tn (tx_events t) (tx_conditions t) w (r_writer r) = (ans, W)" by fastforce
  have awf: "append_wf a (tx_events t) (tx_conditions t) w"
    using wf net_writes_wf [OF net] by (simp add: append_wf_def tx_wf_def)
  from write_append_cases [OF wr] show ?thesis
  proof
    assume "(ans = Inl WriterClosed \<or> (\<exists>e. ans = Inl (QueueErr e))) \<and> w_store W = w_store (r_writer r)"
    then show ?thesis
      using run by (auto simp: commit_write_def WritePending_def wr refused_def commit_error_def)
  next
    assume "\<not> w_closed (r_writer r) \<and> tn_join tn = None \<and>
      (\<exists>r0. Append (tn_faults tn) (tn_uuids tn) (w_store (r_writer r)) (tx_events t) (tx_conditions t) w = (r0, w_store W) \<and>
         ans = (case r0 of Inl e \<Rightarrow> Inl (StoreErr e) | Inr x \<Rightarrow> Inr x))"
    then obtain r0 where app: "Append (tn_faults tn) (tn_uuids tn) (w_store (r_writer r)) (tx_events t) (tx_conditions t) w = (r0, w_store W)"
      and ans: "ans = (case r0 of Inl e \<Rightarrow> Inl (StoreErr e) | Inr x \<Rightarrow> Inr x)" by blast
    note spec = Append_refines_spec [OF rep awf app]
    show ?thesis
    proof (cases r0)
      case (Inl e)
      then have same: "w_store W = w_store (r_writer r)" using Append_failed app by blast
      from spec have "refused t a (commit_error keys (StoreErr e))"
        using refused_by_append [OF net ok] by (auto simp: Inl from_fault_def refused_def commit_error_def)
      then show ?thesis
        using run same by (auto simp: commit_write_def WritePending_def wr ans Inl)
    next
      case (Inr x)
      with spec obtain a' where "spec_append (tn_uuids tn) a (tx_events t) (tx_conditions t) w = (Inr x, a')" "store_rep (w_store W) a'"
        by auto
      then show ?thesis
        using run committed_by_append [OF net ok, of "tn_uuids tn" a x a'] by (auto simp: commit_write_def WritePending_def wr ans Inr)
    qed
  qed
qed

text \<open>What a successful commit leaves, whether it had anything to write or not.\<close>

definition commit_done :: "transaction \<Rightarrow> spec \<Rightarrow> Store \<Rightarrow> Store \<Rightarrow> bool" where
  "commit_done t a s s' \<longleftrightarrow>
     tx_open t = None \<and>
     (if has_writes t then \<exists>a'. store_rep s' a' \<and> committed t a a' else s' = s)"

lemma commit_tx_spec:
  assumes rep: "store_rep (w_store (r_writer r)) a" and ok: "touched_ok t" and wf: "tx_wf a t"
    and run: "commit_tx tn i t r = (res, r2)"
  shows "case res of
      Inr (x, t') \<Rightarrow> commit_done t a (w_store (r_writer r)) (w_store (r_writer r2)) \<and> find_tx r2 i = None
    | Inl e \<Rightarrow> w_store (r_writer r2) = w_store (r_writer r) \<and> refused t a e"
proof (cases "tx_open t = None")
  case False
  then show ?thesis using run by (auto simp: commit_tx_def refused_def)
next
  case True
  obtain w keys where net: "netProjections t = (w, keys)" by fastforce
  obtain ans r1 where wr: "commit_write tn t w keys r = (ans, r1)" by fastforce
  have writes: "tx_events t = [] \<and> Writes_Len w = 0 \<longleftrightarrow> \<not> has_writes t"
    using net_writes_none [OF net ok] by (simp add: has_writes_def)
  show ?thesis
  proof (cases "has_writes t")
    case False
    then show ?thesis using run True by (auto simp: commit_tx_def net writes commit_done_def find_end)
  next
    case has: True
    show ?thesis
      using run True commit_write_spec [OF rep ok wf net wr] has
      by (cases ans) (auto simp: commit_tx_def net writes wr commit_done_def find_end)
  qed
qed

lemma netProjections_busy [simp]: "netProjections (t\<lparr>tx_busy := b\<rparr>) = netProjections t"
  by (simp add: netProjections_def)

lemma tx_flags [simp]:
  "touched_ok (t\<lparr>tx_busy := b\<rparr>) = touched_ok t" "tx_wf a (t\<lparr>tx_busy := b\<rparr>) = tx_wf a t"
  "net_changed (t\<lparr>tx_busy := b\<rparr>) k = net_changed t k" "as_read (t\<lparr>tx_busy := b\<rparr>) m k = as_read t m k"
  "tx_view m' (t\<lparr>tx_busy := b\<rparr>) k = tx_view m' t k"
  by (simp_all add: touched_ok_def tx_wf_def net_changed_def as_read_def tx_view_def)

lemma tx_flags_commit [simp]:
  "refused (t\<lparr>tx_busy := b\<rparr>) a e = refused t a e" "commit_done (t\<lparr>tx_busy := b\<rparr>) a s s' = commit_done t a s s'"
proof -
  show "refused (t\<lparr>tx_busy := b\<rparr>) a e = refused t a e"
    by (simp add: refused_def split: tx_error.split op_error.split store_error.split)
  have "has_writes (t\<lparr>tx_busy := b\<rparr>) = has_writes t" "committed (t\<lparr>tx_busy := b\<rparr>) a a' = committed t a a'" for a'
    by (simp_all add: has_writes_def committed_def)
  then show "commit_done (t\<lparr>tx_busy := b\<rparr>) a s s' = commit_done t a s s'" by (simp add: commit_done_def)
qed

lemma Commit_spec:
  assumes inv: "reg_inv r" and rep: "store_rep (w_store (r_writer r)) a"
    and t: "find_tx (lock r) i = Some t" "\<not> tx_busy t" and wf: "tx_wf a t" and run: "Commit tn i r = (res, r')"
  shows "find_tx r' i = None \<and>
    (case res of
       Inr _ \<Rightarrow> commit_done t a (w_store (r_writer r)) (w_store (r_writer r'))
     | Inl e \<Rightarrow> w_store (r_writer r') = w_store (r_writer r) \<and> refused t a e)"
proof -
  let ?t = "t\<lparr>tx_busy := True\<rparr>" and ?r = "put_tx i (t\<lparr>tx_busy := True\<rparr>) (lock r)"
  obtain ans r2 where fn: "commit_tx tn i ?t ?r = (ans, r2)" by fastforce
  have ids: "ids_ok r" using reg_invD(1) [OF inv] .
  have "tx_inv (r_cfg (lock r)) t" by (rule reg_invD(3) [OF reg_inv_lock [OF inv] t(1)])
  then have "touched_ok ?t" by (simp add: tx_inv_def touched_ok_def)
  note spec = commit_tx_spec [OF _ this _ fn, of a]
  note commit = do_tx_run [where fn = "commit_tx tn i", OF t(1,2) ids fn]
  show ?thesis
  proof (cases ans)
    case (Inl e)
    have "find_tx (release i (if is_design e then count_design (end_tx i r2) else end_tx i r2)) i = None"
      by (intro release_None') (simp add: lock_None' find_end)
    then show ?thesis
      using run spec rep wf by (auto simp: Commit_def commit Inl)
  next
    case (Inr y)
    obtain x t' where y: "y = (x, t')" by (cases y)
    have "find_tx r2 i = None" using spec rep wf by (simp add: Inr y)
    then have "find_tx (release i (put_tx i t' r2)) i = None"
      by (intro release_None') (simp add: find_put)
    then show ?thesis
      using run spec rep wf by (auto simp: Commit_def commit Inr y)
  qed
qed

section \<open>Reads that still hold\<close>

text \<open>
  A read of events whose condition holds on the log that has grown since would give the same
  events again.
\<close>

lemma read_again:
  assumes sorted: "sorted_wrt (<) (map ev_sequence (evs @ new))" "\<forall>e\<in>set (evs @ new). 0 < ev_sequence e"
    and holds: "condition_holds (evs @ new) \<lparr>FailIfEventsMatch = df_query f, AfterSequence = last_position evs\<rparr>"
  shows "spec_decision (evs @ new) f = (spec_decision evs f)\<lparr>dn_position := last_position (evs @ new)\<rparr>"
proof -
  have "filter (\<lambda>e. Query_Matches (df_query f) (ev_data e)) new = []"
    using holds last_position_sorted [OF sorted, of "df_query f"] by (simp add: condition_holds_def)
  then have "matching (evs @ new) (df_query f) 0 = matching evs (df_query f) 0"
    by (auto simp: matching_def filter_empty_conv)
  then show ?thesis by (simp add: spec_decision_def Let_def)
qed

lemma commit_reads_hold:
  assumes rep: "store_rep s a" and done': "commit_done t a s s'" "has_writes t"
    and read: "store_rep s0 a0" "sp_log a = sp_log a0 @ new" "query_wf (df_query f)" "ReadDecision faults s0 f = Inr d"
    and cond: "condition_of f d \<in> set (tx_conditions t)"
  shows "ReadDecision no_faults s f = Inr (d\<lparr>dn_position := last_position (sp_log a)\<rparr>)"
proof -
  have d: "d = spec_decision (sp_log a0) f" using ReadDecision_spec [OF read(1,3), of faults] read(4) by simp
  from done' obtain a' where "committed t a a'" by (auto simp: commit_done_def)
  then have "condition_holds (sp_log a) (condition_of f d)" using cond by (auto simp: committed_def list_all_iff)
  then have "condition_holds (sp_log a0 @ new) \<lparr>FailIfEventsMatch = df_query f, AfterSequence = last_position (sp_log a0)\<rparr>"
    by (simp add: condition_of_def d spec_decision_def Let_def read(2))
  moreover have "sorted_wrt (<) (map ev_sequence (sp_log a0 @ new))" "\<forall>e\<in>set (sp_log a0 @ new). 0 < ev_sequence e"
    using rep by (simp_all add: store_rep_def db_log_def flip: read(2))
  ultimately have "spec_decision (sp_log a) f = d\<lparr>dn_position := last_position (sp_log a)\<rparr>"
    unfolding d read(2) by (intro read_again)
  then show ?thesis using ReadDecision_spec [OF rep read(3), of no_faults] by (auto split: sum.splits)
qed

end
