(* ===== verification/Interleave.thy ===== *)
theory Interleave
  imports Commits
begin

text \<open>
  The calls of several clients, interleaved. A call on a transaction is not atomic: it acquires
  the transaction, works, ends it after an error or a commit, and releases it, each in its own
  critical section of the Registry, and a commit also waits for its turn in the FIFO; between any
  two of these, other calls, commits and pauses run. One step of \<open>sys_step\<close> is one critical
  section, or one turn.
\<close>

section \<open>Calls in progress\<close>

text \<open>
  Where a call stands: outside; working on its transaction; a commit waiting for its turn; a
  commit that has written; about to end its transaction (and then to count a design error, or
  not); after the end; about to release the transaction it leaves open.
\<close>

datatype call =
    Out | Using string | Committing string | Wrote string bool | Ending string bool | Ended string bool | Leaving string

fun call_tx :: "call \<Rightarrow> string option" where
  "call_tx Out = None"
| "call_tx (Using i) = Some i"
| "call_tx (Committing i) = Some i"
| "call_tx (Wrote i ok) = Some i"
| "call_tx (Ending i d) = Some i"
| "call_tx (Ended i d) = None"
| "call_tx (Leaving i) = Some i"

text \<open>A call that is past the end of its transaction still has its id.\<close>

fun call_id :: "call \<Rightarrow> string option" where
  "call_id (Ended i d) = Some i"
| "call_id c = call_tx c"

record sys =
  s_reg :: Registry
  s_calls :: "nat \<Rightarrow> call"

abbreviation sys_store :: "sys \<Rightarrow> Store" where
  "sys_store s \<equiv> w_store (r_writer (s_reg s))"

text \<open>The work of a call on its transaction that goes well.\<close>

definition works :: "Registry \<Rightarrow> transaction \<Rightarrow> transaction \<Rightarrow> bool" where
  "works r t t' \<longleftrightarrow>
     (\<exists>faults f read. tx_ReadEvents (r_cfg r) (ReadDecision faults (w_store (r_writer r))) f t = Inr (read, t')) \<or>
     (\<exists>now events time. tx_WriteEvents (r_cfg r) now events t = Inr (time, t')) \<or>
     (\<exists>get key x. tx_GetProjection get key t = Inr (x, t')) \<or>
     (\<exists>now w time. tx_WriteProjections (r_cfg r) now w t = Inr (time, t'))"

section \<open>Steps\<close>

inductive sys_step :: "sys \<Rightarrow> sys \<Rightarrow> bool" where
  opens: "find_tx (s_reg s) i = None \<Longrightarrow> \<forall>c. call_id (s_calls s c) \<noteq> Some i \<Longrightarrow>
    sys_step s (s\<lparr>s_reg := snd (Begin i (s_reg s))\<rparr>)"
| acquired: "s_calls s c = Out \<Longrightarrow> acquire i (s_reg s) = (Inr t, r) \<Longrightarrow>
    sys_step s (s\<lparr>s_reg := r, s_calls := (s_calls s)(c := Using i)\<rparr>)"
| turned_away: "acquire i (s_reg s) = (Inl e, r) \<Longrightarrow> sys_step s (s\<lparr>s_reg := r\<rparr>)"
| work: "s_calls s c = Using i \<Longrightarrow> find_tx (s_reg s) i = Some t \<Longrightarrow> works (s_reg s) t t' \<Longrightarrow>
    sys_step s (s\<lparr>s_reg := put_tx i (t'\<lparr>tx_busy := tx_busy t, tx_lastUsed := tx_lastUsed t\<rparr>) (s_reg s),
      s_calls := (s_calls s)(c := Leaving i)\<rparr>)"
| fail: "s_calls s c = Using i \<Longrightarrow> sys_step s (s\<lparr>s_calls := (s_calls s)(c := Ending i d)\<rparr>)"
| commit: "s_calls s c = Using i \<Longrightarrow> find_tx (s_reg s) i = Some t \<Longrightarrow> tx_open t = None \<Longrightarrow>
    sys_step s (s\<lparr>s_calls := (s_calls s)(c := (if has_writes t then Committing i else Wrote i True))\<rparr>)"
| writes: "s_calls s c = Committing i \<Longrightarrow> find_tx (s_reg s) i = Some t \<Longrightarrow>
    WritePending tn (tx_events t) (tx_conditions t) (fst (netProjections t)) (r_writer (s_reg s)) = (res, w) \<Longrightarrow>
    sys_step s (s\<lparr>s_reg := (s_reg s)\<lparr>r_writer := w\<rparr>,
      s_calls := (s_calls s)(c := Wrote i (case res of Inl _ \<Rightarrow> False | Inr _ \<Rightarrow> True))\<rparr>)"
| wrote: "s_calls s c = Wrote i ok \<Longrightarrow>
    sys_step s (s\<lparr>s_reg := (if ok then countCommit (s_reg s) else s_reg s), s_calls := (s_calls s)(c := Ending i False)\<rparr>)"
| ends: "s_calls s c = Ending i d \<Longrightarrow>
    sys_step s (s\<lparr>s_reg := end_tx i (s_reg s), s_calls := (s_calls s)(c := Ended i d)\<rparr>)"
| count: "s_calls s c = Ended i True \<Longrightarrow>
    sys_step s (s\<lparr>s_reg := count_design (s_reg s), s_calls := (s_calls s)(c := Ended i False)\<rparr>)"
| release: "s_calls s c = Ended i False \<or> s_calls s c = Leaving i \<Longrightarrow>
    sys_step s (s\<lparr>s_reg := release i (s_reg s), s_calls := (s_calls s)(c := Out)\<rparr>)"
| observe: "sys_step s (s\<lparr>s_reg := lock (s_reg s)\<rparr>)"
| pause: "sys_step s (s\<lparr>s_reg := snd (Pause tn (s_reg s))\<rparr>)"
| resume: "sys_step s (s\<lparr>s_reg := snd (registry_in_turn tn (resume_turn (tn_faults tn)) (s_reg s))\<rparr>)"
| projections: "writes_wf w \<Longrightarrow>
    sys_step s (s\<lparr>s_reg := (s_reg s)\<lparr>r_writer := snd (WriteProjections tn w (r_writer (s_reg s)))\<rparr>\<rparr>)"
| delete_events:
    "sys_step s (s\<lparr>s_reg := (s_reg s)\<lparr>r_writer := snd (delete_in_turn tn DeleteAllEvents (r_writer (s_reg s)))\<rparr>\<rparr>)"
| delete_projections:
    "sys_step s (s\<lparr>s_reg := (s_reg s)\<lparr>r_writer := snd (delete_in_turn tn DeleteAllProjections (r_writer (s_reg s)))\<rparr>\<rparr>)"
| delete_projections_of:
    "sys_step s (s\<lparr>s_reg := (s_reg s)\<lparr>r_writer :=
       snd (delete_in_turn tn (\<lambda>f st. DeleteProjectionsByType f st typ) (r_writer (s_reg s)))\<rparr>\<rparr>)"
| optimize: "sys_step s (s\<lparr>s_reg := (s_reg s)\<lparr>r_writer := snd (Writer_Optimize tn now (r_writer (s_reg s)))\<rparr>\<rparr>)"
| close: "sys_step s (s\<lparr>s_reg := (s_reg s)\<lparr>r_writer := Writer_Close (r_writer (s_reg s))\<rparr>\<rparr>)"

inductive_cases sys_stepE: "sys_step s s'"

definition sys_init :: "sys \<Rightarrow> bool" where
  "sys_init s \<longleftrightarrow>
     (\<exists>wr cfg clock. config_wf cfg \<and> (\<forall>n. clock n \<noteq> 0) \<and>
        s = \<lparr>s_reg = Registry_New wr cfg clock, s_calls = (\<lambda>_. Out)\<rparr>)"

section \<open>The invariant\<close>

text \<open>
  A transaction is busy exactly while one call uses it; a transaction that a call ended is gone.
\<close>

definition busy_in :: "Registry \<Rightarrow> string \<Rightarrow> bool" where
  "busy_in r i \<longleftrightarrow> (\<exists>t. find_tx r i = Some t \<and> tx_busy t)"

definition users_ok :: "sys \<Rightarrow> bool" where
  "users_ok s \<longleftrightarrow>
     (\<forall>i. busy_in (s_reg s) i \<longleftrightarrow> (\<exists>c. call_tx (s_calls s c) = Some i)) \<and>
     (\<forall>c i d. s_calls s c = Ended i d \<longrightarrow> find_tx (s_reg s) i = None) \<and>
     (\<forall>c c' i. call_tx (s_calls s c) = Some i \<longrightarrow> call_tx (s_calls s c') = Some i \<longrightarrow> c = c')"

definition sys_inv :: "sys \<Rightarrow> bool" where
  "sys_inv s \<longleftrightarrow> reg_inv (s_reg s) \<and> users_ok s"

text \<open>One call moves on, and what the registry holds moves with it.\<close>

lemma users_update:
  assumes ok: "users_ok s" and old: "s_calls s c = old"
    and busy: "\<And>j. busy_in r' j \<longleftrightarrow> busy_in (s_reg s) j \<and> call_tx old \<noteq> Some j \<or> call_tx new = Some j"
    and none: "\<And>j. find_tx (s_reg s) j = None \<Longrightarrow> find_tx r' j = None"
    and ended: "\<And>i d. new = Ended i d \<Longrightarrow> find_tx r' i = None"
    and fresh: "\<And>j. call_tx new = Some j \<Longrightarrow> call_tx old = Some j \<or> \<not> busy_in (s_reg s) j"
  shows "users_ok (s\<lparr>s_reg := r', s_calls := (s_calls s)(c := new)\<rparr>)"
proof -
  have busyD: "busy_in (s_reg s) i \<longleftrightarrow> (\<exists>c. call_tx (s_calls s c) = Some i)" for i
    using ok by (simp add: users_ok_def)
  have uniq: "c1 = c2" if "call_tx (s_calls s c1) = Some i" "call_tx (s_calls s c2) = Some i" for c1 c2 i
    using ok that unfolding users_ok_def by blast
  have other: "call_tx (s_calls s c') \<noteq> Some j" if "call_tx new = Some j" "c' \<noteq> c" for c' j
    using fresh [OF that(1)] busyD [of j] uniq [of c' j c] old that(2) by auto
  have users: "busy_in r' j \<longleftrightarrow> (\<exists>c'. call_tx (((s_calls s)(c := new)) c') = Some j)" for j
  proof
    assume "busy_in r' j"
    then show "\<exists>c'. call_tx (((s_calls s)(c := new)) c') = Some j"
      using busy [of j] busyD [of j] old by (cases "call_tx new = Some j") fastforce+
  next
    assume "\<exists>c'. call_tx (((s_calls s)(c := new)) c') = Some j"
    then obtain c' where c': "call_tx (((s_calls s)(c := new)) c') = Some j" by blast
    show "busy_in r' j"
    proof (cases "c' = c")
      case True
      then show ?thesis using c' busy [of j] by simp
    next
      case False
      then have "call_tx (s_calls s c') = Some j" using c' by simp
      moreover from this have "call_tx old \<noteq> Some j" using uniq [of c' j c] False old by auto
      ultimately show ?thesis using busy [of j] busyD [of j] by blast
    qed
  qed
  have gone: "\<forall>c' i d. ((s_calls s)(c := new)) c' = Ended i d \<longrightarrow> find_tx r' i = None"
    using ok none ended by (auto simp: users_ok_def)
  have one: "c1 = c2" if "call_tx (((s_calls s)(c := new)) c1) = Some i" "call_tx (((s_calls s)(c := new)) c2) = Some i"
    for c1 c2 i
  proof -
    consider "c1 = c" "c2 = c" | "c1 = c" "c2 \<noteq> c" | "c1 \<noteq> c" "c2 = c" | "c1 \<noteq> c" "c2 \<noteq> c" by blast
    then show ?thesis
    proof cases
      case 2
      with that have "call_tx new = Some i" "call_tx (s_calls s c2) = Some i" by simp_all
      with other [OF this(1) 2(2)] show ?thesis by simp
    next
      case 3
      with that have "call_tx new = Some i" "call_tx (s_calls s c1) = Some i" by simp_all
      with other [OF this(1) 3(1)] show ?thesis by simp
    next
      case 4
      with that have "call_tx (s_calls s c1) = Some i" "call_tx (s_calls s c2) = Some i" by simp_all
      then show ?thesis by (rule uniq)
    qed simp
  qed
  have parts: "s_reg (s\<lparr>s_reg := r', s_calls := (s_calls s)(c := new)\<rparr>) = r'"
    "s_calls (s\<lparr>s_reg := r', s_calls := (s_calls s)(c := new)\<rparr>) = (s_calls s)(c := new)"
    by simp_all
  show ?thesis unfolding users_ok_def parts using users gone one by blast
qed

text \<open>Nothing that a call can see of its transaction changed.\<close>

definition quiet :: "Registry \<Rightarrow> Registry \<Rightarrow> bool" where
  "quiet r r' \<longleftrightarrow> (\<forall>i. busy_in r' i = busy_in r i) \<and> (\<forall>i. find_tx r i = None \<longrightarrow> find_tx r' i = None)"

lemma ended_gone: "users_ok s \<Longrightarrow> s_calls s c = Ended i d \<Longrightarrow> find_tx (s_reg s) i = None"
  unfolding users_ok_def by blast

lemma users_quiet: "users_ok s \<Longrightarrow> quiet (s_reg s) r' \<Longrightarrow> users_ok (s\<lparr>s_reg := r'\<rparr>)"
  by (simp add: users_ok_def quiet_def)

lemma users_move:
  assumes "users_ok s" "quiet (s_reg s) r'" "call_tx new = call_tx (s_calls s c)" "\<And>i d. new = Ended i d \<Longrightarrow> find_tx r' i = None"
  shows "users_ok (s\<lparr>s_reg := r', s_calls := (s_calls s)(c := new)\<rparr>)"
proof (rule users_update [OF assms(1) refl])
  show "busy_in r' j \<longleftrightarrow> busy_in (s_reg s) j \<and> call_tx (s_calls s c) \<noteq> Some j \<or> call_tx new = Some j" for j
  proof -
    have "call_tx (s_calls s c) = Some j \<Longrightarrow> busy_in (s_reg s) j" using assms(1) by (auto simp: users_ok_def)
    then show ?thesis using assms(2,3) by (auto simp: quiet_def)
  qed
  show "find_tx r' j = None" if "find_tx (s_reg s) j = None" for j
    using that assms(2) by (simp add: quiet_def)
qed (use assms(3,4) in simp_all)

lemma busy_lock: "ids_ok r \<Longrightarrow> busy_in (lock r) i \<longleftrightarrow> busy_in r i"
  by (auto simp: busy_in_def find_lock idle_def split: option.splits)

lemma quiet_refl: "quiet r r"
  by (simp add: quiet_def)

lemma quiet_txs: "r_txs r' = r_txs r \<Longrightarrow> quiet r r'"
  by (simp add: quiet_def busy_in_def find_tx_def)

lemma quiet_lock_txs: "ids_ok r \<Longrightarrow> r_txs r' = r_txs (lock r) \<Longrightarrow> quiet r r'"
  using busy_lock [of r] lock_None' [of r] by (simp add: quiet_def busy_in_def find_tx_def)

lemma quiet_put: "find_tx r i = Some t \<Longrightarrow> tx_busy t' = tx_busy t \<Longrightarrow> quiet r (put_tx i t' r)"
  by (auto simp: quiet_def busy_in_def find_put)

lemma busy_end: "ids_ok r \<Longrightarrow> busy_in (end_tx i r) j \<longleftrightarrow> busy_in r j \<and> j \<noteq> i"
  using busy_lock [of r j] by (auto simp: busy_in_def find_end)

lemma busy_release: "ids_ok r \<Longrightarrow> busy_in (release i r) j \<longleftrightarrow> busy_in r j \<and> j \<noteq> i"
proof -
  assume ok: "ids_ok r"
  obtain now where now: "find_tx (release i r) =
      (\<lambda>j. if j = i then map_option (\<lambda>t. free_tx t now) (find_tx (lock r) i) else find_tx (lock r) j)"
    using find_release by blast
  show ?thesis
    using busy_lock [OF ok, of j] by (cases "j = i") (auto simp: busy_in_def now free_tx_def)
qed

lemma end_None: "find_tx r j = None \<Longrightarrow> find_tx (end_tx i r) j = None"
  by (simp add: find_end lock_None')

lemma pause_turn_txs: "r_txs (snd (pause_turn faults r)) = r_txs (lock r)"
  by (simp add: pause_turn_def Let_def tick_def split: sum.split prod.split)

lemma resume_turn_txs: "r_txs (snd (resume_turn faults r)) = r_txs (lock r)"
  by (auto simp: resume_turn_def Let_def tick_def split: option.split prod.split)

lemma in_turn_txs:
  assumes "r_txs (snd (fn r)) = r_txs (lock r)"
  shows "r_txs (snd (registry_in_turn tn fn r)) \<in> {r_txs r, r_txs (lock r)}"
  using assms by (auto simp: RunInTurn_def split: option.split prod.split)

text \<open>The registry's own invariant, step by step.\<close>

lemma works_inv:
  assumes "works r t t'" "tx_inv (r_cfg r) t"
  shows "tx_inv (r_cfg r) t'"
  using assms unfolding works_def
  by (elim disjE exE)
    (rule tx_ReadEvents_inv tx_WriteEvents_inv tx_GetProjection_inv tx_WriteProjections_inv; assumption)+

text \<open>What the writer does outside a pause keeps the time of the pause.\<close>

definition same_pause :: "Writer \<Rightarrow> Writer \<Rightarrow> bool" where
  "same_pause w w' \<longleftrightarrow> st_pausedAt (w_store w') = st_pausedAt (w_store w)"

lemma same_pause_in_turn:
  assumes "\<And>w. same_pause w (snd (fn w))"
  shows "same_pause w (snd (in_turn tn fn w))"
  using assms [of w] by (auto simp: RunInTurn_def same_pause_def split: option.split prod.split)

lemma run_statement_pausedAt: "st_pausedAt (snd (run_statement faults stmt s)) = st_pausedAt s"
  by (auto simp: run_statement_def split: sum.split prod.split)

lemma DeleteAllEvents_pausedAt: "st_pausedAt (snd (DeleteAllEvents faults s)) = st_pausedAt s"
  by (auto simp: DeleteAllEvents_def split: sum.split prod.split)

lemma same_pause_deletes:
  "same_pause w (snd (delete_in_turn tn DeleteAllEvents w))"
  "same_pause w (snd (delete_in_turn tn DeleteAllProjections w))"
  "same_pause w (snd (delete_in_turn tn (\<lambda>f st. DeleteProjectionsByType f st typ) w))"
proof -
  show "same_pause w (snd (delete_in_turn tn DeleteAllEvents w))"
    unfolding delete_in_turn_def
    by (rule same_pause_in_turn)
      (use DeleteAllEvents_pausedAt in \<open>auto simp: same_pause_def split: prod.split option.split; metis snd_conv\<close>)
  show "same_pause w (snd (delete_in_turn tn DeleteAllProjections w))"
    unfolding delete_in_turn_def DeleteAllProjections_def
    by (rule same_pause_in_turn)
      (use run_statement_pausedAt in \<open>auto simp: same_pause_def split: prod.split option.split; metis snd_conv\<close>)
  show "same_pause w (snd (delete_in_turn tn (\<lambda>f st. DeleteProjectionsByType f st typ) w))"
    unfolding delete_in_turn_def DeleteProjectionsByType_def
    by (rule same_pause_in_turn)
      (use run_statement_pausedAt in \<open>auto simp: same_pause_def split: prod.split option.split; metis snd_conv\<close>)
qed

lemma same_pause_optimize: "same_pause w (snd (Writer_Optimize tn now w))"
  unfolding Writer_Optimize_def Store_Optimize_def
  by (rule same_pause_in_turn)
    (use run_statement_pausedAt in \<open>auto simp: same_pause_def split: prod.split option.split; metis snd_conv\<close>)

lemma same_pause_writes: "same_pause w (snd (WriteProjections tn p w))"
  using WritePending_pausedAt [of tn "[]" "[]" p w] unfolding WriteProjections_def WritePending_def same_pause_def
  by (metis prod.collapse)

lemma reg_inv_same_pause: "reg_inv r \<Longrightarrow> same_pause (r_writer r) w \<Longrightarrow> reg_inv (r\<lparr>r_writer := w\<rparr>)"
  by (simp add: reg_inv_writer same_pause_def)

lemma resume_in_turn_inv:
  assumes "reg_inv r"
  shows "reg_inv (snd (registry_in_turn tn (resume_turn (tn_faults tn)) r))"
proof -
  obtain res r' x y where run: "registry_in_turn tn (resume_turn (tn_faults tn)) r = (res, r')"
    "resume_turn (tn_faults tn) r = (x, y)" by fastforce
  from registry_in_turn_inv [OF run(1) assms] resume_turn_cases [OF assms run(2)] show ?thesis by (simp add: run)
qed

lemma sys_step_reg_inv:
  assumes inv: "reg_inv (s_reg s)" and step: "sys_step s s'"
  shows "reg_inv (s_reg s')"
  using step
proof cases
  case (opens i)
  then show ?thesis using Begin_inv [OF inv] by simp
next
  case (acquired c i t r)
  then show ?thesis using reg_inv_acquire(1) [OF inv] by simp
next
  case (turned_away i e r)
  then show ?thesis using reg_inv_acquire(1) [OF inv] by simp
next
  case (work c i t t')
  have "tx_inv (r_cfg (s_reg s)) t'"
    by (rule works_inv [OF work(4)]) (rule reg_invD(3) [OF inv work(3)])
  then show ?thesis using inv work(1) by (auto intro!: reg_inv_put)
next
  case (writes c i t tn res w)
  then show ?thesis using reg_inv_writer [OF inv WritePending_pausedAt] by simp
next
  case (pause tn)
  then show ?thesis using Pause_inv [OF inv] by simp
next
  case (resume tn)
  then show ?thesis using resume_in_turn_inv [OF inv] by simp
next
  case (projections w tn)
  then show ?thesis using reg_inv_same_pause [OF inv same_pause_writes] by simp
next
  case (delete_events tn)
  then show ?thesis using reg_inv_same_pause [OF inv same_pause_deletes(1)] by simp
next
  case (delete_projections tn)
  then show ?thesis using reg_inv_same_pause [OF inv same_pause_deletes(2)] by simp
next
  case (delete_projections_of tn ty)
  then show ?thesis using reg_inv_same_pause [OF inv same_pause_deletes(3)] by simp
next
  case (optimize tn now)
  then show ?thesis using reg_inv_same_pause [OF inv same_pause_optimize] by simp
next
  case close
  then show ?thesis using reg_inv_same_pause [OF inv, of "Writer_Close (r_writer (s_reg s))"]
    by (simp add: same_pause_def Writer_Close_def)
qed (use inv in simp_all)

lemma sys_init_inv: "sys_init s \<Longrightarrow> sys_inv s"
  by (auto simp: sys_init_def sys_inv_def reg_inv_def Registry_New_def PausedAt_def IsZero_def ids_ok_def users_ok_def
      busy_in_def find_tx_def Let_def)

lemma acquire_Inr_got:
  assumes "acquire i r = (Inr t, r')" "ids_ok r"
  obtains t0 where "find_tx (lock r) i = Some t0" "\<not> tx_busy t0" "r' = put_tx i (t0\<lparr>tx_busy := True\<rparr>) (lock r)"
  using assms
proof (cases rule: acquire_cases)
  case (got t0)
  then show ?thesis by (intro that)
qed simp_all

lemma acquire_Inr:
  assumes "acquire i r = (Inr t, r')" "ids_ok r"
  shows "\<not> busy_in r i" "busy_in r' j \<longleftrightarrow> busy_in r j \<or> j = i" "find_tx r j = None \<Longrightarrow> find_tx r' j = None"
proof -
  from assms obtain t0 where got: "find_tx (lock r) i = Some t0" "\<not> tx_busy t0" "r' = put_tx i (t0\<lparr>tx_busy := True\<rparr>) (lock r)"
    by (rule acquire_Inr_got)
  have "\<not> busy_in (lock r) i" using got(1,2) by (simp add: busy_in_def)
  then show "\<not> busy_in r i" using busy_lock [OF assms(2)] by simp
  have "busy_in r' j \<longleftrightarrow> busy_in (lock r) j \<or> j = i"
    using got(1) by (cases "j = i") (simp_all add: got(3) busy_in_def find_put)
  then show "busy_in r' j \<longleftrightarrow> busy_in r j \<or> j = i" using busy_lock [OF assms(2), of j] by simp
  show "find_tx r' j = None" if "find_tx r j = None"
    using lock_None' [OF that] got(1) by (cases "j = i") (simp_all add: got(3) find_put)
qed

lemma acquire_Inl_txs: "acquire i r = (Inl e, r') \<Longrightarrow> r_txs r' = r_txs (lock r)"
  by (auto simp: acquire_def Let_def split: option.splits if_splits)

lemma new_transaction_free: "\<not> tx_busy (new_transaction\<lparr>tx_lastUsed := now\<rparr>)"
  by (simp add: new_transaction_def)

lemma Begin_txs:
  "r_txs (snd (Begin i r)) = r_txs (lock r) \<or>
   (\<exists>now. r_txs (snd (Begin i r)) = AList.update i (new_transaction\<lparr>tx_lastUsed := now\<rparr>) (r_txs (lock r)))"
  by (auto simp: Begin_def Let_def tick_def)

lemma users_begin:
  assumes ok: "users_ok s" and ids: "ids_ok (s_reg s)" and new: "find_tx (s_reg s) i = None" "\<forall>c. call_id (s_calls s c) \<noteq> Some i"
  shows "users_ok (s\<lparr>s_reg := snd (Begin i (s_reg s))\<rparr>)"
proof (cases "r_txs (snd (Begin i (s_reg s))) = r_txs (lock (s_reg s))")
  case True
  then show ?thesis by (intro users_quiet [OF ok quiet_lock_txs [OF ids]])
next
  case False
  then obtain now where "r_txs (snd (Begin i (s_reg s))) = AList.update i (new_transaction\<lparr>tx_lastUsed := now\<rparr>) (r_txs (lock (s_reg s)))"
    using Begin_txs by blast
  then obtain t where t: "\<not> tx_busy t" "r_txs (snd (Begin i (s_reg s))) = AList.update i t (r_txs (lock (s_reg s)))"
    by (metis (no_types) new_transaction_free)
  have find: "find_tx (snd (Begin i (s_reg s))) j = (if j = i then Some t else find_tx (lock (s_reg s)) j)" for j
    by (simp add: find_tx_def t(2) update_conv')
  have "busy_in (snd (Begin i (s_reg s))) j \<longleftrightarrow> busy_in (s_reg s) j" for j
    using t(1) new(1) busy_lock [OF ids, of j] by (auto simp: busy_in_def find)
  moreover have "find_tx (snd (Begin i (s_reg s))) j = None" if "s_calls s c = Ended j d" for c j d
  proof -
    have "j \<noteq> i" using new(2) that by (metis call_id.simps(1))
    moreover have "find_tx (s_reg s) j = None" by (rule ended_gone [OF ok that])
    ultimately show ?thesis by (simp add: find lock_None')
  qed
  ultimately show ?thesis using ok by (simp add: users_ok_def)
qed

lemma users_step:
  assumes inv: "sys_inv s" and step: "sys_step s s'"
  shows "users_ok s'"
proof -
  have ok: "users_ok s" and ids: "ids_ok (s_reg s)" using inv reg_invD(1) by (simp_all add: sys_inv_def)
  note locked = users_quiet [OF ok quiet_lock_txs [OF ids]]
  note same = users_quiet [OF ok quiet_txs]
  note moved = users_move [OF ok]
  from step show ?thesis
  proof cases
    case (opens i)
    then show ?thesis using users_begin [OF ok ids] by simp
  next
    case (acquired c i t r)
    then show ?thesis
      using acquire_Inr [OF acquired(3) ids] by (auto intro!: users_update [OF ok])
  next
    case (turned_away i e r)
    then show ?thesis using locked [OF acquire_Inl_txs] by simp
  next
    case (work c i t t')
    then show ?thesis by (auto intro!: moved quiet_put)
  next
    case (fail c i d)
    then show ?thesis using moved [OF quiet_refl, of "Ending i d" c] by simp
  next
    case (commit c i t)
    then show ?thesis using moved [OF quiet_refl, of "if has_writes t then Committing i else Wrote i True" c]
      by (simp split: if_splits)
  next
    case (writes c i t tn res w)
    then show ?thesis by (auto intro!: moved quiet_txs)
  next
    case (wrote c i good)
    then have quiet: "quiet (s_reg s) (if good then countCommit (s_reg s) else s_reg s)"
      by (simp add: quiet_lock_txs [OF ids] quiet_refl)
    show ?thesis using moved [OF quiet, of "Ending i False" c] wrote by simp
  next
    case (ends c i d)
    then show ?thesis
      using busy_end [OF ids, of i] end_None by (auto intro!: users_update [OF ok] simp: find_end)
  next
    case (count c i)
    then have "find_tx (s_reg s) i = None" by (intro ended_gone [OF ok])
    then show ?thesis using count by (auto intro!: moved quiet_lock_txs [OF ids] simp: lock_None')
  next
    case (release c i)
    have gone: "s_calls s c = Ended i False \<Longrightarrow> \<not> busy_in (s_reg s) i"
      using ended_gone [OF ok] by (auto simp: busy_in_def)
    show ?thesis
      using release gone busy_release [OF ids, of i] release_None' by (auto intro!: users_update [OF ok])
  next
    case observe
    then show ?thesis using locked by simp
  next
    case (pause tn)
    have "r_txs (snd (Pause tn (s_reg s))) \<in> {r_txs (s_reg s), r_txs (lock (s_reg s))}"
      unfolding Pause_def by (rule in_turn_txs [OF pause_turn_txs])
    then show ?thesis using pause same locked by auto
  next
    case (resume tn)
    have "r_txs (snd (registry_in_turn tn (resume_turn (tn_faults tn)) (s_reg s))) \<in> {r_txs (s_reg s), r_txs (lock (s_reg s))}"
      by (rule in_turn_txs [OF resume_turn_txs])
    then show ?thesis using resume same locked by auto
  qed (use same in simp_all)
qed

lemma sys_step_inv: "sys_inv s \<Longrightarrow> sys_step s s' \<Longrightarrow> sys_inv s'"
  using users_step sys_step_reg_inv by (auto simp: sys_inv_def)

interpretation sys: machine sys_init sys_step sys_inv
  by unfold_locales (auto intro: sys_init_inv sys_step_inv)

section \<open>What a pause guarantees\<close>

text \<open>Nothing was appended: the log is as it was, or was deleted, and the counter did not move.\<close>

definition no_append :: "spec \<Rightarrow> Store \<Rightarrow> bool" where
  "no_append a st \<longleftrightarrow> (\<exists>a'. store_rep st a' \<and> sp_next a' = sp_next a \<and> (sp_log a' = sp_log a \<or> sp_log a' = []))"

text \<open>The log and its counter are as they were.\<close>

definition keeps_log :: "spec \<Rightarrow> Store \<Rightarrow> bool" where
  "keeps_log a st \<longleftrightarrow> (\<exists>a'. store_rep st a' \<and> sp_next a' = sp_next a \<and> sp_log a' = sp_log a)"

lemma keeps_logI: "store_rep st a' \<Longrightarrow> sp_next a' = sp_next a \<Longrightarrow> sp_log a' = sp_log a \<Longrightarrow> keeps_log a st"
  by (auto simp: keeps_log_def)

lemma keeps_log_same: "store_rep st a \<Longrightarrow> keeps_log a st"
  by (auto simp: keeps_log_def)

lemma keeps_log_no_append: "keeps_log a st \<Longrightarrow> no_append a st"
  by (auto simp: keeps_log_def no_append_def)

lemma no_append_same: "store_rep st a \<Longrightarrow> no_append a st"
  by (auto simp: no_append_def)

text \<open>A turn leaves the store as its work left it.\<close>

lemma in_turn_store:
  assumes "P (w_store w)" "P (w_store (snd (fn w)))"
  shows "P (w_store (snd (in_turn tn fn w)))"
  using assms by (auto simp: RunInTurn_def split: option.split prod.split)

lemma registry_in_turn_store:
  assumes "P (w_store (r_writer r))" "P (w_store (r_writer (snd (fn r))))"
  shows "P (w_store (r_writer (snd (registry_in_turn tn fn r))))"
  using assms by (auto simp: RunInTurn_def split: option.split prod.split)

lemma delete_in_turn_store:
  assumes "P (w_store w)" "\<And>f r st. op f (w_store w) = (r, st) \<Longrightarrow> P st"
  shows "P (w_store (snd (delete_in_turn tn op w)))"
  unfolding delete_in_turn_def
proof (rule in_turn_store [where P = P])
  obtain r st where run: "op (tn_faults tn) (w_store w) = (r, st)" by fastforce
  from assms(2) [OF run] show "P (w_store (snd (case op (tn_faults tn) (w_store w) of
      (Some e, st) \<Rightarrow> (Inl (StoreErr e), w\<lparr>w_store := st\<rparr>) | (None, st) \<Rightarrow> (Inr (), w\<lparr>w_store := st\<rparr>))))"
    by (simp add: run split: option.split)
qed (rule assms(1))

lemma delete_events_no_append:
  assumes rep: "store_rep (w_store w) a"
  shows "no_append a (w_store (snd (delete_in_turn tn DeleteAllEvents w)))"
proof (rule delete_in_turn_store [where P = "no_append a"])
  show "no_append a st" if "DeleteAllEvents f (w_store w) = (r, st)" for f r st
    using DeleteAllEvents_spec [OF rep that]
  proof (elim disjE exE conjE)
    assume "store_rep st (a\<lparr>sp_log := []\<rparr>)"
    then show ?thesis unfolding no_append_def by (intro exI [of _ "a\<lparr>sp_log := []\<rparr>"]) simp
  qed (use rep in \<open>simp add: no_append_same\<close>)
qed (rule no_append_same [OF rep])

lemma delete_projections_keeps_log:
  assumes rep: "store_rep (w_store w) a"
  shows "keeps_log a (w_store (snd (delete_in_turn tn DeleteAllProjections w)))"
    and "keeps_log a (w_store (snd (delete_in_turn tn (\<lambda>f st. DeleteProjectionsByType f st ty) w)))"
proof -
  show "keeps_log a (w_store (snd (delete_in_turn tn DeleteAllProjections w)))"
  proof (rule delete_in_turn_store [where P = "keeps_log a"])
    show "keeps_log a st" if "DeleteAllProjections f (w_store w) = (r, st)" for f r st
      using DeleteAllProjections_spec [OF rep that]
      by (elim disjE exE conjE) (use rep in \<open>simp add: keeps_log_same\<close>, erule keeps_logI, simp_all)
  qed (rule keeps_log_same [OF rep])
  show "keeps_log a (w_store (snd (delete_in_turn tn (\<lambda>f st. DeleteProjectionsByType f st ty) w)))"
  proof (rule delete_in_turn_store [where P = "keeps_log a"])
    show "keeps_log a st" if "DeleteProjectionsByType f (w_store w) ty = (r, st)" for f r st
      using DeleteProjectionsByType_spec [OF rep that]
      by (elim disjE exE conjE) (use rep in \<open>simp add: keeps_log_same\<close>, erule keeps_logI, simp_all)
  qed (rule keeps_log_same [OF rep])
qed

lemma projections_keeps_log:
  assumes rep: "store_rep (w_store w) a" and wf: "writes_wf p"
  shows "keeps_log a (w_store (snd (WriteProjections tn p w)))"
proof -
  obtain r W where run: "write_append tn [] [] p w = (r, W)" by fastforce
  have "append_wf a [] [] p" using wf rep by (simp add: append_wf_def store_rep_def)
  from write_append_cases [OF run] Append_refines_spec [OF rep this] show ?thesis
    using rep by (fastforce simp: WriteProjections_def run keeps_log_def spec_append_def placed_def split: sum.splits)
qed

lemma optimize_keeps_log:
  assumes rep: "store_rep (w_store w) a"
  shows "keeps_log a (w_store (snd (Writer_Optimize tn now w)))"
  unfolding Writer_Optimize_def
proof (rule in_turn_store [where P = "keeps_log a"])
  show "keeps_log a (w_store w)" using rep by (rule keeps_log_same)
  obtain r st where run: "Store_Optimize (tn_faults tn) (w_store w) = (r, st)" by fastforce
  have "st = w_store w"
    using run_statement_cases [OF run [unfolded Store_Optimize_def], of "st_db (w_store w)"]
    by (auto simp: no_rows_def)
  then show "keeps_log a (w_store (snd (case Store_Optimize (tn_faults tn) (w_store w) of
      (Some e, st) \<Rightarrow> (Inl (StoreErr e), w\<lparr>w_store := st\<rparr>)
    | (None, st) \<Rightarrow> (Inr (), w\<lparr>w_store := st, w_stats := (w_stats w)\<lparr>ws_LastOptimize := now\<rparr>\<rparr>))))"
    using rep by (simp add: run keeps_log_same split: option.split)
qed

lemma pause_keeps_log:
  assumes rep: "store_rep (w_store (r_writer r)) a" and clock: "\<forall>n. r_clock r n \<noteq> 0"
  shows "keeps_log a (w_store (r_writer (snd (Pause tn r))))"
  unfolding Pause_def
proof (rule registry_in_turn_store [where P = "keeps_log a"])
  show "keeps_log a (w_store (r_writer r))" using rep by (rule keeps_log_same)
  let ?now = "r_clock r (r_ticks (lock r))"
  obtain ans st where set: "SetPause (tn_faults tn) (w_store (r_writer r)) ?now = (ans, st)" by fastforce
  have "keeps_log a st" using SetPause_spec [OF rep set] clock rep by (auto simp: keeps_log_same)
  then show "keeps_log a (w_store (r_writer (snd (pause_turn (tn_faults tn) r))))"
    using rep set by (auto simp: pause_turn_def Let_def case_prod_unfold keeps_log_same split: sum.split)
qed

lemma resume_keeps_log:
  assumes rep: "store_rep (w_store (r_writer r)) a"
  shows "keeps_log a (w_store (r_writer (snd (registry_in_turn tn (resume_turn (tn_faults tn)) r))))"
proof (rule registry_in_turn_store [where P = "keeps_log a"])
  show "keeps_log a (w_store (r_writer r))" using rep by (rule keeps_log_same)
  obtain err st where clear: "ClearPause (tn_faults tn) (w_store (r_writer r)) = (err, st)" by fastforce
  have "store_rep st a" using ClearPause_spec [OF rep clear] rep by auto
  then show "keeps_log a (w_store (r_writer (snd (resume_turn (tn_faults tn) r))))"
    using rep by (auto simp: resume_turn_def Let_def tick_def clear keeps_log_same split: option.split)
qed

lemmas writer_keeps_log = delete_projections_keeps_log projections_keeps_log optimize_keeps_log pause_keeps_log resume_keeps_log

lemma paused_nothing_open:
  assumes "sys_inv s" "r_pause (s_reg s) = Paused"
  shows "find_tx (s_reg s) i = None" "call_tx (s_calls s c) = None"
proof -
  have txs: "r_txs (s_reg s) = []" using assms reg_invD(4) by (auto simp: sys_inv_def)
  then show "find_tx (s_reg s) i = None" by (simp add: find_tx_def)
  show "call_tx (s_calls s c) = None"
  proof (cases "call_tx (s_calls s c)")
    case (Some j)
    then have "busy_in (s_reg s) j" using assms(1) unfolding sys_inv_def users_ok_def by blast
    then show ?thesis using txs by (simp add: busy_in_def find_tx_def)
  qed
qed

lemma Begin_writer: "r_writer (snd (Begin i r)) = r_writer r"
  by (simp add: Begin_def Let_def tick_def)

lemma acquire_writer: "acquire i r = (res, r') \<Longrightarrow> r_writer r' = r_writer r"
  by (auto simp: acquire_def Let_def split: option.splits if_splits)

lemma paused_step:
  assumes inv: "sys_inv s" and paused: "r_pause (s_reg s) = Paused" and rep: "store_rep (sys_store s) a"
    and step: "sys_step s s'"
  shows "no_append a (sys_store s')"
proof -
  note idle = paused_nothing_open(2) [OF inv paused]
  note same = no_append_same [OF rep]
  from step show ?thesis
  proof cases
    case (opens i)
    then show ?thesis using same Begin_writer by simp
  next
    case (acquired c i t r)
    then show ?thesis using same acquire_writer [OF acquired(3)] by simp
  next
    case (turned_away i e r)
    then show ?thesis using same acquire_writer [OF turned_away(2)] by simp
  next
    case (writes c i t tn res w)
    then show ?thesis using idle [of c] by simp
  next
    case (pause tn)
    then show ?thesis using keeps_log_no_append [OF pause_keeps_log [OF rep]] inv by (simp add: sys_inv_def reg_inv_def)
  next
    case (resume tn)
    then show ?thesis using keeps_log_no_append [OF resume_keeps_log [OF rep]] by simp
  next
    case (projections w tn)
    then show ?thesis using keeps_log_no_append [OF projections_keeps_log [OF rep]] by simp
  next
    case (delete_events tn)
    then show ?thesis using delete_events_no_append [OF rep] by simp
  next
    case (delete_projections tn)
    then show ?thesis using keeps_log_no_append [OF delete_projections_keeps_log(1) [OF rep]] by simp
  next
    case (delete_projections_of tn ty)
    then show ?thesis using keeps_log_no_append [OF delete_projections_keeps_log(2) [OF rep]] by simp
  next
    case (optimize tn now)
    then show ?thesis using keeps_log_no_append [OF optimize_keeps_log [OF rep]] by simp
  qed (use same in \<open>simp_all add: Writer_Close_def\<close>)
qed

section \<open>Properties\<close>

text \<open>For the witnesses: a server at its start, a transaction that a call uses, and a pause in place.\<close>

definition small_config :: Config where
  "small_config = \<lparr>cf_IdleTimeout = 1000, cf_MaxEventsPerTx = 10, cf_MaxReadsPerTx = 10, cf_MaxProjectionsPerTx = 10,
     cf_MaxEventsPerTxRead = 10, cf_MaxOpenTx = 2\<rparr>"

definition started :: sys where
  "started = \<lparr>s_reg = Registry_New (Writer_New new_store) small_config (\<lambda>n. 5), s_calls = (\<lambda>_. Out)\<rparr>"

definition one_open :: sys where
  "one_open = started\<lparr>s_reg := snd (Begin ''t'' (s_reg started))\<rparr>"

definition one_using :: sys where
  "one_using = one_open\<lparr>s_reg := snd (acquire ''t'' (s_reg one_open)), s_calls := (s_calls one_open)(3 := Using ''t'')\<rparr>"

definition quiet_turn :: turn where
  "quiet_turn = \<lparr>tn_join = None, tn_wal_size = Inr 0, tn_checkpoint = Inr True, tn_faults = no_faults, tn_uuids = (\<lambda>_. ''v'')\<rparr>"

definition one_paused :: sys where
  "one_paused = started\<lparr>s_reg := snd (Pause quiet_turn (s_reg started))\<rparr>"

lemma started_reachable: "reachable sys_init sys_step started"
proof (rule reach_init)
  show "sys_init started"
    unfolding sys_init_def started_def
    by (rule exI [of _ "Writer_New new_store"], rule exI [of _ small_config], rule exI [of _ "\<lambda>n. 5"])
      (simp add: small_config_def config_wf_def)
qed

lemma started_reg: "r_txs (s_reg started) = []" "r_pause (s_reg started) = Running" "s_calls started c = Out"
    "r_clock (s_reg started) n = 5" "r_cfg (s_reg started) = small_config" "sys_store started = new_store"
  by (simp_all add: started_def Registry_New_def Writer_New_def new_store_def PausedAt_def IsZero_def)

lemma one_open_txs: "r_txs (s_reg one_open) = [(''t'', new_transaction\<lparr>tx_lastUsed := 5\<rparr>)]"
  by (simp add: one_open_def Begin_def Let_def tick_def started_reg lock_txs small_config_def)

lemma one_open_reg: "s_calls one_open = s_calls started" "r_cfg (s_reg one_open) = small_config"
    "r_clock (s_reg one_open) = (\<lambda>n. 5)" "r_pause (s_reg one_open) = Running" "w_store (r_writer (s_reg one_open)) = new_store"
  by (simp_all add: one_open_def Begin_def Let_def tick_def started_reg started_def Registry_New_def PausedAt_def IsZero_def
      Writer_New_def new_store_def)

lemma one_using_reachable: "reachable sys_init sys_step one_using"
proof -
  have "sys_step started one_open"
    unfolding one_open_def by (rule sys_step.opens) (simp_all add: find_tx_def started_reg)
  then have open': "reachable sys_init sys_step one_open" using started_reachable by (rule reach_step [rotated])
  have "acquire ''t'' (s_reg one_open) = (Inr (new_transaction\<lparr>tx_busy := True, tx_lastUsed := 5\<rparr>),
      snd (acquire ''t'' (s_reg one_open)))" "s_calls one_open 3 = Out"
    by (simp_all add: acquire_def Let_def lock_txs one_open_txs idle_def small_config_def new_transaction_def started_reg one_open_reg)
  then have "sys_step one_open one_using" unfolding one_using_def by (intro sys_step.acquired)
  with open' show ?thesis by (rule reach_step)
qed

text \<open>C10. One call at a time uses a transaction, and none stays busy for nothing: in every reachable state a
  transaction is busy exactly when a call is using it, and then only one call is.\<close>

theorem one_call_per_transaction:
  assumes "reachable sys_init sys_step s"
  shows "busy_in (s_reg s) i \<longleftrightarrow> (\<exists>!c. call_tx (s_calls s c) = Some i)"
  using sys.reachable_inv [OF assms] unfolding sys_inv_def users_ok_def by blast

theorem one_call_per_transaction_witness: "\<exists>!c. call_tx (s_calls one_using c) = Some ''t''"
proof -
  have "s_calls one_using 3 = Using ''t''" by (simp add: one_using_def)
  then have "busy_in (s_reg one_using) ''t''"
    using sys.reachable_inv [OF one_using_reachable] unfolding sys_inv_def users_ok_def by (metis call_tx.simps(2))
  with one_call_per_transaction [OF one_using_reachable] show ?thesis by blast
qed

text \<open>C32. The limits of the configuration hold in every reachable state: no transaction holds more events,
  conditions or written projections than allowed, and no more transactions are open than allowed.\<close>

theorem limits_hold:
  assumes "reachable sys_init sys_step s" "find_tx (s_reg s) i = Some t"
  shows "int (length (tx_events t)) \<le> cf_MaxEventsPerTx (r_cfg (s_reg s)) \<and>
    int (length (tx_conditions t)) + (if tx_open t = None then 0 else 1) \<le> cf_MaxReadsPerTx (r_cfg (s_reg s)) \<and>
    int (card {k. \<exists>p. tx_projections t k = Some p \<and> ps_written p}) \<le> cf_MaxProjectionsPerTx (r_cfg (s_reg s)) \<and>
    (if cf_MaxOpenTx (r_cfg (s_reg s)) = 0 then True
     else int (length (r_txs (s_reg s))) \<le> cf_MaxOpenTx (r_cfg (s_reg s)))"
proof -
  have inv: "reg_inv (s_reg s)" using sys.reachable_inv [OF assms(1)] by (simp add: sys_inv_def)
  have "tx_inv (r_cfg (s_reg s)) t" by (rule reg_invD(3) [OF inv assms(2)])
  then show ?thesis using inv by (auto simp: tx_inv_def reg_inv_def config_wf_def)
qed

theorem limits_hold_witness: "int (length (r_txs (s_reg one_using))) \<le> 2"
proof -
  have "s_calls one_using 3 = Using ''t''" by (simp add: one_using_def)
  then have "busy_in (s_reg one_using) ''t''"
    using sys.reachable_inv [OF one_using_reachable] unfolding sys_inv_def users_ok_def by (metis call_tx.simps(2))
  then obtain t where t: "find_tx (s_reg one_using) ''t'' = Some t" by (auto simp: busy_in_def)
  have "r_cfg (s_reg one_using) = small_config"
    by (simp add: one_using_def acquire_def Let_def one_open_def Begin_def tick_def started_reg split: option.split)
  with limits_hold [OF one_using_reachable t] show ?thesis by (simp add: small_config_def)
qed

text \<open>C5. While a pause is in place no transaction is open, no call uses one, and nothing appends: over any
  number of steps of any clients the log stays as it was, or is deleted, and the position that
  \<open>Pause\<close> returned stays the last one.\<close>

theorem pause_freezes_the_log:
  assumes "reachable sys_init sys_step s" "r_pause (s_reg s) = Paused" "store_rep (sys_store s) a"
    and "(\<lambda>s s'. sys_step s s' \<and> r_pause (s_reg s) = Paused)\<^sup>*\<^sup>* s s'"
  shows "r_txs (s_reg s) = [] \<and>
    (\<exists>a'. store_rep (sys_store s') a' \<and> sp_next a' = sp_next a \<and> (sp_log a' \<in> {sp_log a, []}))"
proof
  show "r_txs (s_reg s) = []"
    using sys.reachable_inv [OF assms(1)] reg_invD(4) assms(2) by (simp add: sys_inv_def)
  have "sys_inv s' \<and> no_append a (sys_store s')"
    using assms(4)
  proof (induction rule: rtranclp_induct)
    case base
    then show ?case using sys.reachable_inv [OF assms(1)] no_append_same [OF assms(3)] by simp
  next
    case (step s1 s2)
    then obtain a1 where a1: "store_rep (sys_store s1) a1" "sp_next a1 = sp_next a" "sp_log a1 = sp_log a \<or> sp_log a1 = []"
      by (auto simp: no_append_def)
    have "no_append a1 (sys_store s2)" using paused_step [OF _ _ a1(1)] step by blast
    then have "no_append a (sys_store s2)" using a1(2,3) by (auto simp: no_append_def)
    then show ?case using sys_step_inv step by blast
  qed
  then show "\<exists>a'. store_rep (sys_store s') a' \<and> sp_next a' = sp_next a \<and> (sp_log a' \<in> {sp_log a, []})"
    by (auto simp: no_append_def)
qed

theorem pause_freezes_the_log_witness:
  "\<exists>a'. store_rep (sys_store (one_paused\<lparr>s_reg := snd (Begin ''t'' (s_reg one_paused))\<rparr>)) a' \<and> sp_next a' = 1"
proof -
  have "sys_step started one_paused" unfolding one_paused_def by (rule sys_step.pause)
  then have reach: "reachable sys_init sys_step one_paused" using started_reachable by (rule reach_step [rotated])
  let ?r = "snd (tick (lock (s_reg started)))"
  obtain ans st where set: "SetPause no_faults new_store 5 = (ans, st)" by fastforce
  then have ans: "ans = Inr 0" "store_rep st new_spec"
    using SetPause_spec [OF new_store_rep set] by (auto simp: new_spec_def)
  have turn': "tn_join quiet_turn = None" "tn_faults quiet_turn = no_faults" by (simp_all add: quiet_turn_def)
  have open': "\<not> w_closed (r_writer (s_reg started))"
    by (simp add: started_def Registry_New_def Writer_New_def new_store_def PausedAt_def)
  have reg: "r_pause (s_reg one_paused) = Paused" "sys_store one_paused = st"
    using set ans by (simp_all add: one_paused_def Pause_def RunInTurn_def turn' open' pause_turn_def Let_def
        case_prod_unfold started_reg lock_txs)
  have "sys_step one_paused (one_paused\<lparr>s_reg := snd (Begin ''t'' (s_reg one_paused))\<rparr>)"
  proof (rule sys_step.opens)
    show "find_tx (s_reg one_paused) ''t'' = None"
      using paused_nothing_open [OF sys.reachable_inv [OF reach] reg(1)] by simp
    show "\<forall>c. call_id (s_calls one_paused c) \<noteq> Some ''t''" by (simp add: one_paused_def started_reg)
  qed
  with reg(1) have "(\<lambda>s s'. sys_step s s' \<and> r_pause (s_reg s) = Paused)\<^sup>*\<^sup>* one_paused
      (one_paused\<lparr>s_reg := snd (Begin ''t'' (s_reg one_paused))\<rparr>)" by (intro r_into_rtranclp) simp
  from pause_freezes_the_log [OF reach reg(1) _ this, of new_spec] ans(2) reg(2) show ?thesis
    by (auto simp: new_spec_def)
qed

text \<open>For the witnesses: a transaction that read everything in an empty store and wrote an event.\<close>

definition signing_up :: transaction where
  "signing_up = new_transaction\<lparr>tx_events := [\<lparr>pe_time = 5, pe_data = user_created\<rparr>],
     tx_conditions := [\<lparr>FailIfEventsMatch = QueryAll, AfterSequence = 0\<rparr>], tx_lastUsed := 5\<rparr>"

definition one_writing :: Registry where
  "one_writing = (s_reg one_open)\<lparr>r_txs := [(''t'', signing_up)]\<rparr>"

lemma one_writing_inv: "reg_inv one_writing"
proof -
  have "reg_inv (s_reg one_open)"
    using sys.reachable_inv [OF started_reachable] Begin_inv by (auto simp: one_open_def sys_inv_def)
  then show ?thesis
    by (simp add: reg_inv_def one_writing_def one_open_reg ids_ok_def config_wf_def small_config_def tx_inv_def signing_up_def
        new_transaction_def)
qed

lemma one_writing_tx: "find_tx (lock one_writing) ''t'' = Some signing_up" "\<not> tx_busy signing_up"
    "w_store (r_writer one_writing) = new_store"
  by (simp_all add: one_writing_def one_open_reg find_tx_def lock_txs idle_def signing_up_def new_transaction_def small_config_def)

lemma signing_up_wf: "tx_wf new_spec signing_up"
  by (simp add: tx_wf_def signing_up_def new_transaction_def new_spec_def user_created_def tags_distinct_def QueryAll_def
      query_wf_def)

text \<open>C3. A commit is all or nothing, and ends the transaction. When it succeeds, every condition of the
  transaction held in the log it was written to, its events follow the log in their order with the
  next positions, every projection it changed was still as it had read it and is now as it last
  saw it, and no other projection changes. When it fails the store is as before, and a condition
  conflict names a condition that did not hold, a projection conflict a projection that had
  changed, and a rule of use names a read that was left open.\<close>

theorem commit_all_or_nothing:
  assumes "reg_inv r" "store_rep (w_store (r_writer r)) a" "find_tx (lock r) i = Some t" "\<not> tx_busy t" "tx_wf a t"
    and "Commit tn i r = (res, r')"
  shows "find_tx r' i = None \<and>
    (case res of
       Inr _ \<Rightarrow> commit_done t a (w_store (r_writer r)) (w_store (r_writer r'))
     | Inl e \<Rightarrow> w_store (r_writer r') = w_store (r_writer r) \<and> refused t a e)"
  using assms by (rule Commit_spec)

theorem commit_all_or_nothing_witness:
  "case Commit quiet_turn ''t'' one_writing of
     (res, r') \<Rightarrow> find_tx r' ''t'' = None \<and>
       (case res of
          Inr _ \<Rightarrow> \<exists>a'. store_rep (w_store (r_writer r')) a' \<and> sp_log a' = placed 1 (tx_events signing_up)
        | Inl e \<Rightarrow> w_store (r_writer r') = new_store)"
proof -
  obtain res r' where run: "Commit quiet_turn ''t'' one_writing = (res, r')" by fastforce
  have "has_writes signing_up" by (simp add: has_writes_def signing_up_def)
  with commit_all_or_nothing [OF one_writing_inv _ one_writing_tx(1,2) signing_up_wf run] show ?thesis
    using new_store_rep by (auto simp: run one_writing_tx commit_done_def committed_def new_spec_def split: sum.splits)
qed



text \<open>A failed call leaves no transaction behind.\<close>

definition error_ends :: "string \<Rightarrow> Registry \<Rightarrow> (tx_error + 'a) \<times> Registry \<Rightarrow> bool" where
  "error_ends i r out \<longleftrightarrow>
     (case out of
        (Inl e, r') \<Rightarrow> e = ErrBusy \<and> find_tx r' = find_tx (lock r) \<and> r_writer r' = r_writer r \<or> find_tx r' i = None
      | (Inr _, _) \<Rightarrow> True)"

lemma do_tx_error_ends: "ids_ok r \<Longrightarrow> error_ends i r (do_tx i fn r)"
  using do_tx_error [of i fn r] by (auto simp: error_ends_def split: sum.split prod.split)

text \<open>C30. An error ends the transaction: whatever call of the registry on a transaction fails, the
  transaction is gone after it, unless another call was using it; then nothing changes. A commit
  ends it in every case.\<close>

theorem errors_end_transaction:
  assumes "reg_inv r"
  shows "error_ends i r (ReadEvents faults i f r) \<and> error_ends i r (WriteEvents now i events r) \<and>
    error_ends i r (Registry_GetProjection faults i key r) \<and> error_ends i r (Registry_WriteProjections now i w r) \<and>
    error_ends i r (Commit tn i r)"
  unfolding ReadEvents_def WriteEvents_def Registry_GetProjection_def Registry_WriteProjections_def Commit_def
  using reg_invD(1) [OF assms] by (simp add: do_tx_error_ends)

theorem errors_end_transaction_witness:
  "case WriteEvents 5 ''t'' [user_created] one_writing of (res, r') \<Rightarrow> res = Inl (ErrDesign WriteWithoutRead) \<and> find_tx r' ''t'' = None"
proof -
  let ?fn = "\<lambda>t r. (tx_WriteEvents (r_cfg r) 5 [user_created] t, r)" and ?t = "signing_up\<lparr>tx_busy := True\<rparr>"
  have "?fn ?t r = (Inl (ErrDesign WriteWithoutRead), r)" for r
    by (simp add: tx_WriteEvents_def signing_up_def new_transaction_def)
  from do_tx_run [where fn = ?fn, OF one_writing_tx(1,2) reg_invD(1) [OF one_writing_inv] this]
  have "fst (WriteEvents 5 ''t'' [user_created] one_writing) = Inl (ErrDesign WriteWithoutRead)"
    by (simp add: WriteEvents_def)
  then obtain r2 where "WriteEvents 5 ''t'' [user_created] one_writing = (Inl (ErrDesign WriteWithoutRead), r2)"
    by (cases "WriteEvents 5 ''t'' [user_created] one_writing") simp
  with errors_end_transaction [OF one_writing_inv, of "''t''" no_faults undefined 5 "[user_created]" undefined undefined undefined]
  show ?thesis by (simp add: error_ends_def)
qed

end
