(* ===== verification/Api.thy ===== *)
theory Api
  imports Request Interleave
begin

text \<open>
  The HTTP API (package api): what is written to the client, the error a response carries, the
  access log, and the handler of every endpoint. A handler runs here as a whole; Interleave has the
  critical sections the handlers of several requests are made of, in any order.
\<close>

section \<open>Levels\<close>

datatype level = levelDebug | levelInfo | levelWarning | levelError

fun level_String :: "level \<Rightarrow> string" where
  "level_String levelDebug = ''DEBUG''"
| "level_String levelInfo = ''INFO''"
| "level_String levelWarning = ''WARNING''"
| "level_String levelError = ''ERROR''"

fun level_rank :: "level \<Rightarrow> nat" where
  "level_rank levelDebug = 0"
| "level_rank levelInfo = 1"
| "level_rank levelWarning = 2"
| "level_rank levelError = 3"

definition parseLevel :: "string \<Rightarrow> level option" where
  "parseLevel s =
     (if s = ''debug'' then Some levelDebug
      else if s = ''info'' then Some levelInfo
      else if s = ''warning'' then Some levelWarning
      else if s = ''error'' then Some levelError
      else None)"

definition codeLevel :: "(string \<times> level) list" where
  "codeLevel =
     [(''ProjectionNotFound'', levelDebug), (''TransactionNotFound'', levelInfo), (''ConcurrencyException'', levelDebug),
      (''InvalidRequest'', levelInfo), (''PayloadTooLarge'', levelInfo), (''Unauthorized'', levelInfo),
      (''WriteQueueFull'', levelWarning), (''TooManyTransactions'', levelWarning), (''ShuttingDown'', levelInfo),
      (''Paused'', levelInfo), (''TransactionBusy'', levelInfo), (''InternalError'', levelError),
      (''StorageFull'', levelError), (''Unavailable'', levelError)]"

section \<open>Writing a response\<close>

text \<open>
  The \<open>statusWriter\<close> around the connection: what it captures, and what the client gets. A write
  fails once the client is gone; \<open>sw_fails n\<close> says so of the \<open>n\<close>-th.
\<close>

record statusWriter =
  sw_status :: nat
  sw_bytes :: nat
  sw_level :: level
  sw_wroteHeader :: bool
  sw_headers :: "(string \<times> string) list"
  sw_body :: "string list"
  sw_fails :: "nat \<Rightarrow> bool"

definition new_statusWriter :: "(nat \<Rightarrow> bool) \<Rightarrow> statusWriter" where
  "new_statusWriter gone =
     \<lparr>sw_status = 200, sw_bytes = 0, sw_level = levelDebug, sw_wroteHeader = False, sw_headers = [], sw_body = [],
      sw_fails = gone\<rparr>"

definition Header_Set :: "string \<Rightarrow> string \<Rightarrow> statusWriter \<Rightarrow> statusWriter" where
  "Header_Set k v sw = sw\<lparr>sw_headers := AList.update k v (sw_headers sw)\<rparr>"

definition WriteHeader :: "nat \<Rightarrow> statusWriter \<Rightarrow> statusWriter" where
  "WriteHeader status sw = sw\<lparr>sw_status := status, sw_wroteHeader := True\<rparr>"

definition Write :: "string \<Rightarrow> statusWriter \<Rightarrow> statusWriter \<times> bool" where
  "Write b sw =
     (let sw1 = sw\<lparr>sw_wroteHeader := True\<rparr> in
      if sw_fails sw (length (sw_body sw)) then (sw1, False)
      else (sw1\<lparr>sw_body := sw_body sw @ [b], sw_bytes := sw_bytes sw + length b\<rparr>, True))"

definition logAt :: "level \<Rightarrow> statusWriter \<Rightarrow> statusWriter" where
  "logAt l sw = sw\<lparr>sw_level := l\<rparr>"

text \<open>\<open>json.NewEncoder(w).Encode(v)\<close>: the value and a newline, in one write.\<close>

definition Encode :: "json \<Rightarrow> statusWriter \<Rightarrow> statusWriter" where
  "Encode v sw = fst (Write (encode v @ [newline_c]) sw)"

definition writeJSON :: "nat \<Rightarrow> json \<Rightarrow> statusWriter \<Rightarrow> statusWriter" where
  "writeJSON status v sw = Encode v (WriteHeader status (Header_Set ''Content-Type'' ''application/json'' sw))"

definition errorEnvelope :: "string \<Rightarrow> string \<Rightarrow> json" where
  "errorEnvelope code message =
     JObject ((''error'', JString code) # (if message = [] then [] else [(''message'', JString message)]))"

definition writeError :: "nat \<Rightarrow> string \<Rightarrow> string \<Rightarrow> statusWriter \<Rightarrow> statusWriter" where
  "writeError status code message sw =
     (let sw1 = (case map_of codeLevel code of Some l \<Rightarrow> logAt l sw | None \<Rightarrow> sw)
      in writeJSON status (errorEnvelope code message) sw1)"

section \<open>The server\<close>

record Server =
  sv_txs :: Registry
  sv_opts :: Options
  sv_startedAt :: gotime
  sv_internalErrors :: nat
  sv_storageFullErrors :: nat
  sv_logThreshold :: level
  sv_fatal :: "store_error list"

abbreviation sv_writer :: "Server \<Rightarrow> Writer" where
  "sv_writer s \<equiv> r_writer (sv_txs s)"

abbreviation sv_store :: "Server \<Rightarrow> Store" where
  "sv_store s \<equiv> w_store (sv_writer s)"

definition with_writer :: "Writer \<Rightarrow> Server \<Rightarrow> Server" where
  "with_writer w s = s\<lparr>sv_txs := (sv_txs s)\<lparr>r_writer := w\<rparr>\<rparr>"

text \<open>
  \<open>New\<close>, \<open>None\<close> being a panic on invalid options (the handles it is given are never nil here).
\<close>

definition Server_New :: "Registry \<Rightarrow> Options \<Rightarrow> gotime \<Rightarrow> Server option" where
  "Server_New txs opts now =
     (if op_DefaultEventsPerPage opts \<le> 0 \<or> op_MaxEventsPerPage opts \<le> 0 \<or>
         op_DefaultEventsPerPage opts > op_MaxEventsPerPage opts \<or> op_MaxEventSize opts \<le> 0 \<or>
         op_MaxProjectionSize opts \<le> 0 \<or> op_MaxProjectionsPerWrite opts \<le> 0 \<or> op_MaxRequestBodySize opts \<le> 0
      then None
      else
        map_option (\<lambda>threshold.
          \<lparr>sv_txs = txs, sv_opts = opts, sv_startedAt = now, sv_internalErrors = 0, sv_storageFullErrors = 0,
           sv_logThreshold = threshold, sv_fatal = []\<rparr>)
        (parseLevel (op_LogLevel opts)))"

text \<open>
  What a request meets outside the server: its turn in the FIFO, the database faults of its
  reads, the clock, a fresh UUID, whether its client has left, the size of the WAL file, the text
  of an error message, and what the standard library leaves open (the printable runes, and the
  order of a map).
\<close>

record env =
  en_turn :: turn
  en_faults :: faults
  en_now :: gotime
  en_id :: string
  en_gone :: bool
  en_wal_size :: "store_error + int"
  en_text :: "api_error \<Rightarrow> string"
  en_is_print :: "nat \<Rightarrow> bool"
  en_range_order :: "(string \<times> json) list \<Rightarrow> (string \<times> json) list"

section \<open>Errors\<close>

fun err_store :: "api_error \<Rightarrow> store_error option" where
  "err_store (Failed (OpErr (StoreErr e))) = Some e"
| "err_store _ = None"

text \<open>The switch of \<open>handleErr\<close>: status, code, and whether the message is sent.\<close>

fun store_status :: "store_error \<Rightarrow> nat \<times> string \<times> bool" where
  "store_status (ProjectionConflictError oper i) = (409, ''ConcurrencyException'', True)"
| "store_status (ConditionConflictError i) = (409, ''ConcurrencyException'', True)"
| "store_status e =
     (if IsStorageFull e then (507, ''StorageFull'', True) else (500, ''InternalError'', True))"

fun tx_status :: "tx_error \<Rightarrow> nat \<times> string \<times> bool" where
  "tx_status (ErrDesign rule) = (400, ''InvalidRequest'', True)"
| "tx_status (ErrTooLarge lim) = (400, ''InvalidRequest'', True)"
| "tx_status (ConflictError c) = (409, ''ConcurrencyException'', True)"
| "tx_status ErrNotFound = (404, ''TransactionNotFound'', False)"
| "tx_status ErrBusy = (409, ''TransactionBusy'', False)"
| "tx_status ErrPaused = (503, ''Paused'', False)"
| "tx_status ErrTooManyTransactions = (503, ''TooManyTransactions'', False)"
| "tx_status (OpErr (QueueErr ErrFull)) = (503, ''WriteQueueFull'', False)"
| "tx_status (OpErr (QueueErr ErrClosed)) = (503, ''ShuttingDown'', False)"
| "tx_status (OpErr WriterClosed) = (503, ''ShuttingDown'', False)"
| "tx_status (OpErr (StoreErr e)) = store_status e"
| "tx_status IndexPanic = (500, ''InternalError'', True)"

fun err_status :: "api_error \<Rightarrow> nat \<times> string \<times> bool" where
  "err_status (Invalid p rule) = (400, ''InvalidRequest'', True)"
| "err_status (InvalidProjection p rule) = (400, ''InvalidRequest'', True)"
| "err_status (Oversize at setting sz lim) = (413, ''PayloadTooLarge'', True)"
| "err_status (BodyTooLarge limit) = (413, ''PayloadTooLarge'', True)"
| "err_status (Failed e) = tx_status e"
| "err_status ClientGone = (500, ''InternalError'', True)"

text \<open>A handler's state: the response and the server.\<close>

type_synonym ctx = "statusWriter \<times> Server"

definition handleErr :: "env \<Rightarrow> api_error \<Rightarrow> ctx \<Rightarrow> ctx" where
  "handleErr en err c =
     (let (sw, s) = c;
          s1 = (case err_store err of
                  Some e \<Rightarrow> if IsFatal e then s\<lparr>sv_fatal := sv_fatal s @ [e]\<rparr> else s
                | None \<Rightarrow> s)
      in if en_gone en \<or> err = ClientGone then (sw, s1)
         else if sw_wroteHeader sw then (sw, s1)
         else
           (let (status, code, sent) = err_status err;
                s2 = (if code = ''StorageFull'' then s1\<lparr>sv_storageFullErrors := Suc (sv_storageFullErrors s1)\<rparr>
                      else if code = ''InternalError'' then s1\<lparr>sv_internalErrors := Suc (sv_internalErrors s1)\<rparr>
                      else s1)
            in (writeError status code (if sent then en_text en err else []) sw, s2)))"

definition handle_op :: "env \<Rightarrow> op_error \<Rightarrow> ctx \<Rightarrow> ctx" where
  "handle_op en e c = handleErr en (Failed (OpErr e)) c"

section \<open>Lines of a read\<close>

definition write_line :: "string \<Rightarrow> statusWriter \<Rightarrow> statusWriter \<times> bool" where
  "write_line l sw = Write (l @ [newline_c]) sw"

fun writeReadEvents :: "ReadEvent list \<Rightarrow> statusWriter \<Rightarrow> statusWriter \<times> bool" where
  "writeReadEvents [] sw = (sw, True)"
| "writeReadEvents (ev # evs) sw =
     (case write_line (appendReadEvent [] ev) sw of
        (sw1, ok) \<Rightarrow> if ok then writeReadEvents evs sw1 else (sw1, False))"

definition readTrailer :: "bool \<Rightarrow> json" where
  "readTrailer has_more = JObject [(''hasMore'', JBool has_more)]"

definition writePage :: "Page \<Rightarrow> statusWriter \<Rightarrow> statusWriter \<times> bool" where
  "writePage page sw =
     (let sw1 = WriteHeader 200 (Header_Set ''Content-Type'' ''application/x-ndjson'' sw) in
      case writeReadEvents (pg_events page) sw1 of
        (sw2, ok) \<Rightarrow>
          if ok then write_line (encode (readTrailer (pg_has_more page))) sw2 else (sw2, False))"

definition pendingEventWire :: "PendingEvent \<Rightarrow> json" where
  "pendingEventWire e =
     JObject
       [(''time'', JString (format_time (pe_time e))), (''type'', JString (ed_type (pe_data e))),
        (''identifiers'', compact_tree (map id_pair (ed_identifiers (pe_data e)))),
        (''metadata'', compact_tree (map md_pair (ed_metadata (pe_data e)))), (''payload'', JString (ed_payload (pe_data e)))]"

definition txReadTrailer :: json where
  "txReadTrailer = JObject [(''end'', JBool True)]"

text \<open>
  \<open>writeCommitted\<close> and \<open>writePending\<close>: the lines of each, while \<open>more\<close> holds. The result is
  how many lines have been sent, and whether all went out.
\<close>

fun write_some :: "int \<Rightarrow> string list \<Rightarrow> nat \<Rightarrow> statusWriter \<Rightarrow> statusWriter \<times> nat \<times> bool" where
  "write_some limit [] sent sw = (sw, sent, True)"
| "write_some limit (l # ls) sent sw =
     (if \<not> (limit = 0 \<or> int sent < limit) then (sw, sent, True)
      else
        (case write_line l sw of
           (sw1, ok) \<Rightarrow> if ok then write_some limit ls (Suc sent) sw1 else (sw1, sent, False)))"

definition writeTxEvents :: "TxRead \<Rightarrow> DecisionFilter \<Rightarrow> statusWriter \<Rightarrow> statusWriter \<times> bool" where
  "writeTxEvents read f sw =
     (let sw1 = WriteHeader 200 (Header_Set ''Content-Type'' ''application/x-ndjson'' sw);
          committed = map (appendReadEvent []) (rd_committed read);
          pending = map (\<lambda>e. encode (pendingEventWire e)) (rd_pending read);
          (first, second) = (if df_backwards f then (pending, committed) else (committed, pending))
      in case write_some (df_limit f) first 0 sw1 of
           (sw2, sent, ok) \<Rightarrow>
             if \<not> ok then (sw2, False)
             else
               (case write_some (df_limit f) second sent sw2 of
                  (sw3, sent, ok) \<Rightarrow> if ok then write_line (encode txReadTrailer) sw3 else (sw3, False)))"

section \<open>The endpoints outside transactions\<close>

definition no_content :: "statusWriter \<Rightarrow> statusWriter" where
  "no_content sw = WriteHeader 204 sw"

definition handleReadEvents :: "env \<Rightarrow> request_body \<Rightarrow> ctx \<Rightarrow> ctx" where
  "handleReadEvents en body c =
     (let (sw, s) = c in
      case parseReadRequest (en_is_print en) (sv_opts s) body of
        Inl e \<Rightarrow> handleErr en e c
      | Inr f \<Rightarrow>
          (case Read (en_faults en) (sv_store s) f of
             Inl e \<Rightarrow> handle_op en (StoreErr e) c
           | Inr page \<Rightarrow>
               (case writePage page sw of
                  (sw1, ok) \<Rightarrow> if ok then (sw1, s) else handleErr en ClientGone (sw1, s))))"

text \<open>
  A failed write of a line is an error of the connection, which \<open>handleErr\<close> answers with nothing,
  the response having started: \<open>ClientGone\<close> stands for it.
\<close>

definition toProjectionVersions :: "string list \<Rightarrow> json" where
  "toProjectionVersions versions = JArray (map (\<lambda>v. JObject [(''version'', JString v)]) versions)"

definition payload_response :: "(string \<times> string) list \<Rightarrow> string \<Rightarrow> statusWriter \<Rightarrow> statusWriter" where
  "payload_response headers payload sw =
     (let sw1 = Header_Set ''X-Content-Type-Options'' ''nosniff'' (Header_Set ''Content-Type'' ''text/plain; charset=utf-8'' sw)
      in fst (Write payload (WriteHeader 200 (fold (\<lambda>(k, v). Header_Set k v) headers sw1))))"

definition handleGetProjection :: "env \<Rightarrow> request_body \<Rightarrow> ctx \<Rightarrow> ctx" where
  "handleGetProjection en body c =
     (let (sw, s) = c in
      case get_projection_request (sv_opts s) body of
        Inl e \<Rightarrow> handleErr en e c
      | Inr key \<Rightarrow>
          (case GetProjection (en_faults en) (sv_store s) (k_type key) (k_id key) of
             Inl e \<Rightarrow> handle_op en (StoreErr e) c
           | Inr p \<Rightarrow>
               if \<not> pr_found p then (writeError 404 ''ProjectionNotFound'' [] sw, s)
               else (payload_response [(''X-Tamarackdb-Projection-Version'', pr_version p)] (pr_payload p) sw, s)))"

definition no_result :: AppendResult where
  "no_result = \<lparr>ar_events = [], ar_versions = \<lparr>v_create = [], v_replace = []\<rparr>\<rparr>"

definition handleWriteProjections :: "env \<Rightarrow> request_body \<Rightarrow> ctx \<Rightarrow> ctx" where
  "handleWriteProjections en body c =
     (let (sw, s) = c in
      case write_projections_request (sv_opts s) body of
        Inl e \<Rightarrow> handleErr en e c
      | Inr req \<Rightarrow>
          (let (res, w) =
             (if Writes_Len req > 0 then WriteProjections (en_turn en) req (sv_writer s) else (Inr no_result, sv_writer s))
           in case res of
                Inl e \<Rightarrow> handle_op en e (sw, with_writer w s)
              | Inr result \<Rightarrow>
                  (writeJSON 200
                     (JObject [(''create'', toProjectionVersions (v_create (ar_versions result))),
                        (''replace'', toProjectionVersions (v_replace (ar_versions result)))]) sw,
                   with_writer w s)))"

text \<open>The bulk deletes and \<open>PRAGMA optimize\<close>, each in its turn.\<close>

definition answer_turn :: "env \<Rightarrow> (op_error + unit) \<times> Writer \<Rightarrow> ctx \<Rightarrow> ctx" where
  "answer_turn en out c =
     (let (sw, s) = c; (res, w) = out; s1 = with_writer w s in
      case res of
        Inl e \<Rightarrow> handle_op en e (sw, s1)
      | Inr _ \<Rightarrow> (no_content (logAt levelInfo sw), s1))"

definition handleDeleteEvents :: "env \<Rightarrow> ctx \<Rightarrow> ctx" where
  "handleDeleteEvents en c = answer_turn en (delete_in_turn (en_turn en) DeleteAllEvents (sv_writer (snd c))) c"

definition handleDeleteAllProjections :: "env \<Rightarrow> ctx \<Rightarrow> ctx" where
  "handleDeleteAllProjections en c = answer_turn en (delete_in_turn (en_turn en) DeleteAllProjections (sv_writer (snd c))) c"

definition handleDeleteProjectionsByType :: "env \<Rightarrow> string \<Rightarrow> ctx \<Rightarrow> ctx" where
  "handleDeleteProjectionsByType en typ c =
     answer_turn en (delete_in_turn (en_turn en) (\<lambda>f st. DeleteProjectionsByType f st typ) (sv_writer (snd c))) c"

definition handleOptimize :: "env \<Rightarrow> ctx \<Rightarrow> ctx" where
  "handleOptimize en c = answer_turn en (Writer_Optimize (en_turn en) (en_now en) (sv_writer (snd c))) c"

definition handlePause :: "env \<Rightarrow> ctx \<Rightarrow> ctx" where
  "handlePause en c =
     (let (sw, s) = c; (res, r) = Pause (en_turn en) (sv_txs s); s1 = s\<lparr>sv_txs := r\<rparr> in
      case res of
        Inl e \<Rightarrow> handle_op en e (sw, s1)
      | Inr result \<Rightarrow>
          (let sw1 = logAt levelInfo sw in
           if \<not> pz_Paused result
           then (writeJSON 202 (JObject [(''openTransactions'', JNumber (int (pz_Open result)))]) sw1, s1)
           else (writeJSON 200 (JObject [(''lastSequence'', JNumber (pz_LastSequence result))]) sw1, s1)))"

definition handleResume :: "env \<Rightarrow> ctx \<Rightarrow> ctx" where
  "handleResume en c =
     (let (sw, s) = c; (res, r) = Resume (en_turn en) (sv_txs s); s1 = s\<lparr>sv_txs := r\<rparr> in
      case res of
        Inl e \<Rightarrow> handle_op en e (sw, s1)
      | Inr _ \<Rightarrow> (no_content (logAt levelInfo sw), s1))"

definition handleHealth :: "env \<Rightarrow> ctx \<Rightarrow> ctx" where
  "handleHealth en c =
     (let (sw, s) = c in
      case Ping (en_faults en) (sv_store s) of
        Some e \<Rightarrow> (writeError 503 ''Unavailable'' ''storage is not reachable'' sw, s)
      | None \<Rightarrow>
          (let (info, r) = Registry_PauseInfo (sv_txs s)
           in (writeJSON 200
                 (JObject [(''status'', JString ''ok''), (''paused'', JBool (pi_State info = Paused)),
                    (''version'', JString (op_Version (sv_opts s)))]) sw,
               s\<lparr>sv_txs := r\<rparr>)))"

definition handleStats :: "env \<Rightarrow> ctx \<Rightarrow> ctx" where
  "handleStats en c =
     (let (sw, s) = c;
          ws = w_stats (sv_writer s);
          (ts, r) = Registry_Stats (sv_txs s);
          (ps, r) = Registry_PauseInfo r;
          s1 = s\<lparr>sv_txs := r\<rparr>;
          num = (\<lambda>n. JNumber (int n));
          at = (\<lambda>t. JString (format_time t))
      in case en_wal_size en of
           Inl e \<Rightarrow> handle_op en (StoreErr e) (sw, s1)
         | Inr walSize \<Rightarrow>
             (writeJSON 200
               (JObject
                 [(''startedAt'', at (sv_startedAt s)),
                  (''lastOptimizeAt'', if IsZero (ws_LastOptimize ws) then JNull else at (ws_LastOptimize ws)),
                  (''writes'', JObject
                    [(''committed'', num (ws_Committed ws)),
                     (''conflicts'', JObject
                        [(''condition'', num (ws_ConditionConflicts ws)), (''projection'', num (ws_ProjectionConflicts ws))]),
                     (''writeQueueFull'', num (ws_WriteQueueFull ws))]),
                  (''transactions'', JObject
                    [(''begun'', num (ts_Begun ts)), (''committed'', num (ts_Committed ts)), (''abandoned'', num (ts_Abandoned ts)),
                     (''expired'', num (ts_Expired ts)), (''designErrors'', num (ts_DesignErrors ts)),
                     (''paused'', num (ts_Paused ts)), (''busy'', num (ts_Busy ts)), (''tooMany'', num (ts_TooMany ts)),
                     (''largestRead'', JNumber (ts_LargestRead ts))]),
                  (''pause'', JObject
                    [(''state'', JString (PauseState_String (pi_State ps))), (''since'', at (pi_Since ps)),
                     (''openTransactions'', num (pi_Open ps))]),
                  (''wal'', JObject
                    [(''size'', JNumber walSize), (''checkpoints'', num (ws_Checkpoints ws)),
                     (''checkpointsBusy'', num (ws_CheckpointsBusy ws))]),
                  (''errors'', JObject
                    [(''internal'', num (sv_internalErrors s)), (''storageFull'', num (sv_storageFullErrors s))])]) sw,
              s1))"

section \<open>The endpoints of a transaction\<close>

text \<open>What a handler does with the outcome of a call on the registry.\<close>

definition on_tx :: "env \<Rightarrow> (tx_error + 'a) \<times> Registry \<Rightarrow> ('a \<Rightarrow> ctx \<Rightarrow> ctx) \<Rightarrow> ctx \<Rightarrow> ctx" where
  "on_tx en out answer c =
     (let (sw, s) = c; (res, r) = out; s1 = s\<lparr>sv_txs := r\<rparr> in
      case res of
        Inl e \<Rightarrow> handleErr en (Failed e) (sw, s1)
      | Inr x \<Rightarrow> answer x (sw, s1))"

definition txFail :: "env \<Rightarrow> string \<Rightarrow> api_error \<Rightarrow> ctx \<Rightarrow> ctx" where
  "txFail en tid err c =
     (if err = ClientGone then c
      else
        (let (sw, s) = c;
             design = (case err of Oversize _ _ _ _ \<Rightarrow> False | BodyTooLarge _ \<Rightarrow> False | _ \<Rightarrow> True);
             (rejected, r) = Reject tid design (sv_txs s);
             err' = (case rejected of Some e \<Rightarrow> Failed e | None \<Rightarrow> err)
         in handleErr en err' (sw, s\<lparr>sv_txs := r\<rparr>)))"

definition handleTxBegin :: "env \<Rightarrow> ctx \<Rightarrow> ctx" where
  "handleTxBegin en c =
     on_tx en (Begin (en_id en) (sv_txs (snd c)))
       (\<lambda>tid (sw, s). (writeJSON 200 (JObject [(''txId'', JString tid)]) sw, s)) c"

definition handleTxReadEvents :: "env \<Rightarrow> string \<Rightarrow> request_body \<Rightarrow> ctx \<Rightarrow> ctx" where
  "handleTxReadEvents en tid body c =
     (case tx_read_filter (en_is_print en) (sv_opts (snd c)) body of
        Inl e \<Rightarrow> txFail en tid e c
      | Inr f \<Rightarrow>
          on_tx en (ReadEvents (en_faults en) tid f (sv_txs (snd c)))
            (\<lambda>read (sw, s).
              case writeTxEvents read f sw of
                (sw1, ok) \<Rightarrow> if ok then (sw1, s) else handleErr en ClientGone (sw1, s)) c)"

definition write_response :: "gotime \<Rightarrow> statusWriter \<Rightarrow> statusWriter" where
  "write_response t sw = writeJSON 200 (JObject [(''time'', JString (format_time t))]) sw"

definition handleTxWriteEvents :: "env \<Rightarrow> string \<Rightarrow> request_body \<Rightarrow> ctx \<Rightarrow> ctx" where
  "handleTxWriteEvents en tid body c =
     (case tx_events_request (en_range_order en) (sv_opts (snd c)) body of
        Inl e \<Rightarrow> txFail en tid e c
      | Inr events \<Rightarrow>
          on_tx en (WriteEvents (en_now en) tid (eventData events) (sv_txs (snd c)))
            (\<lambda>t (sw, s). (write_response t sw, s)) c)"

definition handleTxGetProjection :: "env \<Rightarrow> string \<Rightarrow> request_body \<Rightarrow> ctx \<Rightarrow> ctx" where
  "handleTxGetProjection en tid body c =
     (case get_projection_request (sv_opts (snd c)) body of
        Inl e \<Rightarrow> txFail en tid e c
      | Inr key \<Rightarrow>
          on_tx en (Registry_GetProjection (en_faults en) tid key (sv_txs (snd c)))
            (\<lambda>(payload, found) (sw, s).
              if \<not> found then (writeError 404 ''ProjectionNotFound'' [] sw, s)
              else (payload_response [] payload sw, s)) c)"

text \<open>\<open>None\<close> of \<open>toTx\<close> is a nil dereference; \<open>toTx_valid\<close> shows a checked request has none.\<close>

definition tx_writes :: "Create list \<Rightarrow> Create list \<Rightarrow> Key list \<Rightarrow> TxWrites option" where
  "tx_writes create replace delete =
     (case (toTx create, toTx replace) of
        (Some cs, Some rs) \<Rightarrow> Some \<lparr>tw_create = cs, tw_replace = rs, tw_delete = delete\<rparr>
      | _ \<Rightarrow> None)"

definition handleTxWriteProjections :: "env \<Rightarrow> string \<Rightarrow> request_body \<Rightarrow> ctx \<Rightarrow> ctx option" where
  "handleTxWriteProjections en tid body c =
     (case tx_projections_request (sv_opts (snd c)) body of
        Inl e \<Rightarrow> Some (txFail en tid e c)
      | Inr (create, replace, delete) \<Rightarrow>
          map_option (\<lambda>w.
            on_tx en (Registry_WriteProjections (en_now en) tid w (sv_txs (snd c)))
              (\<lambda>t (sw, s). (write_response t sw, s)) c)
          (tx_writes create replace delete))"

definition handleTxCommit :: "env \<Rightarrow> string \<Rightarrow> ctx \<Rightarrow> ctx" where
  "handleTxCommit en tid c =
     on_tx en (Commit (en_turn en) tid (sv_txs (snd c))) (\<lambda>_ (sw, s). (no_content sw, s)) c"

definition handleTxAbandon :: "env \<Rightarrow> string \<Rightarrow> ctx \<Rightarrow> ctx" where
  "handleTxAbandon en tid c =
     (case Abandon tid (sv_txs (snd c)) of
        (err, r) \<Rightarrow> on_tx en (case err of Some e \<Rightarrow> Inl e | None \<Rightarrow> Inr (), r) (\<lambda>_ (sw, s). (no_content sw, s)) c)"

section \<open>Routes\<close>

datatype endpoint =
    EReadEvents | EWriteProjections | EGetProjection | EDeleteProjectionsByType string | EDeleteAllProjections
  | ETxBegin | ETxReadEvents string | ETxWriteEvents string | ETxGetProjection string | ETxWriteProjections string
  | ETxCommit string | ETxAbandon string | EPause | EResume | EOptimize | EHealth | EStats | EDeleteEvents

text \<open>A pattern of \<open>http.ServeMux\<close>: literal segments, and wildcards, which match any one that is not empty.\<close>

datatype segment = Lit string | Wild

definition no_value :: "endpoint \<Rightarrow> string list \<Rightarrow> endpoint" where
  "no_value e vs = e"

definition one_value :: "(string \<Rightarrow> endpoint) \<Rightarrow> string list \<Rightarrow> endpoint" where
  "one_value f vs = f (hd vs)"

definition routes :: "bool \<Rightarrow> (string \<times> segment list \<times> (string list \<Rightarrow> endpoint)) list" where
  "routes devMode =
     [(''QUERY'', [Lit ''events''], no_value EReadEvents),
      (''POST'', [Lit ''projections''], no_value EWriteProjections),
      (''QUERY'', [Lit ''projections''], no_value EGetProjection),
      (''DELETE'', [Lit ''projections'', Wild], one_value EDeleteProjectionsByType),
      (''DELETE'', [Lit ''projections''], no_value EDeleteAllProjections),
      (''POST'', [Lit ''tx''], no_value ETxBegin),
      (''QUERY'', [Lit ''tx'', Wild, Lit ''events''], one_value ETxReadEvents),
      (''POST'', [Lit ''tx'', Wild, Lit ''events''], one_value ETxWriteEvents),
      (''QUERY'', [Lit ''tx'', Wild, Lit ''projections''], one_value ETxGetProjection),
      (''POST'', [Lit ''tx'', Wild, Lit ''projections''], one_value ETxWriteProjections),
      (''POST'', [Lit ''tx'', Wild, Lit ''commit''], one_value ETxCommit),
      (''DELETE'', [Lit ''tx'', Wild], one_value ETxAbandon),
      (''POST'', [Lit ''pause''], no_value EPause),
      (''POST'', [Lit ''resume''], no_value EResume),
      (''POST'', [Lit ''optimize''], no_value EOptimize),
      (''GET'', [Lit ''health''], no_value EHealth),
      (''GET'', [Lit ''stats''], no_value EStats)] @
     (if devMode then [(''DELETE'', [Lit ''events''], no_value EDeleteEvents)] else [])"

fun match_path :: "segment list \<Rightarrow> string list \<Rightarrow> string list option" where
  "match_path [] [] = Some []"
| "match_path (Lit l # ps) (s # ss) = (if l = s then match_path ps ss else None)"
| "match_path (Wild # ps) (s # ss) = (if s = [] then None else map_option ((#) s) (match_path ps ss))"
| "match_path _ _ = None"

definition method_matches :: "string \<Rightarrow> string \<Rightarrow> bool" where
  "method_matches pattern meth \<longleftrightarrow> meth = pattern \<or> pattern = ''GET'' \<and> meth = ''HEAD''"

fun find_route :: "(string \<times> segment list \<times> (string list \<Rightarrow> endpoint)) list \<Rightarrow> string \<Rightarrow> string list \<Rightarrow> endpoint option" where
  "find_route [] meth path = None"
| "find_route ((m, p, f) # rs) meth path =
     (case match_path p path of
        Some vs \<Rightarrow> if method_matches m meth then Some (f vs) else find_route rs meth path
      | None \<Rightarrow> find_route rs meth path)"

text \<open>A request: its method, the segments of its path, its Authorization header (empty when missing), its body.\<close>

record request =
  rq_method :: string
  rq_path :: "string list"
  rq_authorization :: string
  rq_body :: request_body

fun dispatch :: "env \<Rightarrow> endpoint \<Rightarrow> request_body \<Rightarrow> ctx \<Rightarrow> ctx option" where
  "dispatch en EReadEvents body c = Some (handleReadEvents en body c)"
| "dispatch en EWriteProjections body c = Some (handleWriteProjections en body c)"
| "dispatch en EGetProjection body c = Some (handleGetProjection en body c)"
| "dispatch en (EDeleteProjectionsByType typ) body c = Some (handleDeleteProjectionsByType en typ c)"
| "dispatch en EDeleteAllProjections body c = Some (handleDeleteAllProjections en c)"
| "dispatch en ETxBegin body c = Some (handleTxBegin en c)"
| "dispatch en (ETxReadEvents tid) body c = Some (handleTxReadEvents en tid body c)"
| "dispatch en (ETxWriteEvents tid) body c = Some (handleTxWriteEvents en tid body c)"
| "dispatch en (ETxGetProjection tid) body c = Some (handleTxGetProjection en tid body c)"
| "dispatch en (ETxWriteProjections tid) body c = handleTxWriteProjections en tid body c"
| "dispatch en (ETxCommit tid) body c = Some (handleTxCommit en tid c)"
| "dispatch en (ETxAbandon tid) body c = Some (handleTxAbandon en tid c)"
| "dispatch en EPause body c = Some (handlePause en c)"
| "dispatch en EResume body c = Some (handleResume en c)"
| "dispatch en EOptimize body c = Some (handleOptimize en c)"
| "dispatch en EHealth body c = Some (handleHealth en c)"
| "dispatch en EStats body c = Some (handleStats en c)"
| "dispatch en EDeleteEvents body c = Some (handleDeleteEvents en c)"

text \<open>\<open>http.Error\<close>, for a path or a method with no route.\<close>

definition http_error :: "nat \<Rightarrow> string \<Rightarrow> statusWriter \<Rightarrow> statusWriter" where
  "http_error status text sw =
     fst (Write (text @ [newline_c])
       (WriteHeader status (Header_Set ''X-Content-Type-Options'' ''nosniff''
         (Header_Set ''Content-Type'' ''text/plain; charset=utf-8'' sw))))"

definition serve_mux :: "env \<Rightarrow> request \<Rightarrow> ctx \<Rightarrow> ctx option" where
  "serve_mux en rq c =
     (let (sw, s) = c; rs = routes (op_DevMode (sv_opts s)) in
      case find_route rs (rq_method rq) (rq_path rq) of
        Some e \<Rightarrow> dispatch en e (rq_body rq) c
      | None \<Rightarrow>
          if list_ex (\<lambda>(m, p, f). match_path p (rq_path rq) \<noteq> None) rs then Some (http_error 405 ''Method Not Allowed'' sw, s)
          else Some (http_error 404 ''404 page not found'' sw, s))"

section \<open>Authentication and the access log\<close>

definition bearerPrefix :: string where
  "bearerPrefix = ''Bearer ''"

definition bearerToken :: "string \<Rightarrow> string option" where
  "bearerToken h =
     (if length h < length bearerPrefix \<or>
         map fold_byte (take (length bearerPrefix) h) \<noteq> map fold_byte bearerPrefix
      then None else Some (drop (length bearerPrefix) h))"

definition constantTimeEqual :: "(string \<Rightarrow> string) \<Rightarrow> string \<Rightarrow> string \<Rightarrow> bool" where
  "constantTimeEqual sha256 a b \<longleftrightarrow> sha256 a = sha256 b"

definition withAuth :: "(string \<Rightarrow> string) \<Rightarrow> request \<Rightarrow> (ctx \<Rightarrow> ctx option) \<Rightarrow> ctx \<Rightarrow> ctx option" where
  "withAuth sha256 rq handler c =
     (let (sw, s) = c; refuse = Some (writeError 401 ''Unauthorized'' ''missing or invalid bearer token'' sw, s) in
      case bearerToken (rq_authorization rq) of
        None \<Rightarrow> refuse
      | Some presented \<Rightarrow>
          if \<not> constantTimeEqual sha256 presented (op_AuthToken (sv_opts s)) then refuse else handler c)"

text \<open>The response, the server after it, and whether the access log gets a line.\<close>

definition ServeHTTP :: "(string \<Rightarrow> string) \<Rightarrow> env \<Rightarrow> (nat \<Rightarrow> bool) \<Rightarrow> request \<Rightarrow> Server \<Rightarrow> (statusWriter \<times> Server \<times> bool) option" where
  "ServeHTTP sha256 en gone rq s =
     (let mux = serve_mux en rq;
          h = (if op_AuthToken (sv_opts s) \<noteq> [] then withAuth sha256 rq mux else mux)
      in map_option (\<lambda>(sw, s'). (sw, s', \<not> level_rank (sw_level sw) < level_rank (sv_logThreshold s)))
           (h (new_statusWriter gone, s)))"

section \<open>No handler panics\<close>

lemma then_check_elems: "then_check (Inr x) f = Inr y \<longleftrightarrow> y = x \<and> f x = None"
  by (auto simp: then_check_Inr)

lemma tx_projections_request_Inr:
  assumes "tx_projections_request opts body = Inr (create, replace, delete)"
  shows "list_all (projection_ok (op_MaxProjectionSize opts)) (map create_item create @ map create_item replace @ map key_item delete)"
  using assms
  by (auto simp: tx_projections_request_def bind_err_iffs then_check_elems validateTxProjections_def check_each_None
      split: option.splits)

lemma tx_writes_Some:
  assumes "tx_projections_request opts body = Inr (create, replace, delete)"
  shows "\<exists>w. tx_writes create replace delete = Some w"
proof -
  note ok = tx_projections_request_Inr [OF assms]
  obtain cs rs where "toTx create = Some cs" "toTx replace = Some rs"
    using toTx_valid [of "op_MaxProjectionSize opts" create] toTx_valid [of "op_MaxProjectionSize opts" replace] ok
    by auto
  then show ?thesis by (simp add: tx_writes_def)
qed

lemma dispatch_total: "\<exists>c'. dispatch en e body c = Some c'"
proof (cases e)
  case (ETxWriteProjections tid)
  show ?thesis
  proof (cases "tx_projections_request (sv_opts (snd c)) body")
    case (Inr req)
    obtain create replace delete where "req = (create, replace, delete)" by (cases req)
    with Inr tx_writes_Some [of "sv_opts (snd c)" body create replace delete] ETxWriteProjections show ?thesis
      by (auto simp: handleTxWriteProjections_def)
  qed (simp add: ETxWriteProjections handleTxWriteProjections_def)
qed simp_all

lemma serve_mux_total: "\<exists>c'. serve_mux en rq c = Some c'"
  using dispatch_total by (auto simp: serve_mux_def Let_def split: prod.split option.split)

lemma ServeHTTP_total: "\<exists>out. ServeHTTP sha256 en gone rq s = Some out"
proof -
  obtain c' where "serve_mux en rq (new_statusWriter gone, s) = Some c'" using serve_mux_total by blast
  then show ?thesis by (auto simp: ServeHTTP_def withAuth_def Let_def split: option.split prod.split)
qed

section \<open>What a response says\<close>

lemma writeError_response:
  assumes "map_of codeLevel code = Some l"
  shows "sw_status (writeError status code message sw) = status" "sw_level (writeError status code message sw) = l"
    "sw_wroteHeader (writeError status code message sw)"
  using assms by (simp_all add: writeError_def writeJSON_def Encode_def Write_def WriteHeader_def Header_Set_def logAt_def Let_def)

text \<open>
  What the answer to an error must be: its code is one of the table, which gives the level of the
  access log line, and the two codes that are counted are those of 500 and 507.
\<close>

fun answer_ok :: "nat \<times> string \<times> bool \<Rightarrow> bool" where
  "answer_ok (status, code, sent) =
     (case map_of codeLevel code of
        None \<Rightarrow> False
      | Some l \<Rightarrow>
          status \<in> set [400, 404, 409, 413, 500, 503, 507] \<and>
          (code = ''InternalError'') = (status = 500) \<and> (code = ''StorageFull'') = (status = 507) \<and>
          (l = levelError) = (status = 500 \<or> status = 507))"

lemma answers_ok [simp]:
  "answer_ok (400, ''InvalidRequest'', True)" "answer_ok (413, ''PayloadTooLarge'', True)"
  "answer_ok (409, ''ConcurrencyException'', True)" "answer_ok (404, ''TransactionNotFound'', False)"
  "answer_ok (409, ''TransactionBusy'', False)" "answer_ok (503, ''Paused'', False)"
  "answer_ok (503, ''TooManyTransactions'', False)" "answer_ok (503, ''WriteQueueFull'', False)"
  "answer_ok (503, ''ShuttingDown'', False)" "answer_ok (507, ''StorageFull'', True)"
  "answer_ok (500, ''InternalError'', True)"
  by code_simp+

lemma store_status_ok: "answer_ok (store_status e)"
  by (cases e) (simp_all del: answer_ok.simps)

lemma tx_status_ok: "answer_ok (tx_status e)"
  by (cases e rule: tx_status.cases) (simp_all only: tx_status.simps answers_ok store_status_ok)

lemma err_status_ok: "answer_ok (err_status err)"
  by (cases err) (simp_all only: err_status.simps answers_ok tx_status_ok)

lemma err_status_code:
  assumes "err_status err = (status, code, sent)"
  obtains l where "map_of codeLevel code = Some l" "(code = ''InternalError'') = (status = 500)"
    "(code = ''StorageFull'') = (status = 507)" "(l = levelError) = (status = 500 \<or> status = 507)"
    "status \<in> {400, 404, 409, 413, 500, 503, 507}"
  using err_status_ok [of err] unfolding assms answer_ok.simps by (auto split: option.splits)

section \<open>Requests that are accepted\<close>

lemma Query_Validate_wf: "Query_Validate q = None \<Longrightarrow> query_wf q"
  by (auto simp: query.check_None query_ok_def item_ok_def query_wf_def list_all_iff)

lemma parseReadRequest_Inr:
  assumes "parseReadRequest is_print opts body = Inr f" "Server_New txs opts now = Some s"
  shows "1 \<le> rf_limit f" "rf_limit f \<le> op_MaxEventsPerPage opts" "query_wf (rf_query f)"
proof -
  from assms(2) have "0 < op_DefaultEventsPerPage opts" "op_DefaultEventsPerPage opts \<le> op_MaxEventsPerPage opts"
    by (auto simp: Server_New_def split: if_splits)
  moreover obtain req where "read_filter opts req = Inr f"
    using assms(1) by (auto simp: parseReadRequest_def bind_err_iffs)
  ultimately have "1 \<le> rf_limit f \<and> rf_limit f \<le> op_MaxEventsPerPage opts \<and> Query_Validate (rf_query f) = None"
    using read_filter_Inr by blast
  then show "1 \<le> rf_limit f" "rf_limit f \<le> op_MaxEventsPerPage opts" "query_wf (rf_query f)"
    using Query_Validate_wf by blast+
qed

section \<open>Lines that go out\<close>

definition line :: "string \<Rightarrow> string" where
  "line l = l @ [newline_c]"

lemma write_line_ok:
  "\<not> sw_fails sw (length (sw_body sw)) \<Longrightarrow>
    write_line l sw = (sw\<lparr>sw_wroteHeader := True, sw_body := sw_body sw @ [line l], sw_bytes := sw_bytes sw + length (line l)\<rparr>, True)"
  by (simp add: write_line_def Write_def line_def Let_def)

lemma write_line_failed:
  "sw_fails sw (length (sw_body sw)) \<Longrightarrow> write_line l sw = (sw\<lparr>sw_wroteHeader := True\<rparr>, False)"
  by (simp add: write_line_def Write_def Let_def)

text \<open>
  What a response that started with \<open>sw\<close> has sent after trying the lines \<open>ls\<close>: all of them, or
  those before the first that failed.
\<close>

definition sends :: "string list \<Rightarrow> statusWriter \<Rightarrow> statusWriter \<Rightarrow> bool \<Rightarrow> bool" where
  "sends ls sw sw' ok \<longleftrightarrow>
     sw_fails sw' = sw_fails sw \<and> sw_status sw' = sw_status sw \<and> sw_headers sw' = sw_headers sw \<and> sw_level sw' = sw_level sw \<and>
     (sw_wroteHeader sw \<longrightarrow> sw_wroteHeader sw') \<and>
     (\<exists>n\<le>length ls. sw_body sw' = sw_body sw @ map line (take n ls) \<and>
        (if ok then n = length ls else n < length ls \<and> sw_fails sw (length (sw_body sw) + n)))"

lemma sendsI:
  assumes "n \<le> length ls" "sw_body sw' = sw_body sw @ map line (take n ls)"
    "ok \<Longrightarrow> n = length ls" "\<not> ok \<Longrightarrow> n < length ls \<and> sw_fails sw (length (sw_body sw) + n)"
    "sw_fails sw' = sw_fails sw" "sw_status sw' = sw_status sw" "sw_headers sw' = sw_headers sw" "sw_level sw' = sw_level sw"
    "sw_wroteHeader sw \<Longrightarrow> sw_wroteHeader sw'"
  shows "sends ls sw sw' ok"
  unfolding sends_def using assms by (intro conjI exI [of _ n]) auto

lemma sendsE:
  assumes "sends ls sw sw' ok"
  obtains n where "n \<le> length ls" "sw_body sw' = sw_body sw @ map line (take n ls)"
    "ok \<Longrightarrow> n = length ls" "\<not> ok \<Longrightarrow> n < length ls \<and> sw_fails sw (length (sw_body sw) + n)"
    "sw_fails sw' = sw_fails sw" "sw_status sw' = sw_status sw" "sw_headers sw' = sw_headers sw" "sw_level sw' = sw_level sw"
    "sw_wroteHeader sw \<Longrightarrow> sw_wroteHeader sw'"
  using assms unfolding sends_def by (auto split: if_splits)

lemma sends_one:
  assumes "write_line l sw = (sw', ok)"
  shows "sends [l] sw sw' ok"
proof (cases "sw_fails sw (length (sw_body sw))")
  case True
  with assms show ?thesis by (intro sendsI [where n = 0]) (auto simp: write_line_failed)
next
  case False
  with assms show ?thesis by (intro sendsI [where n = 1]) (auto simp: write_line_ok)
qed

lemma sends_none: "sends [] sw sw True"
  by (simp add: sends_def)

lemma sends_stop:
  assumes "sends ls sw sw' False"
  shows "sends (ls @ ms) sw sw' False"
  using assms
proof (rule sendsE)
  fix n assume "n \<le> length ls" "sw_body sw' = sw_body sw @ map line (take n ls)"
    "\<not> False \<Longrightarrow> n < length ls \<and> sw_fails sw (length (sw_body sw) + n)"
    "sw_fails sw' = sw_fails sw" "sw_status sw' = sw_status sw" "sw_headers sw' = sw_headers sw" "sw_level sw' = sw_level sw"
    "sw_wroteHeader sw \<Longrightarrow> sw_wroteHeader sw'"
  then show ?thesis by (intro sendsI [where n = n]) auto
qed

lemma sends_append:
  assumes "sends ls sw sw1 True" "sends ms sw1 sw2 ok"
  shows "sends (ls @ ms) sw sw2 ok"
  using assms(2)
proof (rule sendsE)
  fix n assume n: "n \<le> length ms" "sw_body sw2 = sw_body sw1 @ map line (take n ms)"
    "ok \<Longrightarrow> n = length ms" "\<not> ok \<Longrightarrow> n < length ms \<and> sw_fails sw1 (length (sw_body sw1) + n)"
    "sw_fails sw2 = sw_fails sw1" "sw_status sw2 = sw_status sw1" "sw_headers sw2 = sw_headers sw1" "sw_level sw2 = sw_level sw1"
    "sw_wroteHeader sw1 \<Longrightarrow> sw_wroteHeader sw2"
  have "sw_body sw1 = sw_body sw @ map line ls" "sw_fails sw1 = sw_fails sw" "sw_status sw1 = sw_status sw"
    "sw_headers sw1 = sw_headers sw" "sw_level sw1 = sw_level sw" "sw_wroteHeader sw \<Longrightarrow> sw_wroteHeader sw1"
    using assms(1) by (auto simp: sends_def)
  with n show ?thesis by (intro sendsI [where n = "length ls + n"]) (auto simp: add.assoc)
qed

text \<open>Lines written one after the other: a line that fails is the last one tried.\<close>

lemma sends_Cons:
  assumes "write_line l sw = (sw1, ok1)" "ok1 \<Longrightarrow> sends ls sw1 sw' ok" "\<not> ok1 \<Longrightarrow> sw' = sw1 \<and> \<not> ok"
  shows "sends (l # ls) sw sw' ok"
proof (cases ok1)
  case True
  with assms sends_one [OF assms(1)] sends_append [of "[l]" sw sw1 ls sw' ok] show ?thesis by simp
next
  case False
  with assms sends_one [OF assms(1)] sends_stop [of "[l]" sw sw1 ls] show ?thesis by simp
qed

lemma writeReadEvents_sends:
  "writeReadEvents evs sw = (sw', ok) \<Longrightarrow> sends (map (appendReadEvent []) evs) sw sw' ok"
proof (induction evs arbitrary: sw)
  case (Cons ev evs)
  obtain sw1 ok1 where one: "write_line (appendReadEvent [] ev) sw = (sw1, ok1)" by fastforce
  from Cons one show ?case by (auto intro!: sends_Cons [OF one])
qed (simp add: sends_none)

text \<open>How many more lines a read with \<open>limit\<close> sends once \<open>sent\<close> are out, of \<open>n\<close> that there are.\<close>

definition room :: "int \<Rightarrow> nat \<Rightarrow> nat \<Rightarrow> nat" where
  "room limit n sent = (if limit = 0 then n else min n (nat limit - sent))"

lemma room_0 [simp]: "room limit 0 sent = 0"
  by (simp add: room_def)

lemma room_full: "\<not> (limit = 0 \<or> int sent < limit) \<Longrightarrow> room limit n sent = 0"
  by (auto simp: room_def)

lemma room_Suc: "limit = 0 \<or> int sent < limit \<Longrightarrow> room limit (Suc n) sent = Suc (room limit n (Suc sent))"
  by (auto simp: room_def)

lemma room_le: "room limit n sent \<le> n"
  by (simp add: room_def)

lemma write_some_sends:
  "write_some limit ls sent sw = (sw', sent', ok) \<Longrightarrow>
    sends (take (room limit (length ls) sent) ls) sw sw' ok \<and> (ok \<longrightarrow> sent' = sent + room limit (length ls) sent)"
proof (induction limit ls sent sw rule: write_some.induct)
  case (2 limit l ls sent sw)
  show ?case
  proof (cases "limit = 0 \<or> int sent < limit")
    case False
    with "2.prems" show ?thesis by (auto simp: sends_none room_full)
  next
    case True
    obtain sw1 ok1 where one: "write_line l sw = (sw1, ok1)" by fastforce
    have "ok1 \<Longrightarrow> sends (take (room limit (length ls) (Suc sent)) ls) sw1 sw' ok \<and>
        (ok \<longrightarrow> sent' = Suc sent + room limit (length ls) (Suc sent))"
      and "\<not> ok1 \<Longrightarrow> sw' = sw1 \<and> \<not> ok"
      using "2.prems" "2.IH" one True by auto
    then show ?thesis
      using sends_Cons [OF one, of "take (room limit (length ls) (Suc sent)) ls" sw' ok] True
      by (cases ok1) (auto simp: room_Suc)
  qed
qed (auto simp: sends_none)

end
