(* ===== verification/Serving.thy ===== *)
theory Serving
  imports Api
begin

text \<open>
  What the server guarantees request by request: every request is answered, a server in order stays
  so, and the log changes only the way its endpoint may change it.
\<close>

section \<open>Transactions at rest\<close>

text \<open>What the API checked of everything a transaction holds.\<close>

definition tx_checked :: "transaction \<Rightarrow> bool" where
  "tx_checked t \<longleftrightarrow>
     (\<forall>e\<in>set (tx_events t). pe_time e \<noteq> 0 \<and> EventData_Validate (pe_data e) = None) \<and>
     (\<forall>c\<in>set (tx_conditions t). Query_Validate (FailIfEventsMatch c) = None) \<and>
     (case tx_open t of None \<Rightarrow> True | Some oc \<Rightarrow> Query_Validate (oc_query oc) = None)"

text \<open>No call is on a transaction, those of \<open>A\<close> apart.\<close>

definition at_rest :: "string set \<Rightarrow> Registry \<Rightarrow> bool" where
  "at_rest A r \<longleftrightarrow> (\<forall>i t. i \<notin> A \<longrightarrow> find_tx r i = Some t \<longrightarrow> \<not> tx_busy t \<and> tx_checked t)"

lemma tx_checked_flags [simp]: "tx_checked (t\<lparr>tx_busy := b\<rparr>) = tx_checked t" "tx_checked (free_tx t now) = tx_checked t"
  "\<not> tx_busy (free_tx t now)"
  by (simp_all add: tx_checked_def free_tx_def)

lemma new_tx_checked: "tx_checked (new_transaction\<lparr>tx_lastUsed := now\<rparr>)"
  by (simp add: tx_checked_def new_transaction_def)

lemma at_rest_lock: "ids_ok r \<Longrightarrow> at_rest A r \<Longrightarrow> at_rest A (lock r)"
  by (auto simp: at_rest_def find_lock split: option.splits if_splits)

lemma at_rest_txs: "r_txs r' = r_txs r \<Longrightarrow> at_rest A r \<Longrightarrow> at_rest A r'"
  by (simp add: at_rest_def find_tx_def)

lemma at_rest_writer [simp]: "at_rest A (r\<lparr>r_writer := w\<rparr>) = at_rest A r" "ids_ok (r\<lparr>r_writer := w\<rparr>) = ids_ok r"
  by (simp_all add: at_rest_def find_tx_def ids_ok_def)

lemma at_rest_stats [simp]: "at_rest A (r\<lparr>r_stats := s\<rparr>) = at_rest A r" "ids_ok (r\<lparr>r_stats := s\<rparr>) = ids_ok r"
  by (simp_all add: at_rest_def find_tx_def ids_ok_def)

lemma at_rest_end: "ids_ok r \<Longrightarrow> at_rest {i} r \<Longrightarrow> at_rest {} (end_tx i r)"
  using at_rest_lock [of r "{i}"] by (auto simp: at_rest_def find_end split: if_splits)

lemma at_rest_counts: "ids_ok r \<Longrightarrow> at_rest A r \<Longrightarrow> at_rest A (count_design r)" "ids_ok r \<Longrightarrow> at_rest A r \<Longrightarrow> at_rest A (countCommit r)"
  using at_rest_lock [of r A] by (simp_all add: at_rest_def)

lemma at_rest_release:
  assumes "ids_ok r" "at_rest {i} r" "\<And>t. find_tx r i = Some t \<Longrightarrow> tx_checked t"
  shows "at_rest {} (release i r)"
proof -
  obtain now where now: "find_tx (release i r) =
      (\<lambda>j. if j = i then map_option (\<lambda>t. free_tx t now) (find_tx (lock r) i) else find_tx (lock r) j)"
    using find_release by blast
  have "tx_checked t" if "find_tx (lock r) i = Some t" for t
    using that assms(1,3) by (auto simp: find_lock split: option.splits if_splits)
  then show ?thesis
    using at_rest_lock [OF assms(1,2)] by (auto simp: at_rest_def now)
qed

lemma at_rest_weaken: "at_rest {} r \<Longrightarrow> at_rest A r"
  by (simp add: at_rest_def)

lemma at_rest_checked: "at_rest {} r \<Longrightarrow> find_tx r i = Some t \<Longrightarrow> tx_checked t"
  by (simp add: at_rest_def)

text \<open>A call on a transaction: what its work must keep, and what the call keeps then.\<close>

definition work_rests :: "string \<Rightarrow> (transaction \<Rightarrow> Registry \<Rightarrow> (tx_error + 'a \<times> transaction) \<times> Registry) \<Rightarrow> bool" where
  "work_rests i fn \<longleftrightarrow>
     (\<forall>t r. ids_ok r \<longrightarrow> at_rest {i} r \<longrightarrow> tx_checked t \<longrightarrow>
        ids_ok (snd (fn t r)) \<and> at_rest {i} (snd (fn t r)) \<and> (\<forall>x t'. fst (fn t r) = Inr (x, t') \<longrightarrow> tx_checked t'))"

lemma do_tx_rests:
  assumes fn: "work_rests i fn" and ids: "ids_ok r" and rest: "at_rest {} r"
  shows "at_rest {} (snd (do_tx i fn r))"
proof -
  obtain res r1 where acq: "acquire i r = (res, r1)" by fastforce
  note lock = at_rest_lock [OF ids rest]
  from acq ids show ?thesis
  proof (cases rule: acquire_cases)
    case missing
    then show ?thesis using lock by (simp add: do_tx_def acq)
  next
    case (busy t)
    then show ?thesis using lock by (auto simp: at_rest_def)
  next
    case (got t)
    have t: "tx_checked (t\<lparr>tx_busy := True\<rparr>)" using at_rest_checked [OF lock got(2)] by simp
    have r1: "ids_ok r1" "at_rest {i} r1" using ids lock by (auto simp: got(4) at_rest_def find_put)
    obtain res2 r2 where run: "fn (t\<lparr>tx_busy := True\<rparr>) r1 = (res2, r2)" by fastforce
    have r2: "ids_ok r2" "at_rest {i} r2" "res2 = Inr (x, t') \<Longrightarrow> tx_checked t'" for x t'
      using fn r1 t run unfolding work_rests_def by (metis fst_conv snd_conv)+
    show ?thesis
    proof (cases res2)
      case (Inl e)
      have ended: "at_rest {} (end_tx i r2)" using at_rest_end r2 by simp
      then have "at_rest {} (if is_design e then count_design (end_tx i r2) else end_tx i r2)"
        using at_rest_counts(1) r2(1) by simp
      then have "at_rest {} (release i (if is_design e then count_design (end_tx i r2) else end_tx i r2))"
        using r2(1) by (intro at_rest_release) (auto intro: at_rest_weaken at_rest_checked simp del: find_counts)
      then show ?thesis by (simp add: do_tx_def acq got(1) run Inl Let_def)
    next
      case (Inr y)
      then obtain x t' where y: "res2 = Inr (x, t')" by (cases y) simp
      have "at_rest {i} (put_tx i t' r2)" using r2(2) by (auto simp: at_rest_def find_put split: if_splits)
      then have "at_rest {} (release i (put_tx i t' r2))"
        using r2(1) r2(3) [OF y] by (intro at_rest_release) (auto simp: find_put split: if_splits)
      then show ?thesis by (simp add: do_tx_def acq got(1) run y)
    qed
  qed
qed

lemma do_tx_writer:
  assumes "\<And>t r. r_writer (snd (fn t r)) = r_writer r"
  shows "r_writer (snd (do_tx i fn r)) = r_writer r"
proof -
  obtain res r1 where acq: "acquire i r = (res, r1)" by fastforce
  show ?thesis
    using assms [of _ r1] acquire_writer [OF acq]
    by (simp add: do_tx_def acq Let_def split: sum.split prod.split) (metis snd_conv)
qed

lemma work_rests_pure:
  assumes "\<And>t r x t'. tx_checked t \<Longrightarrow> f t r = Inr (x, t') \<Longrightarrow> tx_checked t'"
  shows "work_rests i (\<lambda>t r. (f t r, r))"
  using assms by (simp add: work_rests_def)

section \<open>Every operation leaves the transactions at rest\<close>

lemma tx_ReadEvents_checked:
  assumes "tx_ReadEvents cfg decide f t = Inr (read, t')" "tx_checked t" "Query_Validate (df_query f) = None"
  shows "tx_checked t'"
  using assms(1) by (rule tx_ReadEvents_Inr) (use assms(2,3) in \<open>simp add: tx_checked_def\<close>)

lemma tx_WriteEvents_checked:
  assumes "tx_WriteEvents cfg now events t = Inr (x, t')" "tx_checked t" "now \<noteq> 0"
    "list_all (\<lambda>e. EventData_Validate e = None) events"
  shows "tx_checked t'"
  using assms by (auto simp: tx_WriteEvents_def tx_checked_def NewPendingEvents_def list_all_iff split: option.splits if_splits)

lemma tx_GetProjection_checked:
  "tx_GetProjection get key t = Inr (x, t') \<Longrightarrow> tx_checked t \<Longrightarrow> tx_checked t'"
  by (auto simp: tx_GetProjection_def tx_checked_def Let_def split: option.splits sum.splits)

lemma tx_WriteProjections_checked:
  assumes w: "tx_WriteProjections cfg now w t = Inr (x, t')" and t: "tx_checked t"
  shows "tx_checked t'"
proof -
  have "tx_rest t' = tx_rest (t\<lparr>tx_written := tx_written t + int (length (filter (not_written (tx_projections t)) (written_keys w)))\<rparr>)"
    unfolding tx_WriteProjections_Inr(8) [OF w] by (simp only: fold_rest)
  then show ?thesis using t by (simp add: tx_rest_def tx_checked_def)
qed

lemma ReadEvents_rests:
  assumes "ids_ok r" "at_rest {} r" "Query_Validate (df_query f) = None"
  shows "at_rest {} (snd (ReadEvents faults i f r))" "r_writer (snd (ReadEvents faults i f r)) = r_writer r"
proof -
  let ?fn = "\<lambda>t r. case tx_ReadEvents (r_cfg r) (ReadDecision faults (w_store (r_writer r))) f t of
         Inl e \<Rightarrow> (Inl e, r)
       | Inr (read, t') \<Rightarrow>
           (let r1 = lock r
            in (Inr (read, t'),
                r1\<lparr>r_stats := (r_stats r1)\<lparr>ts_LargestRead := max (ts_LargestRead (r_stats r1)) (rd_count read)\<rparr>\<rparr>))"
  have "work_rests i ?fn"
    unfolding work_rests_def using assms(3)
    by (auto simp: Let_def at_rest_lock dest: tx_ReadEvents_checked split: sum.split)
  then show "at_rest {} (snd (ReadEvents faults i f r))"
    unfolding ReadEvents_def using do_tx_rests assms(1,2) by blast
  show "r_writer (snd (ReadEvents faults i f r)) = r_writer r"
    unfolding ReadEvents_def by (rule do_tx_writer) (simp add: Let_def split: sum.split prod.split)
qed

lemma WriteEvents_rests:
  assumes "ids_ok r" "at_rest {} r" "now \<noteq> 0" "list_all (\<lambda>e. EventData_Validate e = None) events"
  shows "at_rest {} (snd (WriteEvents now i events r))" "r_writer (snd (WriteEvents now i events r)) = r_writer r"
  unfolding WriteEvents_def using assms
  by (auto intro!: do_tx_rests work_rests_pure do_tx_writer intro: tx_WriteEvents_checked)

lemma GetProjection_rests:
  assumes "ids_ok r" "at_rest {} r"
  shows "at_rest {} (snd (Registry_GetProjection faults i key r))" "r_writer (snd (Registry_GetProjection faults i key r)) = r_writer r"
  unfolding Registry_GetProjection_def using assms
  by (auto intro!: do_tx_rests work_rests_pure do_tx_writer intro: tx_GetProjection_checked)

lemma WriteProjections_rests:
  assumes "ids_ok r" "at_rest {} r"
  shows "at_rest {} (snd (Registry_WriteProjections now i w r))" "r_writer (snd (Registry_WriteProjections now i w r)) = r_writer r"
  unfolding Registry_WriteProjections_def using assms
  by (auto intro!: do_tx_rests work_rests_pure do_tx_writer intro: tx_WriteProjections_checked)

lemma commit_write_rests:
  "ids_ok r \<Longrightarrow> at_rest A r \<Longrightarrow>
    at_rest A (snd (commit_write tn t writes keys r)) \<and> ids_ok (snd (commit_write tn t writes keys r))"
  by (simp add: commit_write_def at_rest_counts split: sum.split prod.split)

lemma Commit_rests:
  assumes "ids_ok r" "at_rest {} r"
  shows "at_rest {} (snd (Commit tn i r))"
  unfolding Commit_def
proof (rule do_tx_rests [OF _ assms])
  show "work_rests i (commit_tx tn i)"
    unfolding work_rests_def
  proof (intro allI impI)
    fix t r assume r: "ids_ok r" "at_rest {i} r" "tx_checked t"
    obtain writes keys where net: "netProjections t = (writes, keys)" by fastforce
    define out where "out = (if length (tx_events t) = 0 \<and> Writes_Len writes = 0 then (Inr (), countCommit r)
      else commit_write tn t writes keys r)"
    have commit: "commit_tx tn i t r =
        (if tx_open t \<noteq> None then (Inl (ErrDesign CommitWhileOpen), r) else (bind_err (fst out) (\<lambda>x. Inr (x, t)), end_tx i (snd out)))"
      by (simp add: commit_tx_def net out_def Let_def case_prod_unfold)
    have "at_rest {i} (snd out) \<and> ids_ok (snd out)"
      using r(1,2) commit_write_rests by (simp add: out_def at_rest_counts)
    then have "at_rest {i} (end_tx i (snd out))" "ids_ok (end_tx i (snd out))"
      using at_rest_weaken [OF at_rest_end] by auto
    then show "ids_ok (snd (commit_tx tn i t r)) \<and> at_rest {i} (snd (commit_tx tn i t r)) \<and>
        (\<forall>x t'. fst (commit_tx tn i t r) = Inr (x, t') \<longrightarrow> tx_checked t')"
      using r by (auto simp: commit bind_err_Inr_iff)
  qed
qed

lemma Begin_rests:
  assumes "ids_ok r" "at_rest {} r"
  shows "at_rest {} (snd (Begin i r))"
proof (cases "r_txs (snd (Begin i r)) = r_txs (lock r)")
  case True
  then show ?thesis using at_rest_txs at_rest_lock [OF assms] by blast
next
  case False
  then obtain now where "r_txs (snd (Begin i r)) = AList.update i (new_transaction\<lparr>tx_lastUsed := now\<rparr>) (r_txs (lock r))"
    using Begin_txs by blast
  then have "find_tx (snd (Begin i r)) j = (if j = i then Some (new_transaction\<lparr>tx_lastUsed := now\<rparr>) else find_tx (lock r) j)" for j
    by (simp add: find_tx_def update_conv')
  then show ?thesis
    using at_rest_lock [OF assms] new_tx_checked new_transaction_free by (simp add: at_rest_def)
qed

lemma acquire_rests:
  assumes "acquire i r = (res, r')" "ids_ok r" "at_rest {} r"
  shows "case res of Inl e \<Rightarrow> at_rest {} r' | Inr t \<Rightarrow> at_rest {i} r' \<and> ids_ok r'"
  using assms(1,2)
proof (cases rule: acquire_cases)
  case missing
  then show ?thesis using at_rest_lock assms(2,3) by simp
next
  case (busy t)
  then show ?thesis using at_rest_lock [OF assms(2,3)] by (simp add: at_rest_def)
next
  case (got t)
  then show ?thesis using at_rest_lock [OF assms(2,3)] assms(2) by (auto simp: at_rest_def find_put)
qed

lemma at_rest_gone: "ids_ok r \<Longrightarrow> at_rest {} r \<Longrightarrow> at_rest {} (release i r)"
  by (intro at_rest_release) (auto intro: at_rest_weaken at_rest_checked)

lemma Abandon_rests:
  assumes "ids_ok r" "at_rest {} r"
  shows "at_rest {} (snd (Abandon i r))" "r_writer (snd (Abandon i r)) = r_writer r"
proof -
  obtain res r1 where acq: "acquire i r = (res, r1)" by fastforce
  note r1 = acquire_rests [OF acq assms]
  show "at_rest {} (snd (Abandon i r))"
    using r1 by (cases res) (simp_all add: Abandon_def acq Let_def at_rest_gone at_rest_lock at_rest_end)
  show "r_writer (snd (Abandon i r)) = r_writer r"
    using acquire_writer [OF acq] by (simp add: Abandon_def acq Let_def split: sum.split)
qed

lemma Reject_rests:
  assumes "ids_ok r" "at_rest {} r"
  shows "at_rest {} (snd (Reject i d r))" "r_writer (snd (Reject i d r)) = r_writer r"
proof -
  obtain res r1 where acq: "acquire i r = (res, r1)" by fastforce
  note r1 = acquire_rests [OF acq assms]
  show "at_rest {} (snd (Reject i d r))"
    using r1 by (cases res) (simp_all add: Reject_def acq Let_def at_rest_gone at_rest_counts at_rest_end)
  show "r_writer (snd (Reject i d r)) = r_writer r"
    using acquire_writer [OF acq] by (simp add: Reject_def acq Let_def split: sum.split)
qed

lemma in_turn_rests:
  assumes "ids_ok r" "at_rest {} r" "r_txs (snd (fn r)) = r_txs (lock r)"
  shows "at_rest {} (snd (registry_in_turn tn fn r))"
  using in_turn_txs [of fn r tn, OF assms(3)] at_rest_txs [OF _ at_rest_lock [OF assms(1,2)]] at_rest_txs [OF _ assms(2)]
  by blast

lemma Pause_rests: "ids_ok r \<Longrightarrow> at_rest {} r \<Longrightarrow> at_rest {} (snd (Pause tn r))"
  unfolding Pause_def by (rule in_turn_rests) (simp_all add: pause_turn_txs)

lemma Resume_rests: "ids_ok r \<Longrightarrow> at_rest {} r \<Longrightarrow> at_rest {} (snd (Resume tn r))"
  unfolding Resume_def Let_def
  by (auto intro!: in_turn_rests at_rest_lock simp: resume_turn_txs)

lemmas rests = ReadEvents_rests WriteEvents_rests GetProjection_rests WriteProjections_rests Commit_rests Begin_rests
  Abandon_rests Reject_rests Pause_rests Resume_rests

section \<open>A server in order\<close>

text \<open>
  The registry keeps its invariant, no call is on a transaction, everything the transactions hold
  was checked, and the store represents the log and the projections of \<open>a\<close>.
\<close>

definition reg_ok :: "Registry \<Rightarrow> spec \<Rightarrow> bool" where
  "reg_ok r a \<longleftrightarrow> reg_inv r \<and> at_rest {} r \<and> store_rep (w_store (r_writer r)) a"

abbreviation server_ok :: "Server \<Rightarrow> spec \<Rightarrow> bool" where
  "server_ok s a \<equiv> reg_ok (sv_txs s) a"

lemma reg_okD: "reg_ok r a \<Longrightarrow> reg_inv r" "reg_ok r a \<Longrightarrow> at_rest {} r" "reg_ok r a \<Longrightarrow> store_rep (w_store (r_writer r)) a"
  "reg_ok r a \<Longrightarrow> ids_ok r"
  by (simp_all add: reg_ok_def reg_invD(1))

text \<open>What one request may do to the log, by its endpoint.\<close>

definition log_effect :: "endpoint option \<Rightarrow> spec \<Rightarrow> spec \<Rightarrow> bool" where
  "log_effect e a a' \<longleftrightarrow>
     (case e of
        Some (ETxCommit tid) \<Rightarrow>
          (\<exists>events. list_all (\<lambda>e. EventData_Validate (pe_data e) = None) events \<and>
             sp_log a' = sp_log a @ placed (sp_next a) events \<and> sp_next a' = sp_next a + int (length events))
      | Some EDeleteEvents \<Rightarrow> sp_next a' = sp_next a \<and> (sp_log a' = sp_log a \<or> sp_log a' = [])
      | _ \<Rightarrow> sp_next a' = sp_next a \<and> sp_log a' = sp_log a)"

lemma log_effect_commit: "placed (sp_next a) events = es \<Longrightarrow> list_all (\<lambda>e. EventData_Validate (pe_data e) = None) events \<Longrightarrow>
    sp_log a' = sp_log a @ es \<Longrightarrow> sp_next a' = sp_next a + int (length events) \<Longrightarrow> log_effect (Some (ETxCommit tid)) a a'"
  by (auto simp: log_effect_def)

lemma log_effect_same: "sp_next a' = sp_next a \<Longrightarrow> sp_log a' = sp_log a \<Longrightarrow> log_effect e a a'"
  by (auto simp: log_effect_def placed_def split: option.split endpoint.split intro!: exI [of _ "[]"])

lemma log_effect_refl: "log_effect e a a"
  by (simp add: log_effect_same)

section \<open>What a handler leaves of the server\<close>

lemma handleErr_server: "sv_txs (snd (handleErr en e c)) = sv_txs (snd c)" "sv_opts (snd (handleErr en e c)) = sv_opts (snd c)"
  by (auto simp: handleErr_def Let_def split: prod.split option.split)

lemma handle_op_server: "sv_txs (snd (handle_op en e c)) = sv_txs (snd c)" "sv_opts (snd (handle_op en e c)) = sv_opts (snd c)"
  by (simp_all add: handle_op_def handleErr_server)

lemma on_tx_server:
  assumes "\<And>x c. sv_txs (snd (answer x c)) = sv_txs (snd c) \<and> sv_opts (snd (answer x c)) = sv_opts (snd c)"
  shows "sv_txs (snd (on_tx en out answer c)) = snd out" "sv_opts (snd (on_tx en out answer c)) = sv_opts (snd c)"
  using assms by (auto simp: on_tx_def handleErr_server Let_def split: prod.split sum.split)

lemma txFail_server:
  "sv_opts (snd (txFail en i e c)) = sv_opts (snd c)"
  "sv_txs (snd (txFail en i e c)) = sv_txs (snd c) \<or> (\<exists>d. sv_txs (snd (txFail en i e c)) = snd (Reject i d (sv_txs (snd c))))"
  by (simp add: txFail_def handleErr_server Let_def split: prod.split)
    (auto simp: txFail_def handleErr_server Let_def case_prod_unfold)

lemma answer_turn_server:
  "sv_txs (snd (answer_turn en out c)) = (sv_txs (snd c))\<lparr>r_writer := snd out\<rparr>"
  "sv_opts (snd (answer_turn en out c)) = sv_opts (snd c)"
  by (auto simp: answer_turn_def handle_op_server with_writer_def Let_def split: prod.split sum.split)

text \<open>A handler that goes through one of the operations of the registry keeps the server in order.\<close>

definition step_ok :: "Server \<Rightarrow> endpoint \<Rightarrow> spec \<Rightarrow> Server \<Rightarrow> bool" where
  "step_ok s e a s' \<longleftrightarrow> sv_opts s' = sv_opts s \<and> (\<exists>a'. server_ok s' a' \<and> log_effect (Some e) a a')"

lemma step_same:
  assumes "server_ok s a" "sv_opts s' = sv_opts s" "reg_inv (sv_txs s')" "at_rest {} (sv_txs s')"
    "r_writer (sv_txs s') = r_writer (sv_txs s)"
  shows "step_ok s e a s'"
  using assms by (auto simp: step_ok_def reg_ok_def intro: log_effect_refl)

lemma step_lock:
  assumes "server_ok s a" "sv_opts s' = sv_opts s" "sv_txs s' \<in> {sv_txs s, lock (sv_txs s), lock (lock (sv_txs s))}"
  shows "step_ok s e a s'"
  using assms reg_okD [OF assms(1)] at_rest_lock [of "sv_txs s"] at_rest_lock [OF ids_lock, of "sv_txs s"]
  by (intro step_same) auto

lemma step_writer:
  assumes ok: "server_ok s a" and s': "sv_opts s' = sv_opts s" "sv_txs s' = (sv_txs s)\<lparr>r_writer := w\<rparr>"
    and w: "same_pause (sv_writer s) w" "keeps_log a (w_store w)"
  shows "step_ok s e a s'"
proof -
  obtain a' where "store_rep (w_store w) a'" "sp_next a' = sp_next a" "sp_log a' = sp_log a" using w(2) by (auto simp: keeps_log_def)
  moreover have "reg_inv (sv_txs s')" using reg_inv_same_pause [OF reg_okD(1) [OF ok] w(1)] by (simp add: s'(2))
  ultimately show ?thesis
    using reg_okD(2) [OF ok] by (auto simp: step_ok_def s' reg_ok_def intro: log_effect_same)
qed

lemma step_txFail:
  assumes ok: "server_ok s a"
  shows "step_ok s e a (snd (txFail en i err (sw, s)))"
proof (rule step_same [OF ok])
  let ?s' = "snd (txFail en i err (sw, s))"
  note old = reg_okD [OF ok]
  show "sv_opts ?s' = sv_opts s" by (simp add: txFail_server(1))
  from txFail_server(2) [of en i err "(sw, s)"] show "reg_inv (sv_txs ?s')" "at_rest {} (sv_txs ?s')"
    "r_writer (sv_txs ?s') = r_writer (sv_txs s)"
    using old Reject_inv Reject_rests by auto
qed

section \<open>Every handler keeps the server in order\<close>

lemma parseReadRequest_step:
  "server_ok s a \<Longrightarrow> step_ok s EReadEvents a (snd (handleReadEvents en body (sw, s)))"
  by (rule step_lock)
    (auto simp: handleReadEvents_def handleErr_server handle_op_server split: sum.split prod.split)

lemma getProjection_step:
  "server_ok s a \<Longrightarrow> step_ok s EGetProjection a (snd (handleGetProjection en body (sw, s)))"
  by (rule step_lock)
    (auto simp: handleGetProjection_def handleErr_server handle_op_server split: sum.split)

lemma health_step: "server_ok s a \<Longrightarrow> step_ok s EHealth a (snd (handleHealth en (sw, s)))"
  by (rule step_lock) (auto simp: handleHealth_def Registry_PauseInfo_def Let_def split: option.split)

lemma stats_step: "server_ok s a \<Longrightarrow> step_ok s EStats a (snd (handleStats en (sw, s)))"
  by (rule step_lock)
    (auto simp: handleStats_def Registry_PauseInfo_def Registry_Stats_def handle_op_server Let_def split: sum.split)

lemma projection_valid_payload:
  "projection_ok m (create_item c) \<Longrightarrow> c_payload c \<noteq> None" "projection_ok m (replace_item r) \<Longrightarrow> r_payload r \<noteq> None"
  by (auto simp: create_item_def replace_item_def projection_ok_def Create_Validate_def Replace_Validate_def
      validatePayload_def split: option.splits if_splits)

lemma list_all_map: "list_all P (map f xs) \<Longrightarrow> (\<And>x. P (f x) \<Longrightarrow> Q x) \<Longrightarrow> list_all Q xs"
  by (simp add: list_all_iff)

lemma write_projections_request_wf:
  assumes "write_projections_request opts body = Inr req"
  shows "writes_wf req"
proof -
  have "validateProjections req (op_MaxProjectionSize opts) = None"
    using assms
    by (auto simp: write_projections_request_def bind_err_iffs then_check_Inr validateWriteProjections_def split: if_splits prod.splits)
  then have "list_all (projection_ok (op_MaxProjectionSize opts)) (map create_item (elems (w_create req)))"
    "list_all (projection_ok (op_MaxProjectionSize opts)) (map replace_item (elems (w_replace req)))"
    by (simp_all add: validateProjections_None write_items_def)
  from list_all_map [OF this(1) projection_valid_payload(1)] list_all_map [OF this(2) projection_valid_payload(2)]
  show ?thesis by (simp add: writes_wf_def)
qed

lemma writeProjections_step:
  assumes ok: "server_ok s a"
  shows "step_ok s EWriteProjections a (snd (handleWriteProjections en body (sw, s)))"
proof (cases "write_projections_request (sv_opts s) body")
  case (Inl e)
  then show ?thesis using ok by (intro step_lock) (auto simp: handleWriteProjections_def handleErr_server)
next
  case (Inr req)
  show ?thesis
  proof (cases "Writes_Len req > 0")
    case False
    then show ?thesis using ok Inr
      by (intro step_lock) (auto simp: handleWriteProjections_def with_writer_def)
  next
    case True
    obtain res w where run: "WriteProjections (en_turn en) req (sv_writer s) = (res, w)" by fastforce
    have eq: "sv_opts (snd (handleWriteProjections en body (sw, s))) = sv_opts s"
      "sv_txs (snd (handleWriteProjections en body (sw, s))) = (sv_txs s)\<lparr>r_writer := w\<rparr>"
      using True Inr run by (auto simp: handleWriteProjections_def handle_op_server with_writer_def Let_def split: sum.split)
    have "same_pause (sv_writer s) w" "keeps_log a (w_store w)"
      using same_pause_writes [of "sv_writer s" "en_turn en" req]
        projections_keeps_log [OF reg_okD(3) [OF ok] write_projections_request_wf [OF Inr], of "en_turn en"]
      by (simp_all add: run)
    then show ?thesis by (rule step_writer [OF ok eq])
  qed
qed

lemma deletes_step:
  assumes ok: "server_ok s a"
  shows "step_ok s EDeleteAllProjections a (snd (handleDeleteAllProjections en (sw, s)))"
    and "step_ok s (EDeleteProjectionsByType typ) a (snd (handleDeleteProjectionsByType en typ (sw, s)))"
    and "step_ok s EOptimize a (snd (handleOptimize en (sw, s)))"
  unfolding handleDeleteAllProjections_def handleDeleteProjectionsByType_def handleOptimize_def
  by (rule step_writer [OF ok _ _ same_pause_deletes(2) delete_projections_keeps_log(1) [OF reg_okD(3) [OF ok]]]
      step_writer [OF ok _ _ same_pause_deletes(3) delete_projections_keeps_log(2) [OF reg_okD(3) [OF ok]]]
      step_writer [OF ok _ _ same_pause_optimize optimize_keeps_log [OF reg_okD(3) [OF ok]]];
      simp add: answer_turn_server)+

lemma deleteEvents_step:
  assumes ok: "server_ok s a"
  shows "step_ok s EDeleteEvents a (snd (handleDeleteEvents en (sw, s)))"
proof -
  let ?w = "snd (delete_in_turn (en_turn en) DeleteAllEvents (sv_writer s))"
  have "no_append a (w_store ?w)" by (rule delete_events_no_append [OF reg_okD(3) [OF ok]])
  then obtain a' where "store_rep (w_store ?w) a'" "sp_next a' = sp_next a" "sp_log a' = sp_log a \<or> sp_log a' = []"
    by (auto simp: no_append_def)
  moreover have "reg_inv ((sv_txs s)\<lparr>r_writer := ?w\<rparr>)" by (rule reg_inv_same_pause [OF reg_okD(1) [OF ok] same_pause_deletes(1)])
  ultimately show ?thesis
    using reg_okD(2) [OF ok]
    by (auto simp: step_ok_def handleDeleteEvents_def answer_turn_server reg_ok_def log_effect_def)
qed

lemma pause_step:
  assumes ok: "server_ok s a"
  shows "step_ok s EPause a (snd (handlePause en (sw, s)))" "step_ok s EResume a (snd (handleResume en (sw, s)))"
proof -
  note s = reg_okD [OF ok]
  have clock: "\<forall>n. r_clock (sv_txs s) n \<noteq> 0" using s(1) by (simp add: reg_inv_def)
  have step: "step_ok s e a s'"
    if "sv_opts s' = sv_opts s" "reg_inv (sv_txs s')" "at_rest {} (sv_txs s')" "keeps_log a (w_store (r_writer (sv_txs s')))" for e s'
    using that by (auto simp: step_ok_def reg_ok_def keeps_log_def intro: log_effect_same)
  have "sv_opts (snd (handlePause en (sw, s))) = sv_opts s"
    "sv_txs (snd (handlePause en (sw, s))) = snd (Pause (en_turn en) (sv_txs s))"
    by (simp_all add: handlePause_def handle_op_server Let_def split: prod.split sum.split)
  then show "step_ok s EPause a (snd (handlePause en (sw, s)))"
    using s Pause_inv Pause_rests pause_keeps_log [OF s(3) clock] by (intro step) simp_all
  have "keeps_log a (w_store (r_writer (snd (Resume (en_turn en) (sv_txs s)))))"
    using resume_keeps_log [of "lock (sv_txs s)" a] s(3) keeps_log_same by (simp add: Resume_def Let_def)
  moreover have "sv_opts (snd (handleResume en (sw, s))) = sv_opts s"
    "sv_txs (snd (handleResume en (sw, s))) = snd (Resume (en_turn en) (sv_txs s))"
    by (simp_all add: handleResume_def handle_op_server Let_def split: prod.split sum.split)
  ultimately show "step_ok s EResume a (snd (handleResume en (sw, s)))"
    using s Resume_inv Resume_rests by (intro step) simp_all
qed

lemma step_tx:
  assumes ok: "server_ok s a" and s': "sv_opts s' = sv_opts s" "sv_txs s' = r"
    and r: "reg_inv r" "at_rest {} r" "r_writer r = sv_writer s"
  shows "step_ok s e a s'"
  by (rule step_same [OF ok s'(1)]) (simp_all add: s'(2) r)

lemma txBegin_step: "server_ok s a \<Longrightarrow> step_ok s ETxBegin a (snd (handleTxBegin en (sw, s)))"
  unfolding handleTxBegin_def
  by (rule step_tx [where r = "snd (Begin (en_id en) (sv_txs s))"])
    (simp_all add: on_tx_server split_beta Begin_inv Begin_rests Begin_writer reg_okD)

lemma tx_read_filter_Inr: "tx_read_filter is_print opts body = Inr f \<Longrightarrow> Query_Validate (df_query f) = None"
  by (auto simp: tx_read_filter_def bind_err_iffs then_check_Inr invalid_query_def Let_def split: option.splits)

lemma txReadEvents_step:
  assumes ok: "server_ok s a"
  shows "step_ok s (ETxReadEvents i) a (snd (handleTxReadEvents en i body (sw, s)))"
proof (cases "tx_read_filter (en_is_print en) (sv_opts s) body")
  case (Inl e)
  then show ?thesis using step_txFail [OF ok] by (simp add: handleTxReadEvents_def)
next
  case (Inr f)
  note q = tx_read_filter_Inr [OF Inr]
  show ?thesis
    by (rule step_tx [OF ok, where r = "snd (ReadEvents (en_faults en) i f (sv_txs s))"])
      (use ok q in \<open>simp_all add: handleTxReadEvents_def Inr on_tx_server handleErr_server split_beta ReadEvents_inv ReadEvents_rests reg_okD\<close>)
qed

lemma tx_events_request_Inr:
  assumes "tx_events_request range_order opts body = Inr events"
  shows "list_all (\<lambda>e. EventData_Validate e = None) (eventData events)"
  using assms
  by (auto simp: tx_events_request_def bind_err_iffs then_check_Inr validateEvents_None eventData_def list_all_iff
      EventInput_Validate_def split: option.splits)

lemma txWriteEvents_step:
  assumes ok: "server_ok s a" and now: "en_now en \<noteq> 0"
  shows "step_ok s (ETxWriteEvents i) a (snd (handleTxWriteEvents en i body (sw, s)))"
proof (cases "tx_events_request (en_range_order en) (sv_opts s) body")
  case (Inl e)
  then show ?thesis using step_txFail [OF ok] by (simp add: handleTxWriteEvents_def)
next
  case (Inr events)
  note valid = tx_events_request_Inr [OF Inr]
  show ?thesis
    by (rule step_tx [OF ok, where r = "snd (WriteEvents (en_now en) i (eventData events) (sv_txs s))"])
      (use ok now valid in \<open>simp_all add: handleTxWriteEvents_def Inr on_tx_server split_beta WriteEvents_inv WriteEvents_rests reg_okD\<close>)
qed

lemma txGetProjection_step:
  assumes ok: "server_ok s a"
  shows "step_ok s (ETxGetProjection i) a (snd (handleTxGetProjection en i body (sw, s)))"
proof (cases "get_projection_request (sv_opts s) body")
  case (Inl e)
  then show ?thesis using step_txFail [OF ok] by (simp add: handleTxGetProjection_def)
next
  case (Inr key)
  show ?thesis
    by (rule step_tx [OF ok, where r = "snd (Registry_GetProjection (en_faults en) i key (sv_txs s))"])
      (use ok in \<open>simp_all add: handleTxGetProjection_def Inr on_tx_server split_beta GetProjection_inv GetProjection_rests reg_okD\<close>)
qed

lemma txWriteProjections_step:
  assumes ok: "server_ok s a" and run: "handleTxWriteProjections en i body (sw, s) = Some c'"
  shows "step_ok s (ETxWriteProjections i) a (snd c')"
proof (cases "tx_projections_request (sv_opts s) body")
  case (Inl e)
  then show ?thesis using step_txFail [OF ok] run by (auto simp: handleTxWriteProjections_def)
next
  case (Inr req)
  then obtain w where "c' = on_tx en (Registry_WriteProjections (en_now en) i w (sv_txs s))
      (\<lambda>t (sw, s). (write_response t sw, s)) (sw, s)"
    using run by (auto simp: handleTxWriteProjections_def split: prod.splits)
  then show ?thesis
    by (intro step_tx [OF ok, where r = "snd (Registry_WriteProjections (en_now en) i w (sv_txs s))"])
      (use ok in \<open>simp_all add: on_tx_server split_beta WriteProjections_inv WriteProjections_rests reg_okD\<close>)
qed

lemma txAbandon_step:
  assumes ok: "server_ok s a"
  shows "step_ok s (ETxAbandon i) a (snd (handleTxAbandon en i (sw, s)))"
  by (rule step_tx [OF ok, where r = "snd (Abandon i (sv_txs s))"])
    (use ok in \<open>simp_all add: handleTxAbandon_def on_tx_server split_beta Abandon_inv Abandon_rests reg_okD\<close>)

lemma Commit_missing: "find_tx (lock r) i = None \<Longrightarrow> Commit tn i r = (Inl ErrNotFound, lock r)"
  by (simp add: Commit_def do_tx_def acquire_def find_tx_def Let_def)

lemma event_valid_tags: "EventData_Validate e = None \<Longrightarrow> tags_distinct e"
  using event_ok_tags EventData_Validate_None by blast

lemma Commit_effect:
  assumes ok: "reg_ok r a" and room: "sp_next a + cf_MaxEventsPerTx (r_cfg r) \<le> max_i64"
  shows "\<exists>a'. reg_ok (snd (Commit tn i r)) a' \<and> log_effect (Some (ETxCommit i)) a a'"
proof (cases "find_tx (lock r) i")
  case None
  then show ?thesis
    using reg_okD [OF ok] by (auto simp: Commit_missing reg_ok_def at_rest_lock intro: log_effect_refl)
next
  case (Some t)
  note r = reg_okD [OF ok]
  have t: "\<not> tx_busy t" "tx_checked t" using at_rest_lock [OF r(4,2)] Some by (auto simp: at_rest_def)
  have "int (length (tx_events t)) \<le> cf_MaxEventsPerTx (r_cfg r)"
    using reg_invD(3) [OF reg_inv_lock [OF r(1)] Some] by (simp add: tx_inv_def)
  then have wf: "tx_wf a t"
    using t(2) room event_valid_tags Query_Validate_wf by (auto simp: tx_wf_def tx_checked_def)
  obtain res r' where run: "Commit tn i r = (res, r')" by fastforce
  have r': "reg_inv r'" "at_rest {} r'" using Commit_inv [OF r(1), of tn i] Commit_rests [OF r(4,2), of tn i] by (simp_all add: run)
  have valid: "list_all (\<lambda>e. EventData_Validate (pe_data e) = None) (tx_events t)"
    using t(2) by (simp add: tx_checked_def list_all_iff)
  note spec = Commit_spec [OF r(1,3) Some t(1) wf run]
  show ?thesis
  proof (cases "w_store (r_writer r') = w_store (r_writer r)")
    case True
    then show ?thesis using r r' by (auto simp: run reg_ok_def intro: log_effect_refl)
  next
    case False
    then obtain a' where a': "store_rep (w_store (r_writer r')) a'" "committed t a a'"
      using spec by (auto simp: commit_done_def split: sum.splits if_splits)
    then have "log_effect (Some (ETxCommit i)) a a'"
      using valid by (intro log_effect_commit [OF refl]) (auto simp: committed_def)
    with a' r' show ?thesis by (auto simp: run reg_ok_def)
  qed
qed

lemma txCommit_step:
  assumes ok: "server_ok s a" and room: "sp_next a + cf_MaxEventsPerTx (r_cfg (sv_txs s)) \<le> max_i64"
  shows "step_ok s (ETxCommit i) a (snd (handleTxCommit en i (sw, s)))"
  using Commit_effect [OF ok room, of "en_turn en" i]
  by (auto simp: step_ok_def handleTxCommit_def on_tx_server split_beta)

lemma dispatch_step:
  assumes ok: "server_ok s a" and room: "sp_next a + cf_MaxEventsPerTx (r_cfg (sv_txs s)) \<le> max_i64"
    and now: "en_now en \<noteq> 0" and run: "dispatch en e body (sw, s) = Some c'"
  shows "step_ok s e a (snd c')"
  using run ok room now
  by (cases e)
    (auto intro: parseReadRequest_step getProjection_step health_step stats_step writeProjections_step deletes_step
      deleteEvents_step pause_step txBegin_step txReadEvents_step txWriteEvents_step txGetProjection_step
      txWriteProjections_step txAbandon_step txCommit_step)

text \<open>The endpoint of a request; nothing but development mode gives the one that deletes the events.\<close>

definition endpoint_of :: "Server \<Rightarrow> request \<Rightarrow> endpoint option" where
  "endpoint_of s rq = find_route (routes (op_DevMode (sv_opts s))) (rq_method rq) (rq_path rq)"

lemma find_route_not: "list_all (\<lambda>(m, p, f). \<forall>vs. f vs \<noteq> e) rs \<Longrightarrow> find_route rs meth path \<noteq> Some e"
  by (induction rs) (auto split: option.splits if_splits)

lemma no_deletes_in_production:
  assumes "\<not> op_DevMode (sv_opts s)"
  shows "endpoint_of s rq \<noteq> Some EDeleteEvents"
  unfolding endpoint_of_def
  by (rule find_route_not) (use assms in \<open>simp add: routes_def no_value_def one_value_def\<close>)

lemma serve_mux_step:
  assumes ok: "server_ok s a" and room: "sp_next a + cf_MaxEventsPerTx (r_cfg (sv_txs s)) \<le> max_i64"
    and now: "en_now en \<noteq> 0" and run: "serve_mux en rq (sw, s) = Some c'"
  shows "sv_opts (snd c') = sv_opts s \<and> (\<exists>a'. server_ok (snd c') a' \<and> log_effect (endpoint_of s rq) a a')"
proof (cases "endpoint_of s rq")
  case None
  then have "snd c' = s" using run by (auto simp: serve_mux_def endpoint_of_def Let_def split: if_splits)
  then show ?thesis using ok by (auto intro: log_effect_refl)
next
  case (Some e)
  then have "dispatch en e (rq_body rq) (sw, s) = Some c'" using run by (simp add: serve_mux_def endpoint_of_def Let_def)
  from dispatch_step [OF ok room now this] Some show ?thesis by (simp add: step_ok_def)
qed

lemma ServeHTTP_step:
  assumes ok: "server_ok s a" and room: "sp_next a + cf_MaxEventsPerTx (r_cfg (sv_txs s)) \<le> max_i64"
    and now: "en_now en \<noteq> 0"
  obtains sw s' logged a' where "ServeHTTP sha256 en gone rq s = Some (sw, s', logged)" "sv_opts s' = sv_opts s"
    "server_ok s' a'" "log_effect (endpoint_of s rq) a a'"
proof -
  obtain sw s' logged where run: "ServeHTTP sha256 en gone rq s = Some (sw, s', logged)"
    using ServeHTTP_total [of sha256 en gone rq s] by auto
  have "s' = s \<or> (\<exists>sw'. serve_mux en rq (new_statusWriter gone, s) = Some (sw', s'))"
    using run by (auto simp: ServeHTTP_def withAuth_def Let_def split: if_splits option.splits)
  then have "sv_opts s' = sv_opts s \<and> (\<exists>a'. server_ok s' a' \<and> log_effect (endpoint_of s rq) a a')"
    using serve_mux_step [OF ok room now] ok log_effect_refl by fastforce
  with run that show thesis by blast
qed

section \<open>What a read answers\<close>

definition page_lines :: "Event list \<Rightarrow> ReadFilter \<Rightarrow> string list" where
  "page_lines evs f =
     (let found = in_order (rf_backwards f) (matching evs (rf_query f) (case rf_after f of Some a \<Rightarrow> a | None \<Rightarrow> 0))
      in map Event_MarshalJSON (take (nat (rf_limit f)) found) @ [encode (readTrailer (nat (rf_limit f) < length found))])"

lemma read_event_line: "appendReadEvent [] (read_event e) = Event_MarshalJSON e"
  using appendReadEvent_stored [of "[]" e] by (simp add: read_event_def)

lemma writePage_sends:
  assumes "writePage (spec_page evs f) sw = (sw', ok)"
  shows "sends (page_lines evs f) (WriteHeader 200 (Header_Set ''Content-Type'' ''application/x-ndjson'' sw)) sw' ok"
proof -
  let ?page = "spec_page evs f" and ?sw = "WriteHeader 200 (Header_Set ''Content-Type'' ''application/x-ndjson'' sw)"
  obtain sw1 ok1 where one: "writeReadEvents (pg_events ?page) ?sw = (sw1, ok1)" by fastforce
  note first = writeReadEvents_sends [OF one]
  have lines: "page_lines evs f = map (appendReadEvent []) (pg_events ?page) @ [encode (readTrailer (pg_has_more ?page))]"
    by (simp add: page_lines_def spec_page_def Let_def read_event_line comp_def)
  show ?thesis
  proof (cases ok1)
    case True
    then have "write_line (encode (readTrailer (pg_has_more ?page))) sw1 = (sw', ok)"
      using assms one by (simp add: writePage_def)
    from sends_append [OF _ sends_one [OF this]] first True show ?thesis by (simp add: lines)
  next
    case False
    then have "sw' = sw1" "\<not> ok" using assms one by (simp_all add: writePage_def)
    with sends_stop first False show ?thesis by (simp add: lines)
  qed
qed

lemma handleErr_gone: "sw_wroteHeader sw \<Longrightarrow> handleErr en ClientGone (sw, s) = (sw, s)"
  by (simp add: handleErr_def Let_def)

lemma handleReadEvents_sends:
  assumes rep: "store_rep (sv_store s) a" and parse: "parseReadRequest (en_is_print en) (sv_opts s) body = Inr f"
    and lims: "0 < op_DefaultEventsPerPage (sv_opts s)" "op_DefaultEventsPerPage (sv_opts s) \<le> op_MaxEventsPerPage (sv_opts s)"
      "op_MaxEventsPerPage (sv_opts s) < max_i64"
    and faults: "en_faults en = no_faults"
  obtains sw' ok where "handleReadEvents en body (sw, s) = (sw', s)"
    "sends (page_lines (sp_log a) f) (WriteHeader 200 (Header_Set ''Content-Type'' ''application/x-ndjson'' sw)) sw' ok"
proof -
  obtain req where "read_filter (sv_opts s) req = Inr f" using parse by (auto simp: parseReadRequest_def bind_err_iffs)
  from read_filter_Inr [OF this lims(1,2)] lims(3) have f: "1 \<le> rf_limit f" "rf_limit f < max_i64" "query_wf (rf_query f)"
    using Query_Validate_wf by auto
  from Read_spec [OF rep f(3,1,2), of no_faults] have page: "Read no_faults (sv_store s) f = Inr (spec_page (sp_log a) f)"
    by (cases "Read no_faults (sv_store s) f") auto
  obtain sw1 ok where w: "writePage (spec_page (sp_log a) f) sw = (sw1, ok)" by fastforce
  note sent = writePage_sends [OF w]
  then have "sw_wroteHeader sw1" by (auto simp: sends_def WriteHeader_def)
  then have "handleReadEvents en body (sw, s) = (sw1, s)"
    using parse page w faults by (cases ok) (simp_all add: handleReadEvents_def handleErr_gone)
  from that [OF this sent] show thesis .
qed

section \<open>A refused body\<close>

text \<open>The error the endpoints of a transaction give for a body, before they reach the registry.\<close>

definition body_error :: "env \<Rightarrow> Options \<Rightarrow> endpoint \<Rightarrow> request_body \<Rightarrow> (string \<times> api_error) option" where
  "body_error en opts e body =
     (case e of
        ETxReadEvents tid \<Rightarrow> (case tx_read_filter (en_is_print en) opts body of Inl err \<Rightarrow> Some (tid, err) | Inr _ \<Rightarrow> None)
      | ETxWriteEvents tid \<Rightarrow> (case tx_events_request (en_range_order en) opts body of Inl err \<Rightarrow> Some (tid, err) | Inr _ \<Rightarrow> None)
      | ETxGetProjection tid \<Rightarrow> (case get_projection_request opts body of Inl err \<Rightarrow> Some (tid, err) | Inr _ \<Rightarrow> None)
      | ETxWriteProjections tid \<Rightarrow> (case tx_projections_request opts body of Inl err \<Rightarrow> Some (tid, err) | Inr _ \<Rightarrow> None)
      | _ \<Rightarrow> None)"

lemma dispatch_body_error:
  assumes "body_error en (sv_opts s) e body = Some (tid, err)"
  shows "dispatch en e body (sw, s) = Some (txFail en tid err (sw, s))"
  using assms
  by (cases e) (auto simp: body_error_def handleTxReadEvents_def handleTxWriteEvents_def handleTxGetProjection_def
      handleTxWriteProjections_def split: sum.splits)

lemma Reject_free:
  assumes ids: "ids_ok r" and rest: "at_rest {} r"
  shows "find_tx (snd (Reject i d r)) i = None" "fst (Reject i d r) = (if find_tx (lock r) i = None then Some ErrNotFound else None)"
proof -
  obtain res r1 where acq: "acquire i r = (res, r1)" by fastforce
  from acq ids have "find_tx (snd (Reject i d r)) i = None \<and>
      fst (Reject i d r) = (if find_tx (lock r) i = None then Some ErrNotFound else None)"
  proof (cases rule: acquire_cases)
    case missing
    then show ?thesis by (simp add: Reject_def acq)
  next
    case (busy t)
    then show ?thesis using at_rest_lock [OF ids rest] by (auto simp: at_rest_def)
  next
    case (got t)
    have "find_tx (end_tx i r1) i = None" by (simp add: find_end)
    then have "find_tx (release i (if d then count_design (end_tx i r1) else end_tx i r1)) i = None"
      by (intro release_None') (simp add: lock_None')
    then show ?thesis by (simp add: Reject_def acq got(1,2) Let_def split: if_splits)
  qed
  then show "find_tx (snd (Reject i d r)) i = None" "fst (Reject i d r) = (if find_tx (lock r) i = None then Some ErrNotFound else None)"
    by blast+
qed

lemma handleErr_status:
  assumes "\<not> en_gone en" "err \<noteq> ClientGone" "\<not> sw_wroteHeader sw"
  shows "sw_status (fst (handleErr en err (sw, s))) = fst (err_status err)"
proof -
  obtain status code sent where st: "err_status err = (status, code, sent)" by (cases "err_status err")
  then obtain l where "map_of codeLevel code = Some l" by (rule err_status_code)
  from writeError_response(1) [OF this] show ?thesis using assms by (simp add: handleErr_def st Let_def)
qed

lemma txFail_free:
  assumes ok: "server_ok s a" and err: "err \<noteq> ClientGone"
  shows "find_tx (sv_txs (snd (txFail en i err (sw, s)))) i = None"
    and "sv_writer (snd (txFail en i err (sw, s))) = sv_writer s"
    and "\<not> en_gone en \<Longrightarrow> \<not> sw_wroteHeader sw \<Longrightarrow>
      sw_status (fst (txFail en i err (sw, s))) = (if find_tx (lock (sv_txs s)) i = None then 404 else fst (err_status err))"
proof -
  note r = reg_okD [OF ok]
  define d where "d = (case err of Oversize _ _ _ _ \<Rightarrow> False | BodyTooLarge _ \<Rightarrow> False | _ \<Rightarrow> True)"
  have eq: "txFail en i err (sw, s) =
      handleErr en (if find_tx (lock (sv_txs s)) i = None then Failed ErrNotFound else err)
        (sw, s\<lparr>sv_txs := snd (Reject i d (sv_txs s))\<rparr>)"
    using err Reject_free(2) [OF r(4,2), of i d] by (simp add: txFail_def case_prod_unfold flip: d_def)
  show "find_tx (sv_txs (snd (txFail en i err (sw, s)))) i = None"
    by (simp add: eq handleErr_server Reject_free(1) [OF r(4,2)])
  show "sv_writer (snd (txFail en i err (sw, s))) = sv_writer s"
    by (simp add: eq handleErr_server Reject_rests(2) [OF r(4,2)])
  show "sw_status (fst (txFail en i err (sw, s))) = (if find_tx (lock (sv_txs s)) i = None then 404 else fst (err_status err))"
    if "\<not> en_gone en" "\<not> sw_wroteHeader sw"
    using handleErr_status [OF that(1) _ that(2)] err by (simp add: eq)
qed

section \<open>Properties\<close>

definition plain_options :: Options where
  "plain_options = \<lparr>op_Version = ''1'', op_AuthToken = ''secret'', op_DefaultEventsPerPage = 10, op_MaxEventsPerPage = 10,
     op_MaxEventSize = 100, op_MaxProjectionSize = 100, op_MaxProjectionsPerWrite = 10, op_MaxRequestBodySize = 1000,
     op_DevMode = False, op_LogLevel = ''error''\<rparr>"

lemma plain_strings: "list_all (\<lambda>c. bc c < 0x80 \<and> plain_byte (bc c)) (''query'' @ ''all'')"
  by code_simp

definition fresh_server :: Server where
  "fresh_server = \<lparr>sv_txs = s_reg started, sv_opts = plain_options, sv_startedAt = 5, sv_internalErrors = 0,
     sv_storageFullErrors = 0, sv_logThreshold = levelError, sv_fatal = []\<rparr>"

definition quiet_env :: env where
  "quiet_env = \<lparr>en_turn = quiet_turn, en_faults = no_faults, en_now = 5, en_id = ''t'', en_gone = False, en_wal_size = Inr 0,
     en_text = (\<lambda>_. []), en_is_print = (\<lambda>_. True), en_range_order = (\<lambda>kvs. kvs)\<rparr>"

definition begin_request :: request where
  "begin_request = \<lparr>rq_method = ''POST'', rq_path = [''tx''], rq_authorization = ''bearer secret'',
     rq_body = \<lparr>rb_bytes = [], rb_complete = True\<rparr>\<rparr>"

lemma fresh_server_ok: "server_ok fresh_server new_spec"
proof -
  have "reg_inv (s_reg started)" using sys.reachable_inv [OF started_reachable] by (simp add: sys_inv_def)
  then show ?thesis
    using new_store_rep by (simp add: reg_ok_def fresh_server_def at_rest_def find_tx_def started_reg)
qed








text \<open>C15. QUERY /events answers, for a request it accepts, the lines of the page that the log has for
  its filter, each the JSON of an event, and at the end whether more events match. When the
  connection breaks, the lines before the break were sent, so the last line is there only when the
  page is complete.\<close>

theorem read_serves_the_log:
  assumes "server_ok s a" "parseReadRequest (en_is_print en) (sv_opts s) body = Inr f"
    and "0 < op_DefaultEventsPerPage (sv_opts s)" "op_DefaultEventsPerPage (sv_opts s) \<le> op_MaxEventsPerPage (sv_opts s)"
      "op_MaxEventsPerPage (sv_opts s) < max_i64"
    and "en_faults en = no_faults"
  shows "\<exists>sw n. dispatch en EReadEvents body (new_statusWriter gone, s) = Some (sw, s) \<and> sw_status sw = 200 \<and>
    sw_body sw = map line (take n (page_lines (sp_log a) f)) \<and> (if gone n then True else n = length (page_lines (sp_log a) f))"
proof -
  obtain sw ok where run: "handleReadEvents en body (new_statusWriter gone, s) = (sw, s)"
    "sends (page_lines (sp_log a) f) (WriteHeader 200 (Header_Set ''Content-Type'' ''application/x-ndjson'' (new_statusWriter gone))) sw ok"
    by (rule handleReadEvents_sends [OF reg_okD(3) [OF assms(1)] assms(2-6)])
  from run(2) show ?thesis
    by (rule sendsE) (use run(1) in \<open>auto simp: WriteHeader_def Header_Set_def new_statusWriter_def split: if_splits\<close>)
qed

theorem read_serves_the_log_witness:
  "\<exists>sw. dispatch quiet_env EReadEvents \<lparr>rb_bytes = encode (JObject [(''query'', JString ''all'')]), rb_complete = True\<rparr> (new_statusWriter (\<lambda>_. False), fresh_server) =
      Some (sw, fresh_server) \<and> sw_body sw = [line (encode (readTrailer False))]"
proof -
  let ?body = "\<lparr>rb_bytes = encode (JObject [(''query'', JString ''all'')]), rb_complete = True\<rparr>"
  let ?f = "\<lparr>rf_query = QueryAll, rf_after = None, rf_limit = 10, rf_backwards = False\<rparr>"
  have "text_ok (JObject [(''query'', JString ''all'')])"
    using valid_utf8_ascii [of "''query''"] valid_utf8_ascii [of "''all''"] by (simp add: bc_def)
  then have "parse_json (encode (JObject [(''query'', JString ''all'')])) = Some (JObject [(''query'', JString ''all'')])"
    by (rule parse_encode) (simp add: max_depth_def)
  moreover have "length (encode (JObject [(''query'', JString ''all'')])) = 15"
    using plain_strings by (simp add: marshal_string_def AppendString_json_escape json_escape_plain)
  moreover have "readRequest_field (\<lambda>_. True) ''query'' (JString ''all'') no_readRequest = Some (no_readRequest\<lparr>rr_Query := QueryAll\<rparr>)"
    by code_simp
  ultimately have "parseReadRequest (\<lambda>_. True) plain_options ?body = Inr ?f"
    by (simp add: parseReadRequest_def decodeJSONStrict_def readBody_def decode_body_def plain_options_def
        read_filter_def no_readRequest_def invalid_query_def Query_Validate_def QueryAll_def Let_def)
  then have "parseReadRequest (en_is_print quiet_env) (sv_opts fresh_server) ?body = Inr ?f"
    by (simp add: quiet_env_def fresh_server_def)
  from read_serves_the_log [OF fresh_server_ok this, of "\<lambda>_. False"] show ?thesis
    by (auto simp: fresh_server_def plain_options_def quiet_env_def page_lines_def new_spec_def matching_def in_order_def)
qed

end
