(* ===== verification/Settings.thy ===== *)
theory Settings
  imports Serving
begin

text \<open>
  The configuration (package config): a TOML file, then environment variables, then defaults, and
  the checks of the result. The file system, the environment and the TOML decoder are arguments.
  Error texts are not modelled, only which rule refuses the configuration.
\<close>

section \<open>Numbers, booleans and text of the standard library\<close>

definition digit_value :: "char \<Rightarrow> nat" where
  "digit_value c = bc c - 0x30"

definition number_in :: "nat \<Rightarrow> string \<Rightarrow> nat option" where
  "number_in base s =
     (if s \<noteq> [] \<and> list_all (\<lambda>c. 0x30 \<le> bc c \<and> bc c < 0x30 + base) s
      then Some (foldl (\<lambda>n c. n * base + digit_value c) 0 s) else None)"

text \<open>\<open>strconv.Atoi\<close>: an optional sign and decimal digits, in the range of an int.\<close>

definition Atoi :: "string \<Rightarrow> int option" where
  "Atoi s =
     (case s of
        [] \<Rightarrow> None
      | c # cs \<Rightarrow>
          (let (neg, digits) = (if c = CHR ''-'' then (True, cs) else if c = CHR ''+'' then (False, cs) else (False, s))
           in case number_in 10 digits of
                None \<Rightarrow> None
              | Some n \<Rightarrow>
                  (let v = (if neg then - int n else int n)
                   in if v < - max_i64 - 1 \<or> v > max_i64 then None else Some v)))"

definition ParseBool :: "string \<Rightarrow> bool option" where
  "ParseBool s =
     (if List.member [''1'', ''t'', ''T'', ''TRUE'', ''true'', ''True''] s then Some True
      else if List.member [''0'', ''f'', ''F'', ''FALSE'', ''false'', ''False''] s then Some False
      else None)"

text \<open>\<open>strconv.ParseUint(s, 8, 32)\<close>.\<close>

definition ParseOctal :: "string \<Rightarrow> nat option" where
  "ParseOctal s = (case number_in 8 s of None \<Rightarrow> None | Some n \<Rightarrow> if int n < 2 ^ 32 then Some n else None)"

text \<open>\<open>strings.ToLower\<close>; what it does beyond ASCII is an argument.\<close>

definition lower_byte :: "char \<Rightarrow> char" where
  "lower_byte c = (if 0x41 \<le> bc c \<and> bc c \<le> 0x5A then byte (bc c + 0x20) else c)"

definition ToLower :: "(string \<Rightarrow> string) \<Rightarrow> string \<Rightarrow> string" where
  "ToLower unicode_lower s = (if list_all (\<lambda>c. bc c < 0x80) s then map lower_byte s else unicode_lower s)"

text \<open>\<open>strings.TrimSpace\<close>: the UTF-8 forms of the white space runes, off both ends.\<close>

definition space_forms :: "string list" where
  "space_forms = map EncodeRune
     ([0x09, 0x0A, 0x0B, 0x0C, 0x0D, 0x20, 0x85, 0xA0, 0x1680] @ [0x2000..<0x200B] @ [0x2028, 0x2029, 0x202F, 0x205F, 0x3000])"

definition starts_with :: "string list \<Rightarrow> string \<Rightarrow> string option" where
  "starts_with forms s = find (\<lambda>f. f \<noteq> [] \<and> take (length f) s = f) forms"

lemma starts_with_shorter: "starts_with forms s = Some f \<Longrightarrow> length (drop (length f) s) < length s"
  by (cases s) (auto simp: starts_with_def find_Some_iff)

function trim_forms :: "string list \<Rightarrow> string \<Rightarrow> string" where
  "trim_forms forms s = (case starts_with forms s of None \<Rightarrow> s | Some f \<Rightarrow> trim_forms forms (drop (length f) s))"
  by auto
termination by (relation "measure (\<lambda>(forms, s). length s)") (auto dest: starts_with_shorter)

declare trim_forms.simps [simp del]

definition TrimSpace :: "string \<Rightarrow> string" where
  "TrimSpace s = rev (trim_forms (map rev space_forms) (rev (trim_forms space_forms s)))"

section \<open>IP addresses\<close>

text \<open>The pieces of a text between the occurrences of a byte.\<close>

fun split_at :: "char \<Rightarrow> string \<Rightarrow> string list" where
  "split_at sep [] = [[]]"
| "split_at sep (c # cs) =
     (case split_at sep cs of
        [] \<Rightarrow> [[]]
      | p # ps \<Rightarrow> if c = sep then [] # p # ps else (c # p) # ps)"

text \<open>A field of dotted decimal: up to 255, with no leading zero.\<close>

definition ipv4_field :: "string \<Rightarrow> nat option" where
  "ipv4_field s =
     (case number_in 10 s of
        None \<Rightarrow> None
      | Some n \<Rightarrow> if n > 255 \<or> length s > 1 \<and> hd s = CHR ''0'' then None else Some n)"

definition parseIPv4 :: "string \<Rightarrow> nat list option" where
  "parseIPv4 s =
     (let fs = map ipv4_field (split_at (CHR ''.'') s)
      in if length fs = 4 \<and> None \<notin> set fs then Some (map the fs) else None)"

text \<open>
  The groups of an IPv6 address: \<open>groups\<close> is how many two-byte groups may still come, \<open>ip\<close> the
  bytes so far and \<open>ellipsis\<close> how many came before \<open>::\<close>. The result has what is left to read.
\<close>

fun ipv6_groups :: "nat \<Rightarrow> string \<Rightarrow> nat list \<Rightarrow> nat option \<Rightarrow> (nat list \<times> nat option \<times> string) option" where
  "ipv6_groups 0 s ip ellipsis = Some (ip, ellipsis, s)"
| "ipv6_groups (Suc groups) s ip ellipsis =
     (let group = takeWhile (\<lambda>c. hex_val c \<noteq> None) s;
          rest = dropWhile (\<lambda>c. hex_val c \<noteq> None) s;
          v = foldl (\<lambda>n c. n * 16 + the (hex_val c)) 0 group
      in if group = [] \<or> length group > 4 then None
         else
           (case rest of
              [] \<Rightarrow> Some (ip @ [v div 256, v mod 256], ellipsis, [])
            | c # s1 \<Rightarrow>
                if c = CHR ''.'' then
                  (if ellipsis = None \<and> length ip \<noteq> 12 \<or> length ip + 4 > 16 then None
                   else case parseIPv4 s of None \<Rightarrow> None | Some fs \<Rightarrow> Some (ip @ fs, ellipsis, []))
                else if c \<noteq> CHR '':'' \<or> s1 = [] then None
                else
                  (let ip1 = ip @ [v div 256, v mod 256] in
                   if hd s1 = CHR '':'' then
                     (if ellipsis \<noteq> None then None
                      else if tl s1 = [] then Some (ip1, Some (length ip1), [])
                      else ipv6_groups groups (tl s1) ip1 (Some (length ip1)))
                   else ipv6_groups groups s1 ip1 ellipsis)))"

definition parseIPv6 :: "string \<Rightarrow> nat list option" where
  "parseIPv6 s =
     (if take 2 s = ''::'' \<and> length s = 2 then Some (replicate 16 0)
      else
        (case (if take 2 s = ''::'' then ipv6_groups 8 (drop 2 s) [] (Some 0) else ipv6_groups 8 s [] None) of
           None \<Rightarrow> None
         | Some (ip, ellipsis, rest) \<Rightarrow>
             if rest \<noteq> [] then None
             else if length ip < 16 then
               (case ellipsis of
                  None \<Rightarrow> None
                | Some n \<Rightarrow> Some (take n ip @ replicate (16 - length ip) 0 @ drop n ip))
             else if ellipsis \<noteq> None then None else Some ip))"

text \<open>
  \<open>net.ParseIP\<close>: the first dot or colon tells the form, and a zone is refused. An IPv4 address is
  its four bytes here, an IPv6 one sixteen.
\<close>

definition ParseIP :: "string \<Rightarrow> nat list option" where
  "ParseIP s =
     (case find (\<lambda>c. c = CHR ''.'' \<or> c = CHR '':'' \<or> c = CHR ''%'') s of
        Some c \<Rightarrow>
          if c = CHR ''.'' then parseIPv4 s
          else if c = CHR '':'' \<and> CHR ''%'' \<notin> set s then parseIPv6 s
          else None
      | None \<Rightarrow> None)"

text \<open>\<open>IP.IsLoopback\<close>, an IPv4 address in IPv6 form counting as IPv4.\<close>

definition IsLoopback :: "nat list \<Rightarrow> bool" where
  "IsLoopback ip =
     (if length ip = 4 then ip ! 0 = 127
      else if take 12 ip = replicate 10 0 @ [255, 255] then ip ! 12 = 127
      else ip = replicate 15 0 @ [1])"

definition isLoopback :: "string \<Rightarrow> bool" where
  "isLoopback addr =
     (if addr = ''localhost'' then True
      else (case ParseIP addr of None \<Rightarrow> False | Some ip \<Rightarrow> IsLoopback ip))"

lemma isLoopback_ipv4: "isLoopback ''localhost''" "isLoopback ''127.0.0.1''" "\<not> isLoopback ''0.0.0.0''"
  "\<not> isLoopback ''127.0.0.01''" "\<not> isLoopback ''127.1''"
  by (simp_all add: isLoopback_def ParseIP_def parseIPv4_def IsLoopback_def ipv4_field_def number_in_def digit_value_def bc_def)

section \<open>Paths\<close>

text \<open>\<open>filepath.Clean\<close> on Unix, segment by segment.\<close>

definition clean_segment :: "bool \<Rightarrow> string \<Rightarrow> string list \<Rightarrow> string list" where
  "clean_segment rooted seg out =
     (if seg = [] \<or> seg = ''.'' then out
      else if seg = ''..'' then
        (if out \<noteq> [] \<and> last out \<noteq> ''..'' then butlast out else if rooted then out else out @ [seg])
      else out @ [seg])"

fun join_segments :: "string list \<Rightarrow> string" where
  "join_segments [] = []"
| "join_segments [s] = s"
| "join_segments (s # ss) = s @ ''/'' @ join_segments ss"

definition Clean :: "string \<Rightarrow> string" where
  "Clean path =
     (let rooted = (path \<noteq> [] \<and> hd path = CHR ''/'');
          out = (if rooted then ''/'' else []) @ join_segments (fold (clean_segment rooted) (split_at (CHR ''/'') path) [])
      in if out = [] then ''.'' else out)"

definition Join_path :: "string \<Rightarrow> string \<Rightarrow> string" where
  "Join_path dir name = (if dir = [] then (if name = [] then [] else Clean name) else Clean (dir @ (if name = [] then [] else ''/'' @ name)))"

lemma Join_examples:
  "Join_path ''data'' ''f'' = ''data/f'' \<and> Join_path ''/var/lib/'' ''f'' = ''/var/lib/f'' \<and> Join_path [] ''f'' = ''f'' \<and>
   Join_path ''a/../..'' ''f'' = ''../f'' \<and> Join_path ''/..'' ''f'' = ''/f'' \<and> Join_path ''./a//b/.'' ''f'' = ''a/b/f''"
  by code_simp

section \<open>The server's configuration\<close>

record server_config =
  sc_SocketPath :: string
  sc_SocketMode :: string
  sc_BindAddress :: string
  sc_Port :: int
  sc_AuthTokenFile :: string
  sc_AuthToken :: string
  sc_AllowNoAuth :: bool
  sc_DataDir :: string
  sc_DevMode :: bool
  sc_LogLevel :: string
  sc_DefaultEventsPerPage :: int
  sc_MaxEventsPerPage :: int
  sc_MaxEventSize :: int
  sc_MaxProjectionSize :: int
  sc_MaxEventsPerTx :: int
  sc_MaxReadsPerTx :: int
  sc_MaxProjectionsPerTx :: int
  sc_MaxProjectionsPerWrite :: int
  sc_MaxEventsPerTxRead :: int
  sc_MaxRequestBodySize :: int
  sc_MaxQueuedWrites :: int
  sc_ReadPoolSize :: int
  sc_TxIdleTimeout :: int
  sc_MaxOpenTx :: int

record backup_config =
  bc_SourceURL :: string
  bc_SourceSocket :: string
  bc_SourceTokenFile :: string
  bc_SourceToken :: string
  bc_DataDir :: string
  bc_PageLimit :: int

record config_file =
  fl_Server :: server_config
  fl_Backup :: backup_config

record fileBools =
  fb_AllowNoAuth :: "bool option"
  fb_DevMode :: "bool option"

datatype config_rule =
    SocketPathTooLong | BadSocketMode | NoBindAddress | BadPort | OpenWithoutToken | NoDataDir | BadLogLevel
  | NotPositive string | DefaultAboveMax | NoSource | TwoSources | BadSourceURL | SourceSocketTooLong

datatype config_error =
    ReadFailed string | ParseFailed string | BadVariables "string list" | TokenUnreadable string | TokenEmpty string
  | Refused config_rule

text \<open>
  What the configuration is read from: the files (\<open>Missing\<close> for one that does not exist), the
  environment, the TOML decoder, strict for the whole file and once more for the booleans, and the
  library's case folding and URL parsing.
\<close>

datatype file_read = Missing | Unreadable | Content string

record host =
  h_files :: "string \<Rightarrow> file_read"
  h_env :: "string \<Rightarrow> string option"
  h_toml :: "string \<Rightarrow> config_file option"
  h_toml_bools :: "string \<Rightarrow> fileBools option"
  h_unicode_lower :: "string \<Rightarrow> string"
  h_url :: "string \<Rightarrow> (string \<times> string) option"

definition no_server_config :: server_config where
  "no_server_config =
     \<lparr>sc_SocketPath = [], sc_SocketMode = [], sc_BindAddress = [], sc_Port = 0, sc_AuthTokenFile = [], sc_AuthToken = [],
      sc_AllowNoAuth = False, sc_DataDir = [], sc_DevMode = False, sc_LogLevel = [], sc_DefaultEventsPerPage = 0,
      sc_MaxEventsPerPage = 0, sc_MaxEventSize = 0, sc_MaxProjectionSize = 0, sc_MaxEventsPerTx = 0, sc_MaxReadsPerTx = 0,
      sc_MaxProjectionsPerTx = 0, sc_MaxProjectionsPerWrite = 0, sc_MaxEventsPerTxRead = 0, sc_MaxRequestBodySize = 0,
      sc_MaxQueuedWrites = 0, sc_ReadPoolSize = 0, sc_TxIdleTimeout = 0, sc_MaxOpenTx = 0\<rparr>"

definition no_backup_config :: backup_config where
  "no_backup_config =
     \<lparr>bc_SourceURL = [], bc_SourceSocket = [], bc_SourceTokenFile = [], bc_SourceToken = [], bc_DataDir = [], bc_PageLimit = 0\<rparr>"

definition empty_file :: config_file where
  "empty_file = \<lparr>fl_Server = no_server_config, fl_Backup = no_backup_config\<rparr>"

definition readFile :: "host \<Rightarrow> string \<Rightarrow> config_error + config_file \<times> string \<times> bool" where
  "readFile h path =
     (case h_files h path of
        Missing \<Rightarrow> Inr (empty_file, [], False)
      | Unreadable \<Rightarrow> Inl (ReadFailed path)
      | Content d \<Rightarrow> (case h_toml h d of None \<Rightarrow> Inl (ParseFailed path) | Some f \<Rightarrow> Inr (f, d, True)))"

definition readTokenFile :: "host \<Rightarrow> string \<Rightarrow> string \<Rightarrow> config_error + string" where
  "readTokenFile h key path =
     (case h_files h path of
        Content d \<Rightarrow> (if TrimSpace d = [] then Inl (TokenEmpty key) else Inr (TrimSpace d))
      | _ \<Rightarrow> Inl (TokenUnreadable key))"

section \<open>The environment\<close>

definition envString :: "host \<Rightarrow> string \<Rightarrow> string \<Rightarrow> string" where
  "envString h name dst = (if dst \<noteq> [] then dst else case h_env h name of None \<Rightarrow> dst | Some v \<Rightarrow> v)"

text \<open>The new value, or \<open>None\<close> for a variable that is not a number.\<close>

definition envInt :: "host \<Rightarrow> string \<Rightarrow> int \<Rightarrow> int option" where
  "envInt h name dst = (if dst \<noteq> 0 then Some dst else case h_env h name of None \<Rightarrow> Some dst | Some v \<Rightarrow> Atoi v)"

definition envBool :: "host \<Rightarrow> bool \<Rightarrow> string \<Rightarrow> bool \<Rightarrow> bool option" where
  "envBool h inFile name dst = (if inFile then Some dst else case h_env h name of None \<Rightarrow> Some dst | Some v \<Rightarrow> ParseBool v)"

text \<open>A variable: its name, and what it does to the configuration, if it can.\<close>

type_synonym variable = "string \<times> (server_config \<Rightarrow> server_config option)"

definition int_variable :: "host \<Rightarrow> string \<Rightarrow> (server_config \<Rightarrow> int) \<Rightarrow> ((int \<Rightarrow> int) \<Rightarrow> server_config \<Rightarrow> server_config) \<Rightarrow> variable" where
  "int_variable h name get upd = (name, \<lambda>c. map_option (\<lambda>n. upd (\<lambda>_. n) c) (envInt h name (get c)))"

definition bool_variable :: "host \<Rightarrow> bool \<Rightarrow> string \<Rightarrow> (server_config \<Rightarrow> bool) \<Rightarrow> ((bool \<Rightarrow> bool) \<Rightarrow> server_config \<Rightarrow> server_config) \<Rightarrow>
    variable" where
  "bool_variable h inFile name get upd = (name, \<lambda>c. map_option (\<lambda>b. upd (\<lambda>_. b) c) (envBool h inFile name (get c)))"

definition variables :: "host \<Rightarrow> fileBools \<Rightarrow> variable list" where
  "variables h inFile =
     [int_variable h ''TAMARACKDB_PORT'' sc_Port sc_Port_update,
      bool_variable h (fb_AllowNoAuth inFile \<noteq> None) ''TAMARACKDB_ALLOW_NO_AUTH'' sc_AllowNoAuth sc_AllowNoAuth_update,
      bool_variable h (fb_DevMode inFile \<noteq> None) ''TAMARACKDB_DEV_MODE'' sc_DevMode sc_DevMode_update,
      int_variable h ''TAMARACKDB_DEFAULT_EVENTS_PER_PAGE'' sc_DefaultEventsPerPage sc_DefaultEventsPerPage_update,
      int_variable h ''TAMARACKDB_MAX_EVENTS_PER_PAGE'' sc_MaxEventsPerPage sc_MaxEventsPerPage_update,
      int_variable h ''TAMARACKDB_MAX_EVENT_SIZE'' sc_MaxEventSize sc_MaxEventSize_update,
      int_variable h ''TAMARACKDB_MAX_PROJECTION_SIZE'' sc_MaxProjectionSize sc_MaxProjectionSize_update,
      int_variable h ''TAMARACKDB_MAX_EVENTS_PER_TX'' sc_MaxEventsPerTx sc_MaxEventsPerTx_update,
      int_variable h ''TAMARACKDB_MAX_READS_PER_TX'' sc_MaxReadsPerTx sc_MaxReadsPerTx_update,
      int_variable h ''TAMARACKDB_MAX_PROJECTIONS_PER_TX'' sc_MaxProjectionsPerTx sc_MaxProjectionsPerTx_update,
      int_variable h ''TAMARACKDB_MAX_PROJECTIONS_PER_WRITE'' sc_MaxProjectionsPerWrite sc_MaxProjectionsPerWrite_update,
      int_variable h ''TAMARACKDB_MAX_EVENTS_PER_TX_READ'' sc_MaxEventsPerTxRead sc_MaxEventsPerTxRead_update,
      int_variable h ''TAMARACKDB_MAX_REQUEST_BODY_SIZE'' sc_MaxRequestBodySize sc_MaxRequestBodySize_update,
      int_variable h ''TAMARACKDB_MAX_QUEUED_WRITES'' sc_MaxQueuedWrites sc_MaxQueuedWrites_update,
      int_variable h ''TAMARACKDB_READ_POOL_SIZE'' sc_ReadPoolSize sc_ReadPoolSize_update,
      int_variable h ''TAMARACKDB_TX_IDLE_TIMEOUT'' sc_TxIdleTimeout sc_TxIdleTimeout_update,
      int_variable h ''TAMARACKDB_MAX_OPEN_TX'' sc_MaxOpenTx sc_MaxOpenTx_update]"

text \<open>\<open>errors.Join\<close>: every variable is tried, and every one that cannot be read is named.\<close>

fun try_variables :: "variable list \<Rightarrow> server_config \<Rightarrow> server_config \<times> string list" where
  "try_variables [] c = (c, [])"
| "try_variables ((name, f) # vs) c =
     (case f c of
        Some c' \<Rightarrow> try_variables vs c'
      | None \<Rightarrow> (case try_variables vs c of (c', bad) \<Rightarrow> (c', name # bad)))"

definition env_strings :: "host \<Rightarrow> server_config \<Rightarrow> server_config" where
  "env_strings h c =
     c\<lparr>sc_SocketPath := envString h ''TAMARACKDB_SOCKET_PATH'' (sc_SocketPath c),
       sc_SocketMode := envString h ''TAMARACKDB_SOCKET_MODE'' (sc_SocketMode c),
       sc_BindAddress := envString h ''TAMARACKDB_BIND_ADDRESS'' (sc_BindAddress c),
       sc_AuthTokenFile := envString h ''TAMARACKDB_AUTH_TOKEN_FILE'' (sc_AuthTokenFile c),
       sc_DataDir := envString h ''TAMARACKDB_DATA_DIR'' (sc_DataDir c),
       sc_LogLevel := envString h ''TAMARACKDB_LOG_LEVEL'' (sc_LogLevel c)\<rparr>"

definition applyEnv :: "host \<Rightarrow> fileBools \<Rightarrow> server_config \<Rightarrow> config_error + server_config" where
  "applyEnv h inFile c =
     (case try_variables (variables h inFile) (env_strings h c) of
        (c', bad) \<Rightarrow> if bad = [] then Inr c' else Inl (BadVariables bad))"

section \<open>Defaults\<close>

definition default_int :: "(server_config \<Rightarrow> int) \<Rightarrow> ((int \<Rightarrow> int) \<Rightarrow> server_config \<Rightarrow> server_config) \<Rightarrow> int \<Rightarrow> server_config \<Rightarrow> server_config" where
  "default_int get upd d c = (if get c = 0 then upd (\<lambda>_. d) c else c)"

definition default_string :: "(server_config \<Rightarrow> string) \<Rightarrow> ((string \<Rightarrow> string) \<Rightarrow> server_config \<Rightarrow> server_config) \<Rightarrow> string \<Rightarrow>
    server_config \<Rightarrow> server_config" where
  "default_string get upd d c = (if get c = [] then upd (\<lambda>_. d) c else c)"

definition default_listener :: "server_config \<Rightarrow> server_config" where
  "default_listener c =
     (let c1 = (if sc_SocketPath c = [] \<and> sc_BindAddress c = [] \<and> sc_Port c = 0
                then c\<lparr>sc_SocketPath := ''/run/tamarackdb/tamarackdb.sock''\<rparr> else c);
          c2 = (if sc_SocketPath c1 \<noteq> [] then default_string sc_SocketMode sc_SocketMode_update ''0600'' c1 else c1)
      in if sc_SocketPath c2 = []
         then default_int sc_Port sc_Port_update 8085 (default_string sc_BindAddress sc_BindAddress_update ''127.0.0.1'' c2)
         else c2)"

definition default_limits :: "((server_config \<Rightarrow> int) \<times> ((int \<Rightarrow> int) \<Rightarrow> server_config \<Rightarrow> server_config) \<times> int) list" where
  "default_limits =
     [(sc_DefaultEventsPerPage, sc_DefaultEventsPerPage_update, 10000), (sc_MaxEventsPerPage, sc_MaxEventsPerPage_update, 10000),
      (sc_MaxEventSize, sc_MaxEventSize_update, 65536), (sc_MaxProjectionSize, sc_MaxProjectionSize_update, 65536),
      (sc_MaxEventsPerTx, sc_MaxEventsPerTx_update, 100), (sc_MaxReadsPerTx, sc_MaxReadsPerTx_update, 100),
      (sc_MaxProjectionsPerTx, sc_MaxProjectionsPerTx_update, 500), (sc_MaxEventsPerTxRead, sc_MaxEventsPerTxRead_update, 10000),
      (sc_MaxProjectionsPerWrite, sc_MaxProjectionsPerWrite_update, 500),
      (sc_MaxRequestBodySize, sc_MaxRequestBodySize_update, 8388608), (sc_MaxQueuedWrites, sc_MaxQueuedWrites_update, 100),
      (sc_ReadPoolSize, sc_ReadPoolSize_update, 8), (sc_TxIdleTimeout, sc_TxIdleTimeout_update, 60),
      (sc_MaxOpenTx, sc_MaxOpenTx_update, 1000)]"

definition defaults :: "server_config \<Rightarrow> server_config" where
  "defaults c =
     fold (\<lambda>(get, upd, d). default_int get upd d) default_limits
       (default_string sc_LogLevel sc_LogLevel_update ''info''
         (default_string sc_DataDir sc_DataDir_update ''data'' (default_listener c)))"

section \<open>Checks\<close>

definition maxSocketPathLen :: nat where "maxSocketPathLen = 107"

definition validSocketMode :: "string \<Rightarrow> bool" where
  "validSocketMode s = (case ParseOctal s of None \<Rightarrow> False | Some n \<Rightarrow> n \<le> 511)"

definition positive_limits :: "(string \<times> (server_config \<Rightarrow> int)) list" where
  "positive_limits =
     [(''maxEventSize'', sc_MaxEventSize), (''maxProjectionSize'', sc_MaxProjectionSize), (''maxEventsPerTx'', sc_MaxEventsPerTx),
      (''maxReadsPerTx'', sc_MaxReadsPerTx), (''maxProjectionsPerTx'', sc_MaxProjectionsPerTx),
      (''maxEventsPerTxRead'', sc_MaxEventsPerTxRead), (''maxProjectionsPerWrite'', sc_MaxProjectionsPerWrite),
      (''maxRequestBodySize'', sc_MaxRequestBodySize), (''maxQueuedWrites'', sc_MaxQueuedWrites),
      (''readPoolSize'', sc_ReadPoolSize), (''txIdleTimeout'', sc_TxIdleTimeout), (''maxOpenTx'', sc_MaxOpenTx)]"

definition Config_Validate :: "server_config \<Rightarrow> config_rule option" where
  "Config_Validate c =
     (if length (sc_SocketPath c) > maxSocketPathLen then Some SocketPathTooLong
      else if sc_SocketPath c \<noteq> [] \<and> \<not> validSocketMode (sc_SocketMode c) then Some BadSocketMode
      else if sc_SocketPath c = [] \<and> sc_BindAddress c = [] then Some NoBindAddress
      else if sc_SocketPath c = [] \<and> (sc_Port c < 1 \<or> sc_Port c > 65535) then Some BadPort
      else if sc_SocketPath c = [] \<and> sc_AuthTokenFile c = [] \<and> \<not> sc_AllowNoAuth c \<and> \<not> sc_DevMode c \<and>
              \<not> isLoopback (sc_BindAddress c) then Some OpenWithoutToken
      else if sc_DataDir c = [] then Some NoDataDir
      else if sc_LogLevel c \<notin> set [''debug'', ''info'', ''warning'', ''error''] then Some BadLogLevel
      else if sc_DefaultEventsPerPage c \<le> 0 then Some (NotPositive ''defaultEventsPerPage'')
      else if sc_MaxEventsPerPage c \<le> 0 then Some (NotPositive ''maxEventsPerPage'')
      else if sc_DefaultEventsPerPage c > sc_MaxEventsPerPage c then Some DefaultAboveMax
      else first_err (\<lambda>(name, get). if get c \<le> 0 then Some (NotPositive name) else None) positive_limits)"

definition SocketFileMode :: "server_config \<Rightarrow> nat" where
  "SocketFileMode c = (case ParseOctal (sc_SocketMode c) of Some n \<Rightarrow> n | None \<Rightarrow> 0)"

definition DatabasePath :: "server_config \<Rightarrow> string" where
  "DatabasePath c = Join_path (sc_DataDir c) ''tamarackdb.sqlite''"

section \<open>Loading\<close>

text \<open>From the environment on: the log level, the defaults, the token, the checks.\<close>

definition complete_config :: "host \<Rightarrow> server_config \<Rightarrow> config_error + server_config" where
  "complete_config h c =
     (let c1 = defaults (c\<lparr>sc_LogLevel := ToLower (h_unicode_lower h) (sc_LogLevel c)\<rparr>) in
      bind_err
        (if sc_AuthTokenFile c1 \<noteq> []
         then bind_err (readTokenFile h ''authTokenFile'' (sc_AuthTokenFile c1)) (\<lambda>t. Inr (c1\<lparr>sc_AuthToken := t\<rparr>))
         else Inr c1) (\<lambda>c2.
      case Config_Validate c2 of Some rule \<Rightarrow> Inl (Refused rule) | None \<Rightarrow> Inr c2))"

definition Load :: "host \<Rightarrow> string \<Rightarrow> config_error + server_config" where
  "Load h path =
     bind_err (readFile h path) (\<lambda>(f, d, found).
     bind_err
       (if found then (case h_toml_bools h d of None \<Rightarrow> Inl (ParseFailed path) | Some b \<Rightarrow> Inr b)
        else Inr \<lparr>fb_AllowNoAuth = None, fb_DevMode = None\<rparr>) (\<lambda>inFile.
     bind_err (applyEnv h inFile (fl_Server f)) (complete_config h)))"

section \<open>The backup tool's configuration\<close>

definition validHTTPURL :: "host \<Rightarrow> string \<Rightarrow> bool" where
  "validHTTPURL h s =
     (case h_url h s of None \<Rightarrow> False | Some (scheme, hostname) \<Rightarrow> (scheme = ''http'' \<or> scheme = ''https'') \<and> hostname \<noteq> [])"

definition applyBackupEnv :: "host \<Rightarrow> bool \<Rightarrow> backup_config \<Rightarrow> config_error + backup_config" where
  "applyBackupEnv h sourceInFile c =
     (let c1 = (if sourceInFile then c
                else c\<lparr>bc_SourceURL := (case h_env h ''TAMARACKDB_BACKUP_SOURCE_URL'' of None \<Rightarrow> bc_SourceURL c | Some v \<Rightarrow> v),
                       bc_SourceSocket := (case h_env h ''TAMARACKDB_BACKUP_SOURCE_SOCKET'' of None \<Rightarrow> bc_SourceSocket c | Some v \<Rightarrow> v)\<rparr>);
          c2 = c1\<lparr>bc_SourceTokenFile := envString h ''TAMARACKDB_BACKUP_SOURCE_TOKEN_FILE'' (bc_SourceTokenFile c1),
                  bc_DataDir := envString h ''TAMARACKDB_BACKUP_DATA_DIR'' (bc_DataDir c1)\<rparr>
      in case envInt h ''TAMARACKDB_BACKUP_PAGE_LIMIT'' (bc_PageLimit c2) of
           None \<Rightarrow> Inl (BadVariables [''TAMARACKDB_BACKUP_PAGE_LIMIT''])
         | Some n \<Rightarrow> Inr (c2\<lparr>bc_PageLimit := n\<rparr>))"

definition Backup_Validate :: "host \<Rightarrow> backup_config \<Rightarrow> config_rule option" where
  "Backup_Validate h c =
     (if bc_SourceURL c = [] \<and> bc_SourceSocket c = [] then Some NoSource
      else if bc_SourceURL c \<noteq> [] \<and> bc_SourceSocket c \<noteq> [] then Some TwoSources
      else if bc_SourceURL c \<noteq> [] \<and> \<not> validHTTPURL h (bc_SourceURL c) then Some BadSourceURL
      else if length (bc_SourceSocket c) > maxSocketPathLen then Some SourceSocketTooLong
      else if bc_DataDir c = [] then Some NoDataDir
      else if bc_PageLimit c \<le> 0 then Some (NotPositive ''pageLimit'')
      else None)"

definition LoadBackup :: "host \<Rightarrow> string \<Rightarrow> config_error + backup_config" where
  "LoadBackup h path =
     bind_err (readFile h path) (\<lambda>(f, d, found).
     bind_err (applyBackupEnv h (bc_SourceURL (fl_Backup f) \<noteq> [] \<or> bc_SourceSocket (fl_Backup f) \<noteq> []) (fl_Backup f)) (\<lambda>c.
     let c1 = (if bc_DataDir c = [] then c\<lparr>bc_DataDir := ''backup''\<rparr> else c);
         c2 = (if bc_PageLimit c1 = 0 then c1\<lparr>bc_PageLimit := 10000\<rparr> else c1) in
     bind_err
       (if bc_SourceTokenFile c2 \<noteq> []
        then bind_err (readTokenFile h ''sourceTokenFile'' (bc_SourceTokenFile c2)) (\<lambda>t. Inr (c2\<lparr>bc_SourceToken := t\<rparr>))
        else Inr c2) (\<lambda>c3.
     case Backup_Validate h c3 of Some rule \<Rightarrow> Inl (Refused rule) | None \<Rightarrow> Inr c3)))"

section \<open>What a loaded configuration has\<close>

text \<open>Every number is in its range, and the listener is one or the other.\<close>

definition config_ok :: "server_config \<Rightarrow> bool" where
  "config_ok c \<longleftrightarrow>
     (if sc_SocketPath c \<noteq> [] then length (sc_SocketPath c) \<le> 107 \<and> SocketFileMode c \<le> 511
      else sc_BindAddress c \<noteq> [] \<and> 1 \<le> sc_Port c \<and> sc_Port c \<le> 65535) \<and>
     sc_DataDir c \<noteq> [] \<and> sc_LogLevel c \<in> set [''debug'', ''info'', ''warning'', ''error''] \<and>
     0 < sc_DefaultEventsPerPage c \<and> sc_DefaultEventsPerPage c \<le> sc_MaxEventsPerPage c \<and>
     list_all (\<lambda>(name, get). 0 < get c) positive_limits"

text \<open>Who can reach the API without a token: nobody over the network, unless told so.\<close>

definition guarded :: "server_config \<Rightarrow> bool" where
  "guarded c \<longleftrightarrow>
     sc_AuthToken c \<noteq> [] \<or> sc_SocketPath c \<noteq> [] \<or> isLoopback (sc_BindAddress c) \<or> sc_AllowNoAuth c \<or> sc_DevMode c"

lemma first_err_passes: "first_err f xs = None \<longleftrightarrow> list_all (\<lambda>x. f x = None) xs"
  by (induction xs) (auto split: option.split)

lemma validSocketMode_iff: "validSocketMode s \<longleftrightarrow> (\<exists>n. ParseOctal s = Some n \<and> n \<le> 511)"
  by (simp add: validSocketMode_def split: option.split)

lemma check_None: "(if P then Some e else x) = None \<longleftrightarrow> \<not> P \<and> x = None"
  by simp

lemmas Config_Validate_None = Config_Validate_def [of c for c, THEN arg_cong [where f = "\<lambda>x. x = None"], unfolded check_None]

lemma Config_Validate_ok:
  assumes "Config_Validate c = None"
  shows "config_ok c"
proof -
  note checks = assms [unfolded Config_Validate_None first_err_passes]
  have "list_all (\<lambda>(name, get). 0 < get c) positive_limits"
    by (rule list.pred_mono_strong [of "\<lambda>x. (case x of (name, get) \<Rightarrow> if get c \<le> 0 then Some (NotPositive name) else None) = None"])
      (use checks in \<open>auto split: prod.splits if_splits\<close>)
  then show ?thesis
    using checks unfolding config_ok_def maxSocketPathLen_def validSocketMode_iff SocketFileMode_def
    by (auto simp del: list.set)
qed

lemma Config_Validate_guarded:
  assumes "Config_Validate c = None" "sc_AuthTokenFile c \<noteq> [] \<Longrightarrow> sc_AuthToken c \<noteq> []"
  shows "guarded c"
  using assms(1) [unfolded Config_Validate_None] assms(2) by (auto simp: guarded_def simp del: list.set)

lemma readTokenFile_Inr: "readTokenFile h key path = Inr t \<Longrightarrow> t \<noteq> [] \<and> (\<exists>d. h_files h path = Content d \<and> t = TrimSpace d)"
  by (auto simp: readTokenFile_def split: file_read.splits if_splits)

lemma complete_config_Inr:
  assumes "complete_config h c0 = Inr c"
  shows "Config_Validate c = None" "sc_AuthTokenFile c \<noteq> [] \<Longrightarrow>
    sc_AuthToken c \<noteq> [] \<and> (\<exists>d. h_files h (sc_AuthTokenFile c) = Content d \<and> sc_AuthToken c = TrimSpace d)"
  using assms by (auto simp: complete_config_def Let_def bind_err_iffs dest!: readTokenFile_Inr split: if_splits option.splits)

lemma Load_complete: "Load h path = Inr c \<Longrightarrow> \<exists>c0. complete_config h c0 = Inr c"
  by (auto simp: Load_def bind_err_iffs split: prod.splits)

lemma Load_Inr:
  assumes "Load h path = Inr c"
  shows "Config_Validate c = None" "config_ok c" "guarded c" "sc_AuthTokenFile c \<noteq> [] \<Longrightarrow>
    sc_AuthToken c \<noteq> [] \<and> (\<exists>d. h_files h (sc_AuthTokenFile c) = Content d \<and> sc_AuthToken c = TrimSpace d)"
proof -
  obtain c0 where c0: "complete_config h c0 = Inr c" using Load_complete [OF assms] by blast
  note valid = complete_config_Inr [OF c0]
  show "Config_Validate c = None" by (rule valid(1))
  show "config_ok c" by (rule Config_Validate_ok [OF valid(1)])
  show "guarded c" by (rule Config_Validate_guarded [OF valid(1)]) (use valid(2) in blast)
  show "sc_AuthToken c \<noteq> [] \<and> (\<exists>d. h_files h (sc_AuthTokenFile c) = Content d \<and> sc_AuthToken c = TrimSpace d)"
    if "sc_AuthTokenFile c \<noteq> []" by (rule valid(2) [OF that])
qed

section \<open>Where a setting comes from\<close>

lemma try_variables_Cons:
  "try_variables ((name, f) # vs) c = (c', []) \<longleftrightarrow> (\<exists>c1. f c = Some c1 \<and> try_variables vs c1 = (c', []))"
  by (auto split: option.split prod.split)

text \<open>The numbers: the variable, the field and the default of each.\<close>

definition number_settings :: "(string \<times> (server_config \<Rightarrow> int) \<times> int) list" where
  "number_settings =
     [(''TAMARACKDB_DEFAULT_EVENTS_PER_PAGE'', sc_DefaultEventsPerPage, 10000),
      (''TAMARACKDB_MAX_EVENTS_PER_PAGE'', sc_MaxEventsPerPage, 10000), (''TAMARACKDB_MAX_EVENT_SIZE'', sc_MaxEventSize, 65536),
      (''TAMARACKDB_MAX_PROJECTION_SIZE'', sc_MaxProjectionSize, 65536), (''TAMARACKDB_MAX_EVENTS_PER_TX'', sc_MaxEventsPerTx, 100),
      (''TAMARACKDB_MAX_READS_PER_TX'', sc_MaxReadsPerTx, 100), (''TAMARACKDB_MAX_PROJECTIONS_PER_TX'', sc_MaxProjectionsPerTx, 500),
      (''TAMARACKDB_MAX_PROJECTIONS_PER_WRITE'', sc_MaxProjectionsPerWrite, 500),
      (''TAMARACKDB_MAX_EVENTS_PER_TX_READ'', sc_MaxEventsPerTxRead, 10000),
      (''TAMARACKDB_MAX_REQUEST_BODY_SIZE'', sc_MaxRequestBodySize, 8388608), (''TAMARACKDB_MAX_QUEUED_WRITES'', sc_MaxQueuedWrites, 100),
      (''TAMARACKDB_READ_POOL_SIZE'', sc_ReadPoolSize, 8), (''TAMARACKDB_TX_IDLE_TIMEOUT'', sc_TxIdleTimeout, 60),
      (''TAMARACKDB_MAX_OPEN_TX'', sc_MaxOpenTx, 1000)]"

lemma applyEnv_numbers:
  assumes "applyEnv h inFile c = Inr c'"
  shows "list_all (\<lambda>(name, get, d). envInt h name (get c) = Some (get c')) number_settings"
    "envBool h (fb_AllowNoAuth inFile \<noteq> None) ''TAMARACKDB_ALLOW_NO_AUTH'' (sc_AllowNoAuth c) = Some (sc_AllowNoAuth c')"
    "envBool h (fb_DevMode inFile \<noteq> None) ''TAMARACKDB_DEV_MODE'' (sc_DevMode c) = Some (sc_DevMode c')"
    "sc_DataDir c' = envString h ''TAMARACKDB_DATA_DIR'' (sc_DataDir c)"
proof -
  have run: "try_variables (variables h inFile) (env_strings h c) = (c', [])"
    using assms by (auto simp: applyEnv_def split: prod.splits if_splits)
  then show "list_all (\<lambda>(name, get, d). envInt h name (get c) = Some (get c')) number_settings"
    by (auto simp: variables_def int_variable_def bool_variable_def try_variables_Cons number_settings_def env_strings_def
        simp del: try_variables.simps(2))
  from run show "envBool h (fb_AllowNoAuth inFile \<noteq> None) ''TAMARACKDB_ALLOW_NO_AUTH'' (sc_AllowNoAuth c) = Some (sc_AllowNoAuth c')"
    "envBool h (fb_DevMode inFile \<noteq> None) ''TAMARACKDB_DEV_MODE'' (sc_DevMode c) = Some (sc_DevMode c')"
    "sc_DataDir c' = envString h ''TAMARACKDB_DATA_DIR'' (sc_DataDir c)"
    by (auto simp: variables_def int_variable_def bool_variable_def try_variables_Cons env_strings_def simp del: try_variables.simps(2))
qed

lemma default_updates:
  "default_int sc_DefaultEventsPerPage sc_DefaultEventsPerPage_update d = sc_DefaultEventsPerPage_update (\<lambda>n. if n = 0 then d else n)"
  "default_int sc_MaxEventsPerPage sc_MaxEventsPerPage_update d = sc_MaxEventsPerPage_update (\<lambda>n. if n = 0 then d else n)"
  "default_int sc_MaxEventSize sc_MaxEventSize_update d = sc_MaxEventSize_update (\<lambda>n. if n = 0 then d else n)"
  "default_int sc_MaxProjectionSize sc_MaxProjectionSize_update d = sc_MaxProjectionSize_update (\<lambda>n. if n = 0 then d else n)"
  "default_int sc_MaxEventsPerTx sc_MaxEventsPerTx_update d = sc_MaxEventsPerTx_update (\<lambda>n. if n = 0 then d else n)"
  "default_int sc_MaxReadsPerTx sc_MaxReadsPerTx_update d = sc_MaxReadsPerTx_update (\<lambda>n. if n = 0 then d else n)"
  "default_int sc_MaxProjectionsPerTx sc_MaxProjectionsPerTx_update d = sc_MaxProjectionsPerTx_update (\<lambda>n. if n = 0 then d else n)"
  "default_int sc_MaxEventsPerTxRead sc_MaxEventsPerTxRead_update d = sc_MaxEventsPerTxRead_update (\<lambda>n. if n = 0 then d else n)"
  "default_int sc_MaxProjectionsPerWrite sc_MaxProjectionsPerWrite_update d = sc_MaxProjectionsPerWrite_update (\<lambda>n. if n = 0 then d else n)"
  "default_int sc_MaxRequestBodySize sc_MaxRequestBodySize_update d = sc_MaxRequestBodySize_update (\<lambda>n. if n = 0 then d else n)"
  "default_int sc_MaxQueuedWrites sc_MaxQueuedWrites_update d = sc_MaxQueuedWrites_update (\<lambda>n. if n = 0 then d else n)"
  "default_int sc_ReadPoolSize sc_ReadPoolSize_update d = sc_ReadPoolSize_update (\<lambda>n. if n = 0 then d else n)"
  "default_int sc_TxIdleTimeout sc_TxIdleTimeout_update d = sc_TxIdleTimeout_update (\<lambda>n. if n = 0 then d else n)"
  "default_int sc_MaxOpenTx sc_MaxOpenTx_update d = sc_MaxOpenTx_update (\<lambda>n. if n = 0 then d else n)"
  "default_string sc_LogLevel sc_LogLevel_update s = sc_LogLevel_update (\<lambda>t. if t = [] then s else t)"
  "default_string sc_DataDir sc_DataDir_update s = sc_DataDir_update (\<lambda>t. if t = [] then s else t)"
  by (simp_all add: fun_eq_iff default_int_def default_string_def)

text \<open>The listener's defaults leave the other settings alone.\<close>

lemma default_listener_others:
  "list_all (\<lambda>(name, get, d). get (default_listener c) = get c) number_settings"
  "sc_AllowNoAuth (default_listener c) = sc_AllowNoAuth c" "sc_DevMode (default_listener c) = sc_DevMode c"
  "sc_DataDir (default_listener c) = sc_DataDir c"
  by (simp_all add: number_settings_def default_listener_def default_int_def default_string_def Let_def)

lemma defaults_numbers:
  "list_all (\<lambda>(name, get, d). get (defaults c) = (if get c = 0 then d else get c)) number_settings"
  "sc_AllowNoAuth (defaults c) = sc_AllowNoAuth c" "sc_DevMode (defaults c) = sc_DevMode c"
  "sc_DataDir (defaults c) = (if sc_DataDir c = [] then ''data'' else sc_DataDir c)"
  using default_listener_others [of c]
  by (simp_all add: defaults_def default_limits_def default_updates number_settings_def)

lemma complete_config_gets:
  assumes "complete_config h c0 = Inr c"
  shows "list_all (\<lambda>(name, get, d). get c = (if get c0 = 0 then d else get c0)) number_settings"
    "sc_AllowNoAuth c = sc_AllowNoAuth c0" "sc_DevMode c = sc_DevMode c0"
    "sc_DataDir c = (if sc_DataDir c0 = [] then ''data'' else sc_DataDir c0)"
proof -
  define c1 where "c1 = defaults (c0\<lparr>sc_LogLevel := ToLower (h_unicode_lower h) (sc_LogLevel c0)\<rparr>)"
  obtain t where c: "c = c1\<lparr>sc_AuthToken := t\<rparr> \<or> c = c1"
    using assms by (auto simp: complete_config_def c1_def [symmetric] Let_def bind_err_iffs split: if_splits option.splits)
  note gets = defaults_numbers [of "c0\<lparr>sc_LogLevel := ToLower (h_unicode_lower h) (sc_LogLevel c0)\<rparr>", folded c1_def]
  show "list_all (\<lambda>(name, get, d). get c = (if get c0 = 0 then d else get c0)) number_settings"
    using gets(1) c by (elim disjE) (simp_all add: number_settings_def)
  show "sc_AllowNoAuth c = sc_AllowNoAuth c0" "sc_DevMode c = sc_DevMode c0"
    "sc_DataDir c = (if sc_DataDir c0 = [] then ''data'' else sc_DataDir c0)"
    using gets(2-4) c by auto
qed

text \<open>A setting of the file wins over its variable, and the variable over the default.\<close>

definition number_setting :: "int \<Rightarrow> string option \<Rightarrow> int \<Rightarrow> int" where
  "number_setting in_file var d =
     (if in_file \<noteq> 0 then in_file
      else case Option.bind var Atoi of None \<Rightarrow> d | Some n \<Rightarrow> if n = 0 then d else n)"

definition bool_setting :: "bool option \<Rightarrow> bool \<Rightarrow> string option \<Rightarrow> bool" where
  "bool_setting in_file decoded var =
     (if in_file \<noteq> None then decoded else case Option.bind var ParseBool of None \<Rightarrow> decoded | Some b \<Rightarrow> b)"

definition string_setting :: "string \<Rightarrow> string option \<Rightarrow> string \<Rightarrow> string" where
  "string_setting in_file var d =
     (if in_file \<noteq> [] then in_file else case var of None \<Rightarrow> d | Some s \<Rightarrow> if s = [] then d else s)"

lemma number_setting_eq: "envInt h name n = Some m \<Longrightarrow> (if m = 0 then d else m) = number_setting n (h_env h name) d"
  by (cases "h_env h name") (auto simp: envInt_def number_setting_def split: if_splits)

lemma bool_setting_eq: "envBool h (b \<noteq> None) name old = Some new \<Longrightarrow> new = bool_setting b old (h_env h name)"
  by (cases "h_env h name") (auto simp: envBool_def bool_setting_def split: if_splits)

lemma string_setting_eq: "(if envString h name s = [] then d else envString h name s) = string_setting s (h_env h name) d"
  by (auto simp: envString_def string_setting_def split: option.split)

lemma applied_setting:
  assumes "list_all (\<lambda>(name, get, d). envInt h name (get c) = Some (get c1)) settings"
    "list_all (\<lambda>(name, get, d). get c2 = (if get c1 = 0 then d else get c1)) settings"
  shows "list_all (\<lambda>(name, get, d). get c2 = number_setting (get c) (h_env h name) d) settings"
  using assms number_setting_eq unfolding list_all_iff by fastforce

section \<open>Properties\<close>


definition plain_host :: host where
  "plain_host = \<lparr>h_files = (\<lambda>_. Missing), h_env = (\<lambda>_. None), h_toml = (\<lambda>_. None), h_toml_bools = (\<lambda>_. None),
     h_unicode_lower = id, h_url = (\<lambda>_. None)\<rparr>"

definition plain_config :: server_config where
  "plain_config =
     \<lparr>sc_SocketPath = ''/run/tamarackdb/tamarackdb.sock'', sc_SocketMode = ''0600'', sc_BindAddress = [], sc_Port = 0,
      sc_AuthTokenFile = [], sc_AuthToken = [], sc_AllowNoAuth = False, sc_DataDir = ''data'', sc_DevMode = False,
      sc_LogLevel = ''info'', sc_DefaultEventsPerPage = 10000, sc_MaxEventsPerPage = 10000, sc_MaxEventSize = 65536,
      sc_MaxProjectionSize = 65536, sc_MaxEventsPerTx = 100, sc_MaxReadsPerTx = 100, sc_MaxProjectionsPerTx = 500,
      sc_MaxProjectionsPerWrite = 500, sc_MaxEventsPerTxRead = 10000, sc_MaxRequestBodySize = 8388608,
      sc_MaxQueuedWrites = 100, sc_ReadPoolSize = 8, sc_TxIdleTimeout = 60, sc_MaxOpenTx = 1000\<rparr>"

lemma plain_config_loads: "Load plain_host ''config.toml'' = Inr plain_config"
proof -
  have env: "applyEnv plain_host \<lparr>fb_AllowNoAuth = None, fb_DevMode = None\<rparr> no_server_config = Inr no_server_config"
    by (simp add: applyEnv_def env_strings_def envString_def variables_def int_variable_def bool_variable_def envInt_def
        envBool_def plain_host_def no_server_config_def)
  have defs: "defaults (no_server_config\<lparr>sc_LogLevel := ToLower id (sc_LogLevel no_server_config)\<rparr>) = plain_config"
    by (simp add: defaults_def default_limits_def default_int_def default_string_def default_listener_def ToLower_def
        no_server_config_def plain_config_def)
  have "Config_Validate plain_config = None"
    by (simp add: Config_Validate_def plain_config_def maxSocketPathLen_def validSocketMode_def ParseOctal_def number_in_def
        digit_value_def bc_def positive_limits_def)
  then have "complete_config plain_host no_server_config = Inr plain_config"
    using defs by (simp add: complete_config_def plain_host_def Let_def) (simp add: plain_config_def)
  moreover have "readFile plain_host ''config.toml'' = Inr (empty_file, [], False)" by (simp add: readFile_def plain_host_def)
  ultimately show ?thesis using env by (simp add: Load_def empty_file_def)
qed


end
