(* ===== verification/Startup.thy ===== *)
theory Startup
  imports Settings
begin

text \<open>
  The server process (cmd/tamarackdb-server): from its configuration to a server that listens, and
  its end. Flags, the lines it prints and the signals that end it are not modelled.
\<close>

section \<open>What the configuration becomes\<close>

text \<open>
  A \<open>time.Duration\<close> is an int64 of nanoseconds, and wraps. Times of the model are microseconds: so
  many have passed when at least that many nanoseconds have.
\<close>

definition Seconds :: "int \<Rightarrow> int" where
  "Seconds n = i64 (n * 1000000000)"

definition in_microseconds :: "int \<Rightarrow> int" where
  "in_microseconds ns = - ((- ns) div 1000)"

definition tx_config :: "server_config \<Rightarrow> Config" where
  "tx_config c =
     \<lparr>cf_IdleTimeout = in_microseconds (Seconds (sc_TxIdleTimeout c)), cf_MaxEventsPerTx = sc_MaxEventsPerTx c,
      cf_MaxReadsPerTx = sc_MaxReadsPerTx c, cf_MaxProjectionsPerTx = sc_MaxProjectionsPerTx c,
      cf_MaxEventsPerTxRead = sc_MaxEventsPerTxRead c, cf_MaxOpenTx = sc_MaxOpenTx c\<rparr>"

definition api_options :: "string \<Rightarrow> server_config \<Rightarrow> Options" where
  "api_options version c =
     \<lparr>op_Version = version, op_AuthToken = sc_AuthToken c, op_DefaultEventsPerPage = sc_DefaultEventsPerPage c,
      op_MaxEventsPerPage = sc_MaxEventsPerPage c, op_MaxEventSize = sc_MaxEventSize c,
      op_MaxProjectionSize = sc_MaxProjectionSize c, op_MaxProjectionsPerWrite = sc_MaxProjectionsPerWrite c,
      op_MaxRequestBodySize = sc_MaxRequestBodySize c, op_DevMode = sc_DevMode c, op_LogLevel = sc_LogLevel c\<rparr>"

section \<open>The socket\<close>

text \<open>What \<open>os.Lstat\<close> finds at a path, and the steps that may fail.\<close>

datatype path_info = NothingThere | CannotLook | Socket | OtherFile

datatype start_error =
    ConfigError config_error | NoDatabase string | StatError | StoreError store_error | NotASocket | CannotRemove
  | CannotListen | NoSocketDirectory | CannotChmod

definition removeStaleSocket :: "path_info \<Rightarrow> bool \<Rightarrow> start_error option \<times> path_info" where
  "removeStaleSocket found removes =
     (case found of
        NothingThere \<Rightarrow> (None, found)
      | CannotLook \<Rightarrow> (Some StatError, found)
      | OtherFile \<Rightarrow> (Some NotASocket, found)
      | Socket \<Rightarrow> if removes then (None, NothingThere) else (Some CannotRemove, found))"

text \<open>
  \<open>listenUnix\<close>: the umask before and after, and the permissions the socket file has had, in order.
  A socket is created with 0777 less the umask.
\<close>

record unix_host =
  ux_umask :: nat
  ux_socket_modes :: "nat list"

unbundle bit_operations_syntax

definition without_bits :: "nat \<Rightarrow> nat \<Rightarrow> nat" where
  "without_bits mode bits = nat (int mode AND NOT (int bits))"

definition Umask :: "nat \<Rightarrow> unix_host \<Rightarrow> nat \<times> unix_host" where
  "Umask bits u = (ux_umask u, u\<lparr>ux_umask := bits\<rparr>)"

definition Listen_socket :: "bool \<Rightarrow> unix_host \<Rightarrow> bool \<times> unix_host" where
  "Listen_socket listens u =
     (if listens then (True, u\<lparr>ux_socket_modes := ux_socket_modes u @ [without_bits 511 (ux_umask u)]\<rparr>) else (False, u))"

definition listenUnix :: "bool \<Rightarrow> bool \<Rightarrow> bool \<Rightarrow> nat \<Rightarrow> unix_host \<Rightarrow> start_error option \<times> unix_host" where
  "listenUnix listens dir_exists chmods mode u =
     (let (old, u1) = Umask 127 u; (ok, u2) = Listen_socket listens u1; (_, u3) = Umask old u2 in
      if \<not> ok then (Some (if dir_exists then CannotListen else NoSocketDirectory), u3)
      else if \<not> chmods then (Some CannotChmod, u3)
      else (None, u3\<lparr>ux_socket_modes := ux_socket_modes u3 @ [mode]\<rparr>))"

lemma listenUnix_private:
  assumes "listenUnix listens dir_exists chmods mode u = (err, u')" "ux_socket_modes u = []"
  shows "ux_umask u' = ux_umask u" "set (ux_socket_modes u') \<subseteq> {384, mode}"
proof -
  have "without_bits 511 127 = 384" by (simp add: without_bits_def)
  then show "ux_umask u' = ux_umask u" "set (ux_socket_modes u') \<subseteq> {384, mode}"
    using assms by (auto simp: listenUnix_def Umask_def Listen_socket_def Let_def split: if_splits)
qed

section \<open>Starting and stopping\<close>

definition requireDatabase :: "bool \<Rightarrow> dbfile \<Rightarrow> server_config \<Rightarrow> start_error option" where
  "requireDatabase stat_fails f c =
     (if stat_fails then Some StatError else if \<not> f_exists f then Some (NoDatabase (DatabasePath c)) else None)"

text \<open>What a start meets: its host, the file at the path of the database, faults and the clock.\<close>

record start_env =
  se_host :: host
  se_stat_fails :: bool
  se_io :: io
  se_open_faults :: faults
  se_turn :: turn
  se_clock :: "nat \<Rightarrow> gotime"
  se_now :: gotime
  se_version :: string
  se_socket :: "string \<Rightarrow> path_info"
  se_removes :: bool
  se_listens :: bool
  se_dir_exists :: bool
  se_chmods :: bool

text \<open>
  The server of \<open>main\<close> before it listens: \<open>None\<close> inside is a panic of \<open>api.New\<close>. The
  statistics refreshed at the start may fail, which does not stop it.
\<close>

definition new_server :: "start_env \<Rightarrow> server_config \<Rightarrow> Store \<Rightarrow> Server option" where
  "new_server se c st =
     (let (_, wr) = Writer_Optimize (se_turn se) (se_now se) (Writer_New st)
      in Server_New (Registry_New wr (tx_config c) (se_clock se)) (api_options (se_version se) c) (se_now se))"

definition listen :: "start_env \<Rightarrow> server_config \<Rightarrow> unix_host \<Rightarrow> start_error option \<times> unix_host" where
  "listen se c u =
     (if sc_SocketPath c \<noteq> [] then
        (case removeStaleSocket (se_socket se (sc_SocketPath c)) (se_removes se) of
           (Some e, _) \<Rightarrow> (Some e, u)
         | (None, _) \<Rightarrow> listenUnix (se_listens se) (se_dir_exists se) (se_chmods se) (SocketFileMode c) u)
      else ((if se_listens se then None else Some CannotListen), u))"

definition start :: "start_env \<Rightarrow> string \<Rightarrow> (string \<Rightarrow> dbfile) \<Rightarrow> unix_host \<Rightarrow> (start_error + server_config \<times> Server option) \<times> (string \<Rightarrow> dbfile)" where
  "start se path files u =
     (case Load (se_host se) path of
        Inl e \<Rightarrow> (Inl (ConfigError e), files)
      | Inr c \<Rightarrow>
          (let db = DatabasePath c in
           case requireDatabase (se_stat_fails se) (files db) c of
             Some e \<Rightarrow> (Inl e, files)
           | None \<Rightarrow>
               (case Open (se_io se) (se_open_faults se) (files db) of
                  (Inl e, f) \<Rightarrow> (Inl (StoreError e), files(db := f))
                | (Inr st, f) \<Rightarrow>
                    (case new_server se c st of
                       None \<Rightarrow> (Inr (c, None), files(db := f))
                     | Some s \<Rightarrow>
                         (case listen se c u of
                            (Some e, _) \<Rightarrow> (Inl e, files(db := releaseLock (f\<lparr>f_tables := Some (st_db (sv_store s))\<rparr>)))
                          | (None, _) \<Rightarrow> (Inr (c, Some s), files(db := f)))))))"

text \<open>The end, in its order: no more turns, then the store is closed.\<close>

definition shutdown :: "Server \<Rightarrow> dbfile \<Rightarrow> Server \<times> dbfile" where
  "shutdown s f = (let s1 = with_writer (Writer_Close (sv_writer s)) s in (s1, Close (sv_store s1) f))"

section \<open>A server that starts is in order\<close>

lemma config_ok_limits:
  assumes "config_ok c"
  shows "0 < sc_MaxEventSize c" "0 < sc_MaxProjectionSize c" "0 < sc_MaxEventsPerTx c" "0 < sc_MaxReadsPerTx c"
    "0 < sc_MaxProjectionsPerTx c" "0 < sc_MaxEventsPerTxRead c" "0 < sc_MaxProjectionsPerWrite c" "0 < sc_MaxRequestBodySize c"
    "0 < sc_MaxQueuedWrites c" "0 < sc_ReadPoolSize c" "0 < sc_TxIdleTimeout c" "0 < sc_MaxOpenTx c"
  using assms by (simp_all add: config_ok_def positive_limits_def)

lemma parseLevel_ok: "s \<in> set [''debug'', ''info'', ''warning'', ''error''] \<Longrightarrow> \<exists>l. parseLevel s = Some l"
  by (auto simp: parseLevel_def)

lemma new_server_Some:
  assumes "config_ok c"
  obtains s where "new_server se c st = Some s" "sv_opts s = api_options (se_version se) c"
    "sv_txs s = Registry_New (snd (Writer_Optimize (se_turn se) (se_now se) (Writer_New st))) (tx_config c) (se_clock se)"
proof -
  obtain l where l: "parseLevel (sc_LogLevel c) = Some l" using assms parseLevel_ok by (auto simp: config_ok_def)
  show thesis
    by (rule that [of "\<lparr>sv_txs = Registry_New (snd (Writer_Optimize (se_turn se) (se_now se) (Writer_New st))) (tx_config c) (se_clock se),
          sv_opts = api_options (se_version se) c, sv_startedAt = se_now se, sv_internalErrors = 0, sv_storageFullErrors = 0,
          sv_logThreshold = l, sv_fatal = []\<rparr>"])
      (use assms config_ok_limits [OF assms] l in \<open>auto simp: new_server_def Server_New_def api_options_def config_ok_def Let_def split: prod.split\<close>)
qed

text \<open>An idle timeout that its nanoseconds have room for is that many seconds.\<close>

lemma idle_timeout:
  assumes "0 < n" "n \<le> 9223372036"
  shows "in_microseconds (Seconds n) = n * 1000000"
proof -
  have "Seconds n = n * 1000000000" using assms by (simp add: Seconds_def i64_id)
  then have "- Seconds n = (- n * 1000000) * 1000" by simp
  then have "(- Seconds n) div 1000 = - n * 1000000" by (simp only: nonzero_mult_div_cancel_right)
  then show ?thesis by (simp add: in_microseconds_def)
qed

text \<open>One second more, and a transaction is past its timeout from the start.\<close>

lemma idle_timeout_overflow: "in_microseconds (Seconds 9223372037) < 0"
  by (simp add: in_microseconds_def Seconds_def i64_def)

lemma tx_config_wf:
  assumes "config_ok c" "sc_TxIdleTimeout c \<le> 9223372036" "sc_MaxEventsPerTxRead c < max_i64"
  shows "config_wf (tx_config c)"
  using assms config_ok_limits [OF assms(1)] idle_timeout [of "sc_TxIdleTimeout c"]
  by (simp add: config_wf_def tx_config_def less_imp_le)

lemma new_registry_ok:
  assumes "config_wf cfg" "\<forall>n. clock n \<noteq> 0" "store_rep (w_store wr) a"
  shows "reg_ok (Registry_New wr cfg clock) a"
  using assms
  by (auto simp: reg_ok_def reg_inv_def ids_ok_def Registry_New_def at_rest_def find_tx_def PausedAt_def IsZero_def config_wf_def Let_def)

lemma new_server_ok:
  assumes c: "config_ok c" "sc_TxIdleTimeout c \<le> 9223372036" "sc_MaxEventsPerTxRead c < max_i64"
    and clock: "\<forall>n. se_clock se n \<noteq> 0" and st: "store_rep st a"
  obtains s a' where "new_server se c st = Some s" "sv_opts s = api_options (se_version se) c" "server_ok s a'"
    "sp_log a' = sp_log a" "sp_next a' = sp_next a" "r_cfg (sv_txs s) = tx_config c"
proof -
  let ?wr = "snd (Writer_Optimize (se_turn se) (se_now se) (Writer_New st))"
  have "keeps_log a (w_store ?wr)" by (rule optimize_keeps_log) (simp add: Writer_New_def st)
  then obtain a' where a': "store_rep (w_store ?wr) a'" "sp_next a' = sp_next a" "sp_log a' = sp_log a"
    by (auto simp: keeps_log_def)
  obtain s where s: "new_server se c st = Some s" "sv_opts s = api_options (se_version se) c"
    "sv_txs s = Registry_New ?wr (tx_config c) (se_clock se)" by (rule new_server_Some [OF c(1)])
  from new_registry_ok [OF tx_config_wf [OF c] clock a'(1)] s a' show thesis
    by (intro that [of s a']) (simp_all add: Registry_New_def Let_def split: prod.split)
qed

text \<open>A store that opens has locked its file, and has what the file held.\<close>

lemma start_Inr:
  assumes "start se path files u = (Inr (c, os), files')"
  obtains st f where "Load (se_host se) path = Inr c" "f_exists (files (DatabasePath c))"
    "Open (se_io se) (se_open_faults se) (files (DatabasePath c)) = (Inr st, f)" "new_server se c st = os"
    "files' = files(DatabasePath c := f)"
    "case os of Some s \<Rightarrow> fst (listen se c u) = None | None \<Rightarrow> True"
  using assms
  by (auto simp: start_def requireDatabase_def Let_def split: sum.splits option.splits prod.splits if_splits)

lemma start_runs:
  assumes "Load (se_host se) path = Inr c" "\<not> se_stat_fails se" "f_exists (files (DatabasePath c))"
    "Open (se_io se) (se_open_faults se) (files (DatabasePath c)) = (Inr st, f)" "new_server se c st = Some s"
    "fst (listen se c u) = None"
  shows "start se path files u = (Inr (c, Some s), files(DatabasePath c := f))"
  using assms by (cases "listen se c u") (simp add: start_def requireDatabase_def Let_def)

text \<open>A server that starts, with its file.\<close>

lemma start_in_order:
  assumes "start se path files u = (Inr (c, os), files')"
    and "db_log (file_tables (files (DatabasePath c))) evs" "\<forall>e\<in>set evs. 0 < ev_sequence e \<and> ev_sequence e < max_i64"
    and "sc_TxIdleTimeout c \<le> 9223372036" "sc_MaxEventsPerTxRead c < max_i64" "\<forall>n. se_clock se n \<noteq> 0"
  obtains s a where "os = Some s" "server_ok s a" "sp_log a = evs" "sp_next a = last_position evs + 1"
    "sv_opts s = api_options (se_version se) c" "f_exists (files' (DatabasePath c))" "f_version (files' (DatabasePath c)) = schemaVersion"
proof -
  obtain st f where st: "Load (se_host se) path = Inr c" "f_exists (files (DatabasePath c))"
    "Open (se_io se) (se_open_faults se) (files (DatabasePath c)) = (Inr st, f)" "new_server se c st = os"
    "files' = files(DatabasePath c := f)" by (rule start_Inr [OF assms(1)])
  note rep = Open_resumes [OF st(3) assms(2,3)]
  obtain s a where "new_server se c st = Some s" "sv_opts s = api_options (se_version se) c" "server_ok s a"
    "sp_log a = evs" "sp_next a = last_position evs + 1"
    by (rule new_server_ok [OF Load_Inr(2) [OF st(1)] assms(4-6) rep [THEN conjunct1]]) (use st(2) in auto)
  then show thesis using rep st Open_file_exists [OF st(3)] by (intro that [of s a]) simp_all
qed

section \<open>Properties\<close>


definition plain_start :: start_env where
  "plain_start = \<lparr>se_host = plain_host, se_stat_fails = False, se_io = (\<lambda>_. False), se_open_faults = no_faults,
     se_turn = \<lparr>tn_join = None, tn_wal_size = Inr 0, tn_checkpoint = Inr True, tn_faults = no_faults, tn_uuids = (\<lambda>_. [])\<rparr>,
     se_clock = (\<lambda>n. int n + 1), se_now = 1, se_version = ''1'', se_socket = (\<lambda>_. Socket), se_removes = True,
     se_listens = True, se_dir_exists = True, se_chmods = True\<rparr>"

definition empty_database :: dbfile where
  "empty_database = \<lparr>f_exists = True, f_tables = Some empty_tables, f_version = schemaVersion, f_locked = False\<rparr>"

abbreviation plain_unix :: unix_host where
  "plain_unix \<equiv> \<lparr>ux_umask = 18, ux_socket_modes = []\<rparr>"

lemma plain_start_runs:
  obtains s f where "start plain_start ''config.toml'' (\<lambda>_. empty_database) plain_unix =
      (Inr (plain_config, Some s), (\<lambda>_. empty_database)(DatabasePath plain_config := f))"
    "r_cfg (sv_txs s) = tx_config plain_config"
proof -
  obtain st f where st: "Open (\<lambda>_. False) no_faults empty_database = (Inr st, f)"
    by (auto simp: Open_def acquireLock_def createPrivate_def open_steps_def ensureSchema_def readPausedAt_def
        file_tables_def empty_database_def empty_tables_def)
  obtain s where s: "new_server plain_start plain_config st = Some s"
    "sv_txs s = Registry_New (snd (Writer_Optimize (se_turn plain_start) (se_now plain_start) (Writer_New st)))
      (tx_config plain_config) (se_clock plain_start)"
    by (rule new_server_Some [OF Load_Inr(2) [OF plain_config_loads]])
  have "fst (listen plain_start plain_config plain_unix) = None"
    by (simp add: listen_def plain_start_def plain_config_def removeStaleSocket_def listenUnix_def Umask_def Listen_socket_def)
  then have "start plain_start ''config.toml'' (\<lambda>_. empty_database) plain_unix =
      (Inr (plain_config, Some s), (\<lambda>_. empty_database)(DatabasePath plain_config := f))"
    by (intro start_runs [OF _ _ _ _ s(1)]) (use plain_config_loads st in \<open>simp_all add: plain_start_def empty_database_def\<close>)
  then show thesis using s(2) by (intro that) (auto simp: Registry_New_def Let_def split: prod.split)
qed

lemma plain_start_ready:
  "db_log (file_tables empty_database) []" "sc_TxIdleTimeout plain_config \<le> 9223372036"
  "sc_MaxEventsPerTxRead plain_config < max_i64" "\<forall>n. se_clock plain_start n \<noteq> 0"
  by (simp_all add: empty_database_def file_tables_def empty_db_log plain_config_def plain_start_def)


end
