(* ===== verification/Lifetime.thy ===== *)
theory Lifetime
  imports Startup
begin

text \<open>
  The life of a server process (\<open>main\<close> of cmd/tamarackdb-server as a whole): it starts, answers
  requests, stops for one of three reasons, and leaves its database file. The requests are handled
  one after the other here; Interleave has the interleavings of their critical sections.
\<close>

section \<open>A run of the server\<close>

text \<open>A request as it arrives: what the handler meets, which writes to the client fail, and the request.\<close>

record arrival =
  ar_env :: env
  ar_gone :: "nat \<Rightarrow> bool"
  ar_request :: request

text \<open>The three ways out of the wait of \<open>main\<close>; \<open>ServeEnded True\<close> is an error other than \<open>ErrServerClosed\<close>.\<close>

datatype stop_reason = Signalled | FatalStorage | ServeEnded bool

definition exit_code :: "stop_reason \<Rightarrow> int" where
  "exit_code reason = (case reason of Signalled \<Rightarrow> 0 | FatalStorage \<Rightarrow> 1 | ServeEnded failed \<Rightarrow> if failed then 1 else 0)"

datatype server_end = NotStarted start_error | Panicked | Exited int

fun serve_requests :: "(string \<Rightarrow> string) \<Rightarrow> arrival list \<Rightarrow> Server \<Rightarrow> Server option" where
  "serve_requests sha256 [] s = Some s"
| "serve_requests sha256 (x # xs) s =
     (case ServeHTTP sha256 (ar_env x) (ar_gone x) (ar_request x) s of
        None \<Rightarrow> None
      | Some (_, s1, _) \<Rightarrow> serve_requests sha256 xs s1)"

definition run_server :: "start_env \<Rightarrow> string \<Rightarrow> (string \<Rightarrow> string) \<Rightarrow> arrival list \<Rightarrow> stop_reason \<Rightarrow> (string \<Rightarrow> dbfile) \<Rightarrow>
    unix_host \<Rightarrow> server_end \<times> (string \<Rightarrow> dbfile)" where
  "run_server se path sha256 arrivals reason files u =
     (case start se path files u of
        (Inl e, files1) \<Rightarrow> (NotStarted e, files1)
      | (Inr (_, None), files1) \<Rightarrow> (Panicked, files1)
      | (Inr (c, Some s), files1) \<Rightarrow>
          (case serve_requests sha256 arrivals s of
             None \<Rightarrow> (Panicked, files1)
           | Some s1 \<Rightarrow>
               (let (_, f) = shutdown s1 (files1 (DatabasePath c))
                in (Exited (exit_code reason), files1(DatabasePath c := f)))))"

section \<open>What requests add to the log\<close>

text \<open>
  Every request finds the clock running and, below the largest position, the positions that one
  transaction may take.
\<close>

fun has_room :: "(string \<Rightarrow> string) \<Rightarrow> arrival list \<Rightarrow> Server \<Rightarrow> bool" where
  "has_room sha256 [] s \<longleftrightarrow> True"
| "has_room sha256 (x # xs) s \<longleftrightarrow>
     en_now (ar_env x) \<noteq> 0 \<and> st_nextSeq (sv_store s) + cf_MaxEventsPerTx (r_cfg (sv_txs s)) \<le> max_i64 \<and>
     (case ServeHTTP sha256 (ar_env x) (ar_gone x) (ar_request x) s of None \<Rightarrow> True | Some (_, s1, _) \<Rightarrow> has_room sha256 xs s1)"

text \<open>The log of \<open>a'\<close> is that of \<open>a\<close>, and events at the positions that follow.\<close>

definition log_extends :: "spec \<Rightarrow> spec \<Rightarrow> bool" where
  "log_extends a a' \<longleftrightarrow>
     (\<exists>new. sp_log a' = sp_log a @ new \<and> map ev_sequence new = [sp_next a..sp_next a' - 1] \<and>
        sp_next a' = sp_next a + int (length new))"

lemma log_extends_refl: "log_extends a a"
  by (simp add: log_extends_def)

lemma log_extends_trans:
  assumes "log_extends a b" "log_extends b c"
  shows "log_extends a c"
proof -
  obtain xs ys where xs: "sp_log b = sp_log a @ xs" "map ev_sequence xs = [sp_next a..sp_next b - 1]" "sp_next b = sp_next a + int (length xs)"
    and ys: "sp_log c = sp_log b @ ys" "map ev_sequence ys = [sp_next b..sp_next c - 1]" "sp_next c = sp_next b + int (length ys)"
    using assms by (auto simp: log_extends_def)
  have "[sp_next a..sp_next c - 1] = [sp_next a..sp_next b - 1] @ [sp_next b..sp_next c - 1]"
    using upto_split2 [of "sp_next a" "sp_next b - 1" "sp_next c - 1"] xs(3) ys(3) by (cases "xs = []") simp_all
  then show ?thesis using xs ys by (auto simp: log_extends_def)
qed

lemma placed_positions: "map ev_sequence (placed n events) = [n..n + int (length events) - 1]"
proof (induction events arbitrary: n rule: rev_induct)
  case (snoc e es)
  then show ?case by (simp add: placed_sequences upto_rec2 [of n "n + int (length es)"])
qed simp

lemma log_effect_extends: "log_effect e a a' \<Longrightarrow> e \<noteq> Some EDeleteEvents \<Longrightarrow> log_extends a a'"
  by (auto simp: log_effect_def log_extends_def placed_positions split: option.splits endpoint.splits intro: exI [of _ "[]"])

lemma serve_requests_keep:
  assumes "server_ok s a" "has_room sha256 xs s"
  shows "\<exists>s' a'. serve_requests sha256 xs s = Some s' \<and> server_ok s' a' \<and>
    (if op_DevMode (sv_opts s) then True else log_extends a a')"
  using assms
proof (induction xs arbitrary: s a)
  case Nil
  then show ?case by (auto intro: log_extends_refl)
next
  case (Cons x xs)
  have "sp_next a = st_nextSeq (sv_store s)" using reg_okD(3) [OF Cons.prems(1)] by (simp add: store_rep_def)
  then have room: "sp_next a + cf_MaxEventsPerTx (r_cfg (sv_txs s)) \<le> max_i64" "en_now (ar_env x) \<noteq> 0"
    using Cons.prems(2) by simp_all
  obtain sw s1 logged a1 where one: "ServeHTTP sha256 (ar_env x) (ar_gone x) (ar_request x) s = Some (sw, s1, logged)"
    "sv_opts s1 = sv_opts s" "server_ok s1 a1" "log_effect (endpoint_of s (ar_request x)) a a1"
    by (rule ServeHTTP_step [OF Cons.prems(1) room, of sha256 "ar_gone x" "ar_request x"])
  obtain s' a' where rest: "serve_requests sha256 xs s1 = Some s'" "server_ok s' a'"
    "if op_DevMode (sv_opts s1) then True else log_extends a1 a'"
    using Cons.IH [OF one(3)] Cons.prems(2) one(1) by auto
  have "if op_DevMode (sv_opts s) then True else log_extends a a1"
    using log_effect_extends [OF one(4)] no_deletes_in_production [of s] by simp
  then show ?case using rest one(1,2) log_extends_trans by (auto split: if_splits)
qed

text \<open>The file that a stopped server leaves.\<close>

lemma shutdown_file:
  assumes "server_ok s a" "f_exists f" "f_version f = schemaVersion" "shutdown s f = (s', f')"
  shows "db_log (file_tables f') (sp_log a)" "f_exists f'" "f_version f' = schemaVersion" "\<not> f_locked f'"
  using assms reg_okD(3) [OF assms(1)]
  by (auto simp: shutdown_def with_writer_def Writer_Close_def Close_def releaseLock_def file_tables_def store_rep_def Let_def)

end
