(* ===== verification/Backup.thy ===== *)
theory Backup
  imports Startup "HOL-Library.Sublist"
begin

text \<open>
  The backup tool (cmd/tamarackdb-backup): it asks a server for page after page of events, and
  imports each into its own database file. The network and the server at the other end are an
  argument; the server of this development is one that the properties hold for. Log lines are not
  modelled.
\<close>

section \<open>Requests and responses\<close>

text \<open>
  What the HTTP client sends and what comes back: \<open>hr_socket\<close> is the Unix socket every connection
  goes to, if any, and \<open>rs_complete\<close> says whether the body was read to its end.
\<close>

record http_request =
  hr_socket :: "string option"
  hr_method :: string
  hr_url :: string
  hr_authorization :: string
  hr_body :: string

record http_response =
  rs_status :: nat
  rs_body :: string
  rs_complete :: bool

record source =
  so_socket :: "string option"
  so_baseURL :: string

definition TrimRight_slash :: "string \<Rightarrow> string" where
  "TrimRight_slash s = rev (dropWhile (\<lambda>c. c = CHR ''/'') (rev s))"

definition newSource :: "backup_config \<Rightarrow> source" where
  "newSource cfg =
     (if bc_SourceSocket cfg \<noteq> [] then \<lparr>so_socket = Some (bc_SourceSocket cfg), so_baseURL = ''http://tamarackdb''\<rparr>
      else \<lparr>so_socket = None, so_baseURL = TrimRight_slash (bc_SourceURL cfg)\<rparr>)"

definition page_query :: "int \<Rightarrow> int \<Rightarrow> json" where
  "page_query afterSeq limit =
     JObject [(''query'', JString ''all''), (''afterSequence'', JNumber afterSeq), (''limit'', JNumber limit)]"

definition page_request :: "source \<Rightarrow> backup_config \<Rightarrow> int \<Rightarrow> int \<Rightarrow> http_request" where
  "page_request src cfg afterSeq limit =
     \<lparr>hr_socket = so_socket src, hr_method = ''QUERY'', hr_url = so_baseURL src @ ''/events'',
      hr_authorization = (if bc_SourceToken cfg \<noteq> [] then ''Bearer '' @ bc_SourceToken cfg else []),
      hr_body = encode (page_query afterSeq limit)\<rparr>"

section \<open>Reading the lines of a page\<close>

definition maxNDJSONLine :: nat where "maxNDJSONLine = 16 * 1024 * 1024"

text \<open>
  \<open>bufio.Scanner\<close> with \<open>ScanLines\<close>: the pieces between newlines, the last one if it is not empty,
  each without one carriage return at its end. A line that leaves no room for its newline in the
  buffer stops the scan.
\<close>

definition pieces :: "string \<Rightarrow> string list" where
  "pieces s = (let ps = split_at newline_c s in if last ps = [] then butlast ps else ps)"

definition drop_cr :: "string \<Rightarrow> string" where
  "drop_cr s = (if s \<noteq> [] \<and> last s = CHR 0x0D then butlast s else s)"

definition scan :: "string \<Rightarrow> string list \<times> bool" where
  "scan s = (let fits = (\<lambda>p. length p < maxNDJSONLine)
             in (map drop_cr (takeWhile fits (pieces s)), list_all fits (pieces s)))"

text \<open>The probe of a line for the trailer: a boolean at a key \<open>hasMore\<close>, whatever else is there.\<close>

definition probe_field :: "string \<Rightarrow> json \<Rightarrow> bool option \<Rightarrow> bool option option" where
  "probe_field k v r = (if is_field ''hasMore'' k then decode_pointer decode_bool False r v else Some r)"

definition probe :: "string \<Rightarrow> bool option" where
  "probe l =
     (case parse_json l of
        None \<Rightarrow> None
      | Some j \<Rightarrow> (case decode_struct probe_field None j of None \<Rightarrow> None | Some r \<Rightarrow> r))"

definition unmarshal_event :: "((string \<times> json) list \<Rightarrow> (string \<times> json) list) \<Rightarrow> string \<Rightarrow> Event option" where
  "unmarshal_event range_order l =
     (case parse_json l of
        None \<Rightarrow> None
      | Some j \<Rightarrow> (case Event_UnmarshalJSON range_order j of Inl e \<Rightarrow> None | Inr ev \<Rightarrow> Some ev))"

datatype fetch_error = NoAnswer | UnexpectedStatus nat | ParseEvent | ReadBody | NoTrailer

fun read_lines :: "((string \<times> json) list \<Rightarrow> (string \<times> json) list) \<Rightarrow> string list \<Rightarrow> Event list \<Rightarrow> bool option \<Rightarrow>
    fetch_error + Event list \<times> bool option" where
  "read_lines range_order [] events trailer = Inr (events, trailer)"
| "read_lines range_order (l # ls) events trailer =
     (case probe l of
        Some b \<Rightarrow> read_lines range_order ls events (Some b)
      | None \<Rightarrow>
          (case unmarshal_event range_order l of
             None \<Rightarrow> Inl ParseEvent
           | Some ev \<Rightarrow> read_lines range_order ls (events @ [ev]) trailer))"

definition fetchPage :: "((string \<times> json) list \<Rightarrow> (string \<times> json) list) \<Rightarrow> (http_request \<Rightarrow> http_response option) \<Rightarrow>
    source \<Rightarrow> backup_config \<Rightarrow> int \<Rightarrow> int \<Rightarrow> fetch_error + Event list \<times> bool" where
  "fetchPage range_order respond src cfg afterSeq limit =
     (case respond (page_request src cfg afterSeq limit) of
        None \<Rightarrow> Inl NoAnswer
      | Some r \<Rightarrow>
          if rs_status r \<noteq> 200 then Inl (UnexpectedStatus (rs_status r))
          else
            (let (ls, fit) = scan (rs_body r) in
             bind_err (read_lines range_order ls [] None) (\<lambda>(events, trailer).
             if \<not> fit \<or> \<not> rs_complete r then Inl ReadBody
             else (case trailer of None \<Rightarrow> Inl NoTrailer | Some b \<Rightarrow> Inr (events, b)))))"

section \<open>The run\<close>

datatype backup_error = BadConfig config_error | NoDirectory | Database store_error | Fetch fetch_error

text \<open>How a run ended, or that it was still fetching after so many pages.\<close>

datatype outcome = Complete | Stopped backup_error | Fetching

text \<open>
  The loop: \<open>n\<close> counts the pages fetched, \<open>respond n\<close> is the answer to the request for the page
  after them, and \<open>faults n\<close> what its import meets. The first number is how many pages are fetched
  at most.
\<close>

fun copy_pages :: "((string \<times> json) list \<Rightarrow> (string \<times> json) list) \<Rightarrow> (nat \<Rightarrow> http_request \<Rightarrow> http_response option) \<Rightarrow>
    (nat \<Rightarrow> faults) \<Rightarrow> source \<Rightarrow> backup_config \<Rightarrow> nat \<Rightarrow> nat \<Rightarrow> int \<Rightarrow> Store \<Rightarrow> outcome \<times> nat \<times> Store" where
  "copy_pages range_order respond faults src cfg 0 n lastSeq st = (Fetching, n, st)"
| "copy_pages range_order respond faults src cfg (Suc fuel) n lastSeq st =
     (case fetchPage range_order (respond n) src cfg lastSeq (bc_PageLimit cfg) of
        Inl e \<Rightarrow> (Stopped (Fetch e), Suc n, st)
      | Inr (events, hasMore) \<Rightarrow>
          (case (if length events > 0 then Import (faults n) st events else (None, st)) of
             (Some e, st1) \<Rightarrow> (Stopped (Database e), Suc n, st1)
           | (None, st1) \<Rightarrow>
               (let lastSeq1 = (if length events > 0 then ev_sequence (last events) else lastSeq)
                in if hasMore then copy_pages range_order respond faults src cfg fuel (Suc n) lastSeq1 st1
                   else (Complete, Suc n, st1))))"

text \<open>What a run meets: its host, the directory, its own file's faults, and the source.\<close>

record backup_env =
  be_host :: host
  be_mkdir :: bool
  be_io :: io
  be_open_faults :: faults
  be_faults :: "nat \<Rightarrow> faults"
  be_range_order :: "(string \<times> json) list \<Rightarrow> (string \<times> json) list"
  be_respond :: "nat \<Rightarrow> http_request \<Rightarrow> http_response option"

definition backup_path :: "backup_config \<Rightarrow> string" where
  "backup_path cfg = Join_path (bc_DataDir cfg) ''tamarackdb-backup.sqlite''"

definition run_backup :: "backup_env \<Rightarrow> string \<Rightarrow> nat \<Rightarrow> (string \<Rightarrow> dbfile) \<Rightarrow> outcome \<times> (string \<Rightarrow> dbfile)" where
  "run_backup be configPath fuel files =
     (case LoadBackup (be_host be) configPath of
        Inl e \<Rightarrow> (Stopped (BadConfig e), files)
      | Inr cfg \<Rightarrow>
          if \<not> be_mkdir be then (Stopped NoDirectory, files)
          else
            (let path = backup_path cfg in
             case Open (be_io be) (be_open_faults be) (files path) of
               (Inl e, f) \<Rightarrow> (Stopped (Database e), files(path := f))
             | (Inr st, f) \<Rightarrow>
                 (case copy_pages (be_range_order be) (be_respond be) (be_faults be) (newSource cfg) cfg fuel 0 (LastSequence st) st of
                    (res, _, st1) \<Rightarrow> (res, files(path := Close st1 f)))))"

section \<open>Lines and pages\<close>

text \<open>JSON has no control byte, so a line of JSON is one line.\<close>

definition printable_text :: "string \<Rightarrow> bool" where
  "printable_text s \<longleftrightarrow> list_all (\<lambda>c. 0x20 \<le> bc c) s"

lemma printable_append [simp]: "printable_text (s @ t) \<longleftrightarrow> printable_text s \<and> printable_text t"
  by (simp add: printable_text_def)

lemma printable_Cons [simp]: "printable_text []" "printable_text (c # s) \<longleftrightarrow> 0x20 \<le> bc c \<and> printable_text s"
  by (simp_all add: printable_text_def)

lemma printable_commas: "list_all printable_text xs \<Longrightarrow> printable_text (commas xs)"
  by (induction xs rule: commas.induct) (simp_all add: printable_text_def bc_def)

lemma printable_marshal_string: "printable_text (marshal_string s)"
  using AppendString_printable by (auto simp: printable_text_def marshal_string_def list_all_iff)

lemma printable_decimal: "printable_text (decimal n)"
  by (auto simp: printable_text_def list_all_iff is_digit_def undigit_def bc_def less_eq_char_def dest!: decimal_digits split: if_splits)

lemma printable_encode: "text_ok j \<Longrightarrow> printable_text (encode j)"
proof (induction j rule: encode.induct)
  case (6 js)
  then have "list_all printable_text (map encode js)" by (simp add: list_all_iff)
  then show ?case using printable_commas by (simp add: printable_text_def bc_def)
next
  case (7 kvs)
  have colon: "0x20 \<le> bc (CHR '':'')" by (simp add: bc_def)
  have "list_all (\<lambda>kv. printable_text (encode (snd kv))) kvs" using 7 by (auto simp: list_all_iff)
  then have "list_all printable_text (map (\<lambda>(k, v). marshal_string k @ '':'' @ encode v) kvs)"
    by (auto simp: list_all_iff printable_marshal_string colon)
  then show ?case using printable_commas by (simp add: printable_text_def bc_def)
qed (simp_all add: bc_def AppendInt_def printable_decimal printable_marshal_string)

lemma split_at_line: "sep \<notin> set l \<Longrightarrow> split_at sep (l @ sep # s) = l # split_at sep s"
proof (induction l)
  case Nil
  show ?case by (cases "split_at sep s") auto
qed auto

lemma pieces_lines:
  assumes "list_all printable_text ls"
  shows "pieces (concat (map line ls)) = ls"
proof -
  have "newline_c \<notin> set l" if "printable_text l" for l using that by (auto simp: printable_text_def list_all_iff bc_def)
  then have "split_at newline_c (concat (map line ls)) = ls @ [[]]"
    using assms by (induction ls) (auto simp: line_def split_at_line)
  then show ?thesis by (simp add: pieces_def Let_def)
qed

lemma drop_cr_printable: "printable_text l \<Longrightarrow> drop_cr l = l"
  by (cases l rule: rev_cases) (auto simp: drop_cr_def printable_text_def bc_def)

lemma scan_lines:
  assumes "list_all printable_text ls"
  shows "scan (concat (map line ls)) =
    (takeWhile (\<lambda>l. length l < maxNDJSONLine) ls, list_all (\<lambda>l. length l < maxNDJSONLine) ls)"
proof -
  have "map drop_cr (takeWhile P ls) = takeWhile P ls" for P
    using assms set_takeWhileD by (intro map_idI drop_cr_printable) (fastforce simp: list_all_iff)
  then show ?thesis by (simp add: scan_def pieces_lines [OF assms] Let_def)
qed

text \<open>An event line is no trailer, and is read as that event.\<close>

lemma has_more_fields:
  "probe_field ''hasMore'' v r = decode_pointer decode_bool False r v" "probe_field ''sequence'' v r = Some r"
  "probe_field ''time'' v r = Some r" "probe_field ''type'' v r = Some r" "probe_field ''identifiers'' v r = Some r"
  "probe_field ''metadata'' v r = Some r" "probe_field ''payload'' v r = Some r"
  by (simp_all add: probe_field_def is_field_def fold_byte_def bc_def byte_def)

lemma event_line:
  assumes "event_text_ok e" "event_range_ok e" "\<And>kvs. mset (range_order kvs) = mset kvs"
  obtains e' where "probe (Event_MarshalJSON e) = None" "unmarshal_event range_order (Event_MarshalJSON e) = Some e'" "same_event e' e"
proof -
  obtain e' where e': "Event_UnmarshalJSON range_order (event_tree e) = Inr e'" "same_event e' e"
    "parse_json (Event_MarshalJSON e) = Some (event_tree e)" by (rule event_read_back [OF assms])
  have "probe (Event_MarshalJSON e) = None" by (simp add: probe_def e'(3)) (simp add: event_tree_def has_more_fields)
  then show thesis using e' by (intro that [of e']) (simp_all add: unmarshal_event_def)
qed

lemma trailer_text: "text_ok (readTrailer b) \<and> json_depth (readTrailer b) \<le> max_depth"
  using valid_utf8_ascii [of "''hasMore''"] by (simp add: readTrailer_def bc_def max_depth_def)

lemma trailer_short: "length (encode (readTrailer b)) < maxNDJSONLine"
proof -
  have "list_all (\<lambda>c. bc c < 0x80 \<and> plain_byte (bc c)) ''hasMore''" by code_simp
  then have "encode (readTrailer b) = ''{'' @ dquote # ''hasMore'' @ dquote # '':'' @ (if b then ''true'' else ''false'') @ ''}''"
    by (simp add: readTrailer_def marshal_string_def AppendString_json_escape json_escape_plain)
  then show ?thesis by (simp add: maxNDJSONLine_def)
qed

lemma trailer_line: "probe (encode (readTrailer b)) = Some b"
proof -
  have "parse_json (encode (readTrailer b)) = Some (readTrailer b)" using parse_encode trailer_text by blast
  then show ?thesis by (simp add: probe_def) (simp add: readTrailer_def has_more_fields decode_pointer_def)
qed

lemma read_event_lines:
  assumes "list_all (\<lambda>e. event_text_ok e \<and> event_range_ok e) evs" "\<And>kvs. mset (range_order kvs) = mset kvs"
  obtains evs' where "list_all2 same_event evs' evs"
    "read_lines range_order (map Event_MarshalJSON evs @ ls) acc trailer = read_lines range_order ls (acc @ evs') trailer"
  using assms(1)
proof (induction evs arbitrary: acc thesis)
  case (Cons e evs)
  then obtain e' where e': "probe (Event_MarshalJSON e) = None" "unmarshal_event range_order (Event_MarshalJSON e) = Some e'"
    "same_event e' e" using event_line [of e range_order] assms(2) by auto
  obtain evs' where "list_all2 same_event evs' evs"
    "read_lines range_order (map Event_MarshalJSON evs @ ls) (acc @ [e']) trailer = read_lines range_order ls ((acc @ [e']) @ evs') trailer"
    using Cons.IH [of "acc @ [e']"] Cons.prems(2) by auto
  with e' show ?case by (intro Cons.prems(1) [of "e' # evs'"]) simp_all
qed simp

section \<open>What a page brings\<close>

text \<open>A log whose events can be sent and imported.\<close>

definition log_ok :: "Event list \<Rightarrow> bool" where
  "log_ok L \<longleftrightarrow>
     sorted_wrt (<) (map ev_sequence L) \<and>
     list_all (\<lambda>e. 0 < ev_sequence e \<and> ev_sequence e < max_i64 \<and> event_text_ok e \<and> event_range_ok e \<and> tags_distinct (ev_data e)) L"

abbreviation page_after :: "Event list \<Rightarrow> int \<Rightarrow> int \<Rightarrow> string list" where
  "page_after L a l \<equiv> page_lines L \<lparr>rf_query = QueryAll, rf_after = Some a, rf_limit = l, rf_backwards = False\<rparr>"

lemma log_ok_first: "log_ok (xs @ ys) \<Longrightarrow> log_ok xs"
  by (simp add: log_ok_def sorted_wrt_append)

lemma page_after_eq:
  assumes "log_ok (E @ rest)"
  shows "page_after (E @ rest) (last_position E) l =
    map Event_MarshalJSON (take (nat l) rest) @ [encode (readTrailer (nat l < length rest))]"
proof -
  have sorted: "sorted_wrt (<) (map ev_sequence (E @ rest))" "\<forall>e\<in>set (E @ rest). 0 < ev_sequence e"
    using assms by (auto simp: log_ok_def list_all_iff)
  have "matching (E @ rest) QueryAll (last_position E) = rest"
    using last_position_sorted [OF sorted] by (simp add: Query_Matches_def QueryAll_def)
  then show ?thesis by (simp add: page_lines_def in_order_def)
qed

text \<open>The lines of a page, or the first of them, as the tool reads them.\<close>

lemma log_ok_part: "log_ok (E @ rest) \<Longrightarrow> list_all (\<lambda>e. event_text_ok e \<and> event_range_ok e) (take l rest)"
  by (auto simp: log_ok_def list_all_iff dest!: in_set_takeD)

lemma page_lines_printable:
  assumes "log_ok L"
  shows "list_all printable_text (page_lines L f)"
proof -
  have "printable_text (Event_MarshalJSON e)" if "e \<in> set L" for e
    using that assms event_tree_ok printable_encode by (auto simp: log_ok_def list_all_iff Event_MarshalJSON_tree)
  moreover have "printable_text (encode (readTrailer b))" for b using trailer_text printable_encode by blast
  ultimately show ?thesis
    by (auto simp: page_lines_def Let_def list_all_iff in_order_def matching_def dest!: in_set_takeD split: if_splits)
qed

text \<open>
  A response body made of the first lines of a page is taken only when it is the whole page and
  its lines fit: then it brings its events, and whether there are more.
\<close>

lemma fetchPage_lines:
  assumes L: "log_ok (E @ rest)" and order: "\<And>kvs. mset (range_order kvs) = mset kvs"
    and answer: "respond (page_request src cfg (last_position E) l) = Some r" "rs_status r = 200"
    and body: "rs_complete r \<Longrightarrow> rs_body r = concat (map line (take k (page_after (E @ rest) (last_position E) l)))"
  shows "case fetchPage range_order respond src cfg (last_position E) l of
      Inl e \<Rightarrow> \<not> rs_complete r \<or> k < length (page_after (E @ rest) (last_position E) l) \<or> \<not> list_all (\<lambda>l. length l < maxNDJSONLine) (page_after (E @ rest) (last_position E) l)
    | Inr (events, hasMore) \<Rightarrow> list_all2 same_event events (take (nat l) rest) \<and> (hasMore \<longleftrightarrow> nat l < length rest)"
proof (cases "rs_complete r")
  case False
  then show ?thesis using answer by (auto simp: fetchPage_def bind_err_iffs split: sum.split prod.splits if_splits)
next
  case True
  let ?page = "page_after (E @ rest) (last_position E) l" and ?evs = "take (nat l) rest" and ?fits = "\<lambda>l :: string. length l < maxNDJSONLine"
  have page: "?page = map Event_MarshalJSON ?evs @ [encode (readTrailer (nat l < length rest))]" by (rule page_after_eq [OF L])
  have "list_all printable_text (take k ?page)" using page_lines_printable [OF L] by (auto simp: list_all_iff dest: in_set_takeD)
  then have scan: "scan (rs_body r) = (takeWhile ?fits (take k ?page), list_all ?fits (take k ?page))"
    by (simp add: body [OF True] scan_lines)
  show ?thesis
  proof (cases "list_all ?fits (take k ?page)")
    case False
    then have "\<not> list_all ?fits ?page" by (auto simp: list_all_iff dest: in_set_takeD)
    with False show ?thesis
      using answer scan by (auto simp: fetchPage_def bind_err_iffs split: sum.split)
  next
    case fits: True
    then have ls: "scan (rs_body r) = (take k ?page, True)"
      by (simp add: scan) (simp add: takeWhile_eq_all_conv list_all_iff)
    show ?thesis
    proof (cases "k < length ?page")
      case True
      then have part: "take k ?page = map Event_MarshalJSON (take k ?evs) @ []" by (auto simp: page take_map)
      have "list_all (\<lambda>e. event_text_ok e \<and> event_range_ok e) (take k ?evs)"
        using log_ok_part [OF L, of "min k (nat l)"] by (simp add: min.commute)
      then obtain evs' where "read_lines range_order (take k ?page) [] None = read_lines range_order [] ([] @ evs') None"
        unfolding part by (rule read_event_lines [OF _ order])
      then show ?thesis using True answer ls \<open>rs_complete r\<close> by (simp add: fetchPage_def)
    next
      case False
      obtain evs' where "list_all2 same_event evs' ?evs"
        "read_lines range_order ?page [] None =
           read_lines range_order [encode (readTrailer (nat l < length rest))] ([] @ evs') None"
        unfolding page by (rule read_event_lines [OF log_ok_part [OF L] order])
      with False show ?thesis using answer ls \<open>rs_complete r\<close> by (simp add: fetchPage_def trailer_line)
    qed
  qed
qed

section \<open>What a page adds to the copy\<close>

text \<open>A store that is row for row a copy of a log, and would continue it.\<close>

definition copy_of :: "Store \<Rightarrow> Event list \<Rightarrow> bool" where
  "copy_of st L \<longleftrightarrow> (\<exists>a. store_rep st a \<and> map row_of (sp_log a) = map row_of L \<and> sp_next a = last_position L + 1)"

lemma same_rows_sequences: "map row_of xs = map row_of ys \<Longrightarrow> map ev_sequence xs = map ev_sequence ys"
proof -
  have "map ev_sequence zs = map er_sequence (map row_of zs)" for zs by simp
  then show "map row_of xs = map row_of ys \<Longrightarrow> map ev_sequence xs = map ev_sequence ys" by (simp only:)
qed

lemma same_sequences: "list_all2 same_event xs ys \<Longrightarrow> map ev_sequence xs = map ev_sequence ys"
  by (induction rule: list_all2_induct) (auto simp: same_event_def)

lemma same_mset_distinct: "mset xs = mset ys \<Longrightarrow> distinct ys \<Longrightarrow> distinct xs"
  by (metis mset_eq_imp_distinct_iff)

text \<open>In a log, the last position is the highest.\<close>

lemma last_position_cong: "map ev_sequence xs = map ev_sequence ys \<Longrightarrow> last_position xs = last_position ys"
proof -
  have "last_position zs = (if map ev_sequence zs = [] then 0 else last (map ev_sequence zs))" for zs
    by (simp add: last_position_def last_map)
  then show "map ev_sequence xs = map ev_sequence ys \<Longrightarrow> last_position xs = last_position ys" by (simp only:)
qed

lemma last_position_append: "last_position (xs @ ys) = (if ys = [] then last_position xs else last_position ys)"
  by (simp add: last_position_def)

lemma highest_sequence_last:
  assumes "sorted (map ev_sequence evs)" "\<forall>e\<in>set evs. 0 < ev_sequence e"
  shows "highest_sequence evs = last_position evs"
proof (cases "evs = []")
  case False
  then have "Max (insert 0 (ev_sequence ` set evs)) = ev_sequence (last evs)"
    using assms sorted_le_last [OF assms(1)] by (intro Max_eqI) (auto simp: last_map less_imp_le)
  with False show ?thesis by (simp add: highest_sequence_Max last_position_def)
qed (simp add: highest_sequence_Max last_position_def)

lemma copy_LastSequence:
  assumes "copy_of st L"
  shows "LastSequence st = last_position L"
proof -
  obtain a where "store_rep st a" "sp_next a = last_position L + 1" using assms by (auto simp: copy_of_def)
  then show ?thesis by (simp add: LastSequence_def store_rep_def i64_id)
qed

text \<open>What an import needs of the events it adds: positions in order, in range, and no tag twice.\<close>

definition importable :: "Event list \<Rightarrow> bool" where
  "importable L \<longleftrightarrow>
     sorted_wrt (<) (map ev_sequence L) \<and>
     list_all (\<lambda>e. 0 < ev_sequence e \<and> ev_sequence e < max_i64 \<and> tags_distinct (ev_data e)) L"

lemma log_ok_importable: "log_ok L \<Longrightarrow> importable L"
  by (auto simp: log_ok_def importable_def list_all_iff)

lemma importable_first: "importable (xs @ ys) \<Longrightarrow> importable xs"
  by (simp add: importable_def sorted_wrt_append)

lemma copy_import:
  assumes st: "copy_of st xs" and L: "importable (xs @ ys)" and same: "list_all2 same_event events ys"
    and run: "Import faults st events = (res, st1)"
  shows "(\<exists>e. from_fault faults e \<and> res = Some e \<and> st1 = st) \<or> (res = None \<and> copy_of st1 (xs @ ys))"
proof -
  obtain a where a: "store_rep st a" "map row_of (sp_log a) = map row_of xs" "sp_next a = last_position xs + 1"
    using st by (auto simp: copy_of_def)
  have rows: "map row_of events = map row_of ys"
    using same by (induction rule: list_all2_induct) (simp_all add: same_event_row)
  have seqs: "map ev_sequence (sp_log a) = map ev_sequence xs" "map ev_sequence events = map ev_sequence ys"
    using same_rows_sequences a(2) rows by blast+
  have sorted: "sorted_wrt (<) (map ev_sequence (sp_log a @ events))" using L by (simp add: importable_def seqs)
  have "list_all (\<lambda>e. tags_distinct (ev_data e)) ys" using L by (simp add: importable_def list_all_iff)
  with same have tags: "list_all (\<lambda>e. distinct (ed_identifiers (ev_data e)) \<and> distinct (ed_metadata (ev_data e))) events"
    by (induction rule: list_all2_induct) (auto simp: tags_distinct_def same_event_def intro: same_mset_distinct)
  have seq_range: "\<forall>n\<in>set (map ev_sequence (xs @ ys)). 0 < n \<and> n < max_i64" using L by (auto simp: importable_def list_all_iff)
  then have "\<forall>n\<in>set (map ev_sequence events). 0 < n \<and> n < max_i64" by (simp only: seqs) auto
  then have wf: "import_wf a events"
    using sorted tags by (auto simp: import_wf_def insertable_def strict_sorted_iff)
  have log: "sp_log (spec_import a events) = sp_log a @ events"
    using sorted by (simp add: spec_import_def sort_key_id_if_sorted strict_sorted_iff)
  have last: "last_position events = last_position ys" by (rule last_position_cong [OF seqs(2)])
  have "0 \<le> last_position xs" using L by (auto simp: last_position_def importable_def list_all_iff less_imp_le)
  have highest: "highest_sequence events = last_position ys"
    using sorted wf last by (subst highest_sequence_last) (auto simp: import_wf_def strict_sorted_iff sorted_append)
  have new: "sp_next (spec_import a events) = last_position (xs @ ys) + 1"
  proof (cases "ys = []")
    case True
    then show ?thesis using same a(3) \<open>0 \<le> last_position xs\<close> by (simp add: spec_import_def)
  next
    case False
    have "last_position xs < last_position ys"
      using False L by (auto simp: last_position_def importable_def list_all_iff sorted_wrt_append)
    with False show ?thesis using same a(3) highest by (auto simp: spec_import_def last_position_append)
  qed
  from Import_spec [OF a(1) wf run] show ?thesis
    using log new rows a(2) by (auto simp: copy_of_def)
qed

section \<open>Copying from a source that serves a log\<close>

lemma copy_pages_round:
  assumes "fetchPage range_order (respond n) src cfg lastSeq (bc_PageLimit cfg) = Inr (events, hasMore)"
    "(if length events > 0 then Import (faults n) st events else (None, st)) = (None, st1)"
    "(if length events > 0 then ev_sequence (last events) else lastSeq) = lastSeq1"
  shows "copy_pages range_order respond faults src cfg (Suc fuel) n lastSeq st =
    (if hasMore then copy_pages range_order respond faults src cfg fuel (Suc n) lastSeq1 st1 else (Complete, Suc n, st1))"
  by (simp only: copy_pages.simps assms sum.case prod.case option.case Let_def)

text \<open>
  What the tool relies on: a source in state \<open>s\<close> serves a log \<open>L\<close>, and a response that came in full
  with status 200 has the lines of the page asked for, maybe only the first of them.
\<close>

locale log_source =
  fixes serves :: "'s \<Rightarrow> Event list \<Rightarrow> bool" and respond :: "'s \<Rightarrow> http_request \<Rightarrow> http_response option"
  assumes serves_log: "serves s L \<Longrightarrow> log_ok L"
    and serves_page: "serves s L \<Longrightarrow> respond s (page_request src cfg a l) = Some r \<Longrightarrow> rs_status r = 200 \<Longrightarrow> rs_complete r \<Longrightarrow>
      \<exists>k. rs_body r = concat (map line (take k (page_after L a l)))"
begin

lemma page_taken:
  assumes "serves s (E @ rest)" "\<And>kvs. mset (range_order kvs) = mset kvs"
    and fetch: "fetchPage range_order (respond s) src cfg (last_position E) l = Inr (events, hasMore)"
  shows "list_all2 same_event events (take (nat l) rest) \<and> (hasMore \<longleftrightarrow> nat l < length rest)"
proof -
  from fetch obtain r where r: "respond s (page_request src cfg (last_position E) l) = Some r" "rs_status r = 200" "rs_complete r"
    by (auto simp: fetchPage_def bind_err_iffs split: option.splits if_splits prod.splits)
  from serves_page [OF assms(1) r] obtain k where
    "rs_body r = concat (map line (take k (page_after (E @ rest) (last_position E) l)))" by blast
  with fetchPage_lines [where respond = "respond s" and k = k and l = l, OF serves_log [OF assms(1)] assms(2) r(1,2)]
  show ?thesis by (simp add: fetch)
qed

lemma import_step:
  assumes "importable (E @ new)" "list_all2 same_event events new" "copy_of st E"
    and "(if length events > 0 then Import faults st events else (None, st)) = (res, st1)"
  shows "(\<exists>e. res = Some e \<and> st1 = st) \<or>
    (res = None \<and> copy_of st1 (E @ new) \<and>
     (if length events > 0 then ev_sequence (last events) else last_position E) = last_position (E @ new))"
proof (cases "events = []")
  case True
  then show ?thesis using assms by auto
next
  case False
  then have "new \<noteq> []" using assms(2) by auto
  then have "ev_sequence (last events) = last_position (E @ new)"
    using False last_position_cong [OF same_sequences [OF assms(2)]] by (simp add: last_position_def)
  then show ?thesis
    using copy_import [OF assms(3,1,2), of faults res st1] False assms(4) by auto
qed

text \<open>
  Wherever the loop stops, the copy is an initial part of the log the source has by then; when it
  ends well, it is all the log that the last page was taken from. The log may grow meanwhile.
\<close>

lemma copy_pages_copies:
  assumes serves: "\<And>n. serves (\<sigma> n) (L n)" and grows: "\<And>n. prefix (L n) (L (Suc n))"
    and order: "\<And>kvs. mset (range_order kvs) = mset kvs"
    and run: "copy_pages range_order (\<lambda>n. respond (\<sigma> n)) faults src cfg fuel n (last_position E) st = (out, n', st')"
    and st: "copy_of st E" "prefix E (L n)"
  shows "\<exists>E'. prefix E E' \<and> prefix E' (L n') \<and> copy_of st' E' \<and> (out = Complete \<longrightarrow> 0 < n' \<and> E' = L (n' - 1))"
  using run st
proof (induction fuel arbitrary: n E st)
  case (Suc fuel)
  obtain rest where L: "L n = E @ rest" using Suc.prems(3) by (auto elim: prefixE)
  have later: "prefix E' (L n) \<Longrightarrow> prefix E' (L (Suc n))" for E' using grows prefix_order.trans by blast
  show ?case
  proof (cases "fetchPage range_order (respond (\<sigma> n)) src cfg (last_position E) (bc_PageLimit cfg)")
    case (Inl e)
    then show ?thesis using Suc.prems later by (auto intro!: exI [of _ E])
  next
    case (Inr page)
    obtain events hasMore where page: "page = (events, hasMore)" by fastforce
    let ?new = "take (nat (bc_PageLimit cfg)) rest"
    have new: "list_all2 same_event events ?new" "hasMore \<longleftrightarrow> nat (bc_PageLimit cfg) < length rest"
      using page_taken [OF _ order Inr [unfolded page]] serves [of n] by (simp_all add: L)
    have rest: "L n = (E @ ?new) @ drop (nat (bc_PageLimit cfg)) rest" by (simp add: L)
    then have ok: "log_ok (E @ ?new)" using serves_log [OF serves [of n]] log_ok_first by metis
    obtain res st1 where imp: "(if length events > 0 then Import (faults n) st events else (None, st)) = (res, st1)" by fastforce
    show ?thesis
      using import_step [OF log_ok_importable [OF ok] new(1) Suc.prems(2) imp]
    proof (elim disjE exE conjE)
      fix e
      assume "res = Some e" "st1 = st"
      then have "out = Stopped (Database e) \<and> n' = Suc n \<and> st' = st"
        using Suc.prems(1) Inr page imp by (auto split: if_splits)
      then show ?thesis using Suc.prems(2,3) later by (intro exI [of _ E]) auto
    next
      assume st1: "res = None" "copy_of st1 (E @ ?new)"
        "(if length events > 0 then ev_sequence (last events) else last_position E) = last_position (E @ ?new)"
      have here: "prefix (E @ ?new) (L n)" by (subst rest) (rule prefixI [OF refl])
      have run: "(if hasMore then copy_pages range_order (\<lambda>n. respond (\<sigma> n)) faults src cfg fuel (Suc n) (last_position (E @ ?new)) st1
          else (Complete, Suc n, st1)) = (out, n', st')"
        using Suc.prems(1) copy_pages_round [where respond = "\<lambda>n. respond (\<sigma> n)" and faults = faults and n = n, OF Inr [unfolded page] imp [unfolded st1(1)] st1(3)] by simp
      show ?thesis
      proof (cases hasMore)
        case True
        then obtain E' where "prefix (E @ ?new) E'" "prefix E' (L n')" "copy_of st' E'" "out = Complete \<longrightarrow> 0 < n' \<and> E' = L (n' - 1)"
          using Suc.IH [OF _ st1(2) later [OF here]] run by auto
        then show ?thesis using prefix_order.trans [of E "E @ ?new" E'] by (intro exI [of _ E']) auto
      next
        case False
        then have "E @ ?new = L n" using new(2) by (simp add: L)
        then show ?thesis using run False st1(2) later [OF here] Suc.prems(3) by (intro exI [of _ "E @ ?new"]) auto
      qed
    qed
  qed
next
  case 0
  then show ?case by (intro exI [of _ E]) auto
qed

text \<open>
  When the source answers every page of a log in full, no import fails and no line is too long,
  the loop ends well, after at most one page more than there are events to copy.
\<close>

lemma copy_pages_completes:
  assumes L: "serves s L" and order: "\<And>kvs. mset (range_order kvs) = mset kvs" and limit: "0 < bc_PageLimit cfg"
    and answers: "\<And>E. prefix E L \<Longrightarrow> respond s (page_request src cfg (last_position E) (bc_PageLimit cfg)) =
        Some \<lparr>rs_status = 200, rs_body = concat (map line (page_after L (last_position E) (bc_PageLimit cfg))), rs_complete = True\<rparr>"
    and fits: "list_all (\<lambda>e. length (Event_MarshalJSON e) < maxNDJSONLine) L"
    and st: "copy_of st E" "prefix E L" "length L - length E < fuel"
  shows "\<exists>n' st'. copy_pages range_order (\<lambda>_. respond s) (\<lambda>_. no_faults) src cfg fuel n (last_position E) st = (Complete, n', st') \<and>
    copy_of st' L"
  using st
proof (induction fuel arbitrary: n E st)
  case (Suc fuel)
  obtain rest where rest: "L = E @ rest" using Suc.prems(2) by (auto elim: prefixE)
  let ?l = "bc_PageLimit cfg"
  let ?new = "take (nat ?l) rest" and ?page = "page_after L (last_position E) ?l"
  note log = serves_log [OF L, unfolded rest]
  have page: "?page = map Event_MarshalJSON ?new @ [encode (readTrailer (nat ?l < length rest))]"
    using page_after_eq [OF log] by (simp add: rest)
  have "length (encode (readTrailer b)) < maxNDJSONLine" for b by (simp add: trailer_short)
  then have short: "list_all (\<lambda>l. length l < maxNDJSONLine) ?page"
    using fits unfolding page by (auto simp: rest list_all_iff dest: in_set_takeD)
  obtain events where fetch: "fetchPage range_order (respond s) src cfg (last_position E) ?l = Inr (events, nat ?l < length rest)"
    "list_all2 same_event events ?new"
    using fetchPage_lines [where respond = "respond s" and src = src and cfg = cfg and k = "length ?page" and l = ?l, OF log order answers [OF Suc.prems(2)]] short
    by (auto simp: rest split: sum.splits)
  obtain res st1 where imp: "(if length events > 0 then Import no_faults st events else (None, st)) = (res, st1)" by fastforce
  have ok: "log_ok (E @ ?new)" using log log_ok_first [of "E @ ?new" "drop (nat ?l) rest"] by simp
  have "res = None"
    using copy_import [OF Suc.prems(1) log_ok_importable [OF ok] fetch(2)] imp by (fastforce simp: from_fault_def split: if_splits)
  then have st1: "res = None" "copy_of st1 (E @ ?new)"
    "(if length events > 0 then ev_sequence (last events) else last_position E) = last_position (E @ ?new)"
    using import_step [OF log_ok_importable [OF ok] fetch(2) Suc.prems(1) imp] by auto
  have run: "copy_pages range_order (\<lambda>_. respond s) (\<lambda>_. no_faults) src cfg (Suc fuel) n (last_position E) st =
      (if nat ?l < length rest
       then copy_pages range_order (\<lambda>_. respond s) (\<lambda>_. no_faults) src cfg fuel (Suc n) (last_position (E @ ?new)) st1
       else (Complete, Suc n, st1))"
    by (rule copy_pages_round [where respond = "\<lambda>_. respond s" and faults = "\<lambda>_. no_faults" and n = n, OF fetch(1) imp [unfolded st1(1)] st1(3)])
  show ?case
  proof (cases "nat ?l < length rest")
    case True
    have "prefix (E @ ?new) L" unfolding rest by (simp add: take_is_prefix)
    moreover have "length L - length (E @ ?new) < fuel" using True limit Suc.prems(3) by (simp add: rest)
    ultimately show ?thesis using Suc.IH [OF st1(2)] True by (simp only: run if_True)
  next
    case False
    then show ?thesis using run st1(2) by (simp add: rest)
  qed
qed simp

end

section \<open>The server as a source\<close>

text \<open>
  A moment of the server: its state, what its handler meets, and how its response reaches the tool.
  The URL of the source is that of the root of the server.
\<close>

datatype delivery = Lost | Cut nat | Delivered

record moment =
  mo_server :: Server
  mo_sha256 :: "string \<Rightarrow> string"
  mo_env :: env
  mo_gone :: "nat \<Rightarrow> bool"
  mo_delivery :: delivery

definition as_request :: "http_request \<Rightarrow> request" where
  "as_request hr =
     \<lparr>rq_method = hr_method hr, rq_path = [''events''], rq_authorization = hr_authorization hr,
      rq_body = \<lparr>rb_bytes = hr_body hr, rb_complete = True\<rparr>\<rparr>"

definition api_respond :: "moment \<Rightarrow> http_request \<Rightarrow> http_response option" where
  "api_respond m hr =
     (case ServeHTTP (mo_sha256 m) (mo_env m) (mo_gone m) (as_request hr) (mo_server m) of
        None \<Rightarrow> None
      | Some (sw, _, _) \<Rightarrow>
          (case mo_delivery m of
             Lost \<Rightarrow> None
           | Cut n \<Rightarrow> Some \<lparr>rs_status = sw_status sw, rs_body = take n (concat (sw_body sw)), rs_complete = False\<rparr>
           | Delivered \<Rightarrow> Some \<lparr>rs_status = sw_status sw, rs_body = concat (sw_body sw), rs_complete = True\<rparr>))"

definition limits_ok :: "Options \<Rightarrow> bool" where
  "limits_ok opts \<longleftrightarrow>
     0 < op_DefaultEventsPerPage opts \<and> op_DefaultEventsPerPage opts \<le> op_MaxEventsPerPage opts \<and> op_MaxEventsPerPage opts < max_i64"

definition api_serves :: "moment \<Rightarrow> Event list \<Rightarrow> bool" where
  "api_serves m L \<longleftrightarrow>
     (\<exists>a. server_ok (mo_server m) a \<and> sp_log a = L) \<and> log_ok L \<and> limits_ok (sv_opts (mo_server m))"

lemma handleErr_fresh:
  assumes "\<not> sw_wroteHeader sw" "sw_status (fst (handleErr en err (sw, s))) = 200"
  shows "sw_body (fst (handleErr en err (sw, s))) = sw_body sw"
proof (cases "en_gone en \<or> err = ClientGone")
  case True
  then show ?thesis by (auto simp: handleErr_def Let_def)
next
  case False
  obtain status code sent where st: "err_status err = (status, code, sent)" by (cases "err_status err")
  then have "status \<noteq> 200" by (rule err_status_code) auto
  then show ?thesis using handleErr_status [of en err sw s] assms False st by simp
qed

lemma read_events_200:
  assumes rep: "store_rep (sv_store s) a" and lims: "limits_ok (sv_opts s)"
    and status: "sw_status (fst (handleReadEvents en body (new_statusWriter gone, s))) = 200"
    and page: "\<And>f. parseReadRequest (en_is_print en) (sv_opts s) body = Inr f \<Longrightarrow> page_lines (sp_log a) f = ls"
  shows "\<exists>k. concat (sw_body (fst (handleReadEvents en body (new_statusWriter gone, s)))) = concat (map line (take k ls))"
proof -
  let ?sw = "new_statusWriter gone"
  have new: "\<not> sw_wroteHeader ?sw" "sw_body ?sw = []" by (simp_all add: new_statusWriter_def)
  have fresh: ?thesis if "handleReadEvents en body (?sw, s) = handleErr en err (?sw, s)" for err
    using handleErr_fresh [OF new(1)] status that new(2) by (intro exI [of _ 0]) simp
  show ?thesis
  proof (cases "parseReadRequest (en_is_print en) (sv_opts s) body")
    case (Inl e)
    then show ?thesis by (intro fresh) (simp add: handleReadEvents_def)
  next
    case (Inr f)
    then obtain req where "read_filter (sv_opts s) req = Inr f" by (auto simp: parseReadRequest_def bind_err_iffs)
    with read_filter_Inr [of "sv_opts s" req f] lims have f: "1 \<le> rf_limit f" "rf_limit f < max_i64" "query_wf (rf_query f)"
      using Query_Validate_wf by (auto simp: limits_ok_def)
    show ?thesis
    proof (cases "Read (en_faults en) (sv_store s) f")
      case (Inl e)
      then show ?thesis using Inr by (intro fresh) (simp add: handleReadEvents_def handle_op_def)
    next
      case (Inr p)
      then have p: "p = spec_page (sp_log a) f" using Read_spec [OF rep f(3,1,2), of "en_faults en"] by simp
      obtain sw1 ok where w: "writePage (spec_page (sp_log a) f) ?sw = (sw1, ok)" by fastforce
      have "fst (handleReadEvents en body (?sw, s)) = sw1"
        using \<open>parseReadRequest _ _ _ = _\<close> Inr p w by (simp add: handleReadEvents_def handleErr_def Let_def)
      moreover obtain k where "sw_body sw1 = map line (take k (page_lines (sp_log a) f))"
        using writePage_sends [OF w] by (rule sendsE) (auto simp: WriteHeader_def Header_Set_def new_statusWriter_def)
      ultimately show ?thesis using page \<open>parseReadRequest _ _ _ = _\<close> by auto
    qed
  qed
qed

text \<open>The request of a page, as the server reads it.\<close>

lemma page_query_parse: "parse_json (encode (page_query a l)) = Some (page_query a l)"
proof (rule parse_encode)
  show "text_ok (page_query a l)"
    using valid_utf8_ascii [of "''query''"] valid_utf8_ascii [of "''all''"] valid_utf8_ascii [of "''afterSequence''"]
      valid_utf8_ascii [of "''limit''"] by (simp add: page_query_def bc_def)
qed (simp add: page_query_def max_depth_def)

lemma readRequest_fields:
  "readRequest_field is_print ''query'' v r = map_option (\<lambda>q. r\<lparr>rr_Query := q\<rparr>) (decode_query is_print v)"
  "readRequest_field is_print ''afterSequence'' v r =
     map_option (\<lambda>n. r\<lparr>rr_AfterSequence := n\<rparr>) (decode_pointer decode_int 0 (rr_AfterSequence r) v)"
  "readRequest_field is_print ''limit'' v r = map_option (\<lambda>n. r\<lparr>rr_Limit := n\<rparr>) (decode_pointer decode_int 0 (rr_Limit r) v)"
  by (simp_all add: readRequest_field_def is_field_def fold_byte_def bc_def byte_def)

lemma decode_all: "decode_query is_print (JString ''all'') = Some QueryAll"
  by (simp add: decode_query_def Query_UnmarshalJSON_def)

lemma page_query_request:
  "parseReadRequest is_print opts \<lparr>rb_bytes = encode (page_query a l), rb_complete = True\<rparr> =
    (if int (length (encode (page_query a l))) > op_MaxRequestBodySize opts then Inl (BodyTooLarge (op_MaxRequestBodySize opts))
     else if - max_i64 - 1 \<le> a \<and> a \<le> max_i64 \<and> - max_i64 - 1 \<le> l \<and> l \<le> max_i64
     then read_filter opts \<lparr>rr_Query = QueryAll, rr_AfterSequence = Some a, rr_Limit = Some l, rr_Backwards = False\<rparr>
     else Inl (Invalid [] MalformedBody))"
  by (simp add: parseReadRequest_def decodeJSONStrict_def readBody_def decode_body_def page_query_parse)
    (simp add: page_query_def readRequest_fields decode_all decode_pointer_def no_readRequest_def)

lemma page_query_filter:
  assumes "parseReadRequest is_print opts \<lparr>rb_bytes = encode (page_query a l), rb_complete = True\<rparr> = Inr f"
  shows "f = \<lparr>rf_query = QueryAll, rf_after = Some a, rf_limit = l, rf_backwards = False\<rparr>"
  using assms by (auto simp: page_query_request read_filter_def Let_def split: if_splits option.splits)

lemma events_route: "find_route (routes dev) ''QUERY'' [''events''] = Some EReadEvents"
  by (simp add: routes_def method_matches_def no_value_def)

text \<open>What the server does with a request of the tool: it refuses the token, or reads events.\<close>

lemma ServeHTTP_events:
  assumes "hr_method hr = ''QUERY''" "ServeHTTP sha256 en gone (as_request hr) s = Some (sw, s', logged)"
  shows "sw_status sw = 401 \<or> sw = fst (handleReadEvents en \<lparr>rb_bytes = hr_body hr, rb_complete = True\<rparr> (new_statusWriter gone, s))"
proof -
  have "map_of codeLevel ''Unauthorized'' = Some levelInfo" by (simp add: codeLevel_def)
  from writeError_response(1) [OF this] show ?thesis
    using assms events_route
    by (auto simp: ServeHTTP_def withAuth_def serve_mux_def as_request_def Let_def split: if_splits option.splits)
qed

text \<open>The server keeps what the backup relies on.\<close>

interpretation api: log_source api_serves api_respond
proof
  fix m L src cfg a l r
  assume "api_serves m L"
  then obtain b where b: "server_ok (mo_server m) b" "sp_log b = L" "limits_ok (sv_opts (mo_server m))" and "log_ok L"
    by (auto simp: api_serves_def)
  then show "log_ok L" by simp
  assume r: "api_respond m (page_request src cfg a l) = Some r" "rs_status r = 200" "rs_complete r"
  let ?body = "\<lparr>rb_bytes = encode (page_query a l), rb_complete = True\<rparr>"
  let ?h = "handleReadEvents (mo_env m) ?body (new_statusWriter (mo_gone m), mo_server m)"
  obtain sw s' logged where sw: "ServeHTTP (mo_sha256 m) (mo_env m) (mo_gone m) (as_request (page_request src cfg a l)) (mo_server m) =
      Some (sw, s', logged)" "sw_status sw = 200" "rs_body r = concat (sw_body sw)"
    using r by (auto simp: api_respond_def split: option.splits delivery.splits)
  from ServeHTTP_events [OF _ sw(1)] sw(2) have "sw = fst ?h" by (simp add: page_request_def)
  moreover have "\<exists>k. concat (sw_body (fst ?h)) = concat (map line (take k (page_after L a l)))"
    by (rule read_events_200 [OF reg_okD(3) [OF b(1)] b(3)])
      (use sw(2) \<open>sw = fst ?h\<close> b(2) in \<open>auto dest: page_query_filter\<close>)
  ultimately show "\<exists>k. rs_body r = concat (map line (take k (page_after L a l)))" by (simp add: sw(3))
qed

text \<open>A server whose network and disk work, and that the tool may ask, answers every page in full.\<close>

definition answering :: "moment \<Rightarrow> backup_config \<Rightarrow> bool" where
  "answering m cfg \<longleftrightarrow>
     mo_delivery m = Delivered \<and> mo_gone m = (\<lambda>_. False) \<and> en_faults (mo_env m) = no_faults \<and>
     (op_AuthToken (sv_opts (mo_server m)) = [] \<or> op_AuthToken (sv_opts (mo_server m)) = bc_SourceToken cfg) \<and>
     0 < bc_PageLimit cfg \<and> bc_PageLimit cfg \<le> op_MaxEventsPerPage (sv_opts (mo_server m))"

lemma bearerToken_header: "bearerToken (''Bearer '' @ t) = Some t"
  by (simp add: bearerToken_def bearerPrefix_def fold_byte_def bc_def)

lemma log_positions: "log_ok L \<Longrightarrow> prefix E L \<Longrightarrow> 0 \<le> last_position E \<and> last_position E < max_i64"
  by (auto simp: prefix_def log_ok_def last_position_def list_all_iff intro: less_imp_le)

lemma api_answers:
  assumes m: "api_serves m L" "answering m cfg" and E: "prefix E L"
    and size: "int (length (encode (page_query (last_position E) (bc_PageLimit cfg)))) \<le> op_MaxRequestBodySize (sv_opts (mo_server m))"
  shows "api_respond m (page_request src cfg (last_position E) (bc_PageLimit cfg)) =
    Some \<lparr>rs_status = 200, rs_body = concat (map line (page_after L (last_position E) (bc_PageLimit cfg))), rs_complete = True\<rparr>"
proof -
  let ?s = "mo_server m" and ?en = "mo_env m" and ?a = "last_position E" and ?l = "bc_PageLimit cfg"
  let ?body = "\<lparr>rb_bytes = encode (page_query ?a ?l), rb_complete = True\<rparr>"
  let ?rq = "as_request (page_request src cfg ?a ?l)"
  obtain b where b: "server_ok ?s b" "sp_log b = L" "limits_ok (sv_opts ?s)" "log_ok L" using m(1) by (auto simp: api_serves_def)
  note up = m(2) [unfolded answering_def] and lims = b(3) [unfolded limits_ok_def]
  have "parseReadRequest (en_is_print ?en) (sv_opts ?s) ?body =
      Inr \<lparr>rf_query = QueryAll, rf_after = Some ?a, rf_limit = ?l, rf_backwards = False\<rparr>"
    using size log_positions [OF b(4) E] up lims
    by (simp add: page_query_request read_filter_def validateLimit_def invalid_query_def Query_Validate_def QueryAll_def Let_def)
  note parse = this
  have faults: "en_faults ?en = no_faults" using up by blast
  obtain sw ok where sw: "handleReadEvents ?en ?body (new_statusWriter (mo_gone m), ?s) = (sw, ?s)"
    "sends (page_after (sp_log b) ?a ?l) (WriteHeader 200 (Header_Set ''Content-Type'' ''application/x-ndjson''
       (new_statusWriter (mo_gone m)))) sw ok"
    using handleReadEvents_sends [OF reg_okD(3) [OF b(1)] parse lims [THEN conjunct1] lims [THEN conjunct2, THEN conjunct1]
      lims [THEN conjunct2, THEN conjunct2] faults] by metis
  have gone: "mo_gone m = (\<lambda>_. False)" using up by blast
  have out: "sw_body sw = map line (page_after L ?a ?l) \<and> sw_status sw = 200"
    using sw(2) unfolding gone b(2)
    by (rule sendsE) (cases ok; simp add: WriteHeader_def Header_Set_def new_statusWriter_def)
  have mux: "serve_mux ?en ?rq (new_statusWriter (mo_gone m), ?s) = Some (sw, ?s)"
    using sw(1) events_route by (simp add: serve_mux_def as_request_def page_request_def Let_def)
  have auth: "withAuth (mo_sha256 m) ?rq h (w, ?s) = h (w, ?s)" if "op_AuthToken (sv_opts ?s) \<noteq> []" for h w
  proof -
    have "rq_authorization ?rq = ''Bearer '' @ op_AuthToken (sv_opts ?s)"
      using up that by (auto simp: as_request_def page_request_def)
    then have "bearerToken (rq_authorization ?rq) = Some (op_AuthToken (sv_opts ?s))" by (simp only: bearerToken_header)
    then show ?thesis by (simp add: withAuth_def constantTimeEqual_def Let_def)
  qed
  obtain logged where "ServeHTTP (mo_sha256 m) ?en (mo_gone m) ?rq ?s = Some (sw, ?s, logged)"
    using mux auth by (cases "op_AuthToken (sv_opts ?s) = []") (simp_all add: ServeHTTP_def Let_def)
  moreover have "mo_delivery m = Delivered" using up by blast
  ultimately show ?thesis using out by (simp add: api_respond_def)
qed

section \<open>The file of the backup\<close>

definition file_copy :: "dbfile \<Rightarrow> Event list \<Rightarrow> bool" where
  "file_copy f E \<longleftrightarrow> (\<exists>log. db_log (file_tables f) log \<and> map row_of log = map row_of E)"

lemma file_copy_Close: "copy_of st E \<Longrightarrow> file_copy (Close st f) E"
  by (auto simp: copy_of_def file_copy_def store_rep_def Close_def releaseLock_def file_tables_def)

lemma Open_copies:
  assumes f: "file_copy f E" "f_exists f \<or> E = []" "importable E" and run: "Open io faults f = (r, f1)"
  shows "case r of Inl e \<Rightarrow> file_copy f1 E | Inr st \<Rightarrow> copy_of st E"
proof -
  obtain log where log: "db_log (file_tables f) log" "map row_of log = map row_of E" using f(1) by (auto simp: file_copy_def)
  note seqs = same_rows_sequences [OF log(2)]
  have range: "\<forall>e\<in>set log. 0 < ev_sequence e \<and> ev_sequence e < max_i64"
  proof -
    have "\<forall>n\<in>set (map ev_sequence E). 0 < n \<and> n < max_i64" using f(3) by (auto simp: importable_def list_all_iff)
    then have "\<forall>n\<in>set (map ev_sequence log). 0 < n \<and> n < max_i64" by (simp only: seqs)
    then show ?thesis by simp
  qed
  show ?thesis
  proof (cases r)
    case (Inr st)
    let ?log = "if f_exists f then log else []"
    have "map row_of ?log = map row_of E" using log(2) f(2) by auto
    then show ?thesis
      using Open_resumes [OF run [unfolded Inr] log(1) range] last_position_cong [OF same_rows_sequences [of ?log E]]
      by (auto simp: Inr copy_of_def)
  next
    case (Inl e)
    have "file_tables f1 = file_tables f \<or> \<not> f_exists f \<and> file_tables f1 = empty_tables"
      using run open_steps_Inl
      by (auto simp: Inl Open_def acquireLock_def createPrivate_def releaseLock_def file_tables_def
          split: if_splits sum.splits prod.splits option.splits dest!: open_steps_Inl)
    then show ?thesis using Inl f log empty_db_log by (auto simp: file_copy_def)
  qed
qed

text \<open>A file that the tool can open: nobody has it, and it is at this version and not paused.\<close>

definition openable :: "dbfile \<Rightarrow> bool" where
  "openable f \<longleftrightarrow>
     \<not> f_locked f \<and> (if f_exists f then f_tables f \<noteq> None \<and> f_version f = schemaVersion \<and> t_paused_at (file_tables f) = None else True)"

lemma openable_opens: "openable f \<Longrightarrow> \<exists>st f1. Open (\<lambda>_. False) no_faults f = (Inr st, f1)"
  by (auto simp: openable_def Open_def acquireLock_def createPrivate_def open_steps_def ensureSchema_def createSchema_def
      readPausedAt_def file_tables_def empty_tables_def split: if_splits)

section \<open>Properties\<close>

text \<open>A server with one event, and a tool configured for it by its environment.\<close>

definition user_log :: "Event list" where
  "user_log = [\<lparr>ev_sequence = 1, ev_time = 5, ev_data = user_created\<rparr>]"

definition user_moment :: moment where
  "user_moment = \<lparr>mo_server = fresh_server\<lparr>sv_txs := Registry_New (Writer_New one_user_store) small_config (\<lambda>n. 5),
       sv_opts := plain_options\<lparr>op_AuthToken := []\<rparr>\<rparr>,
     mo_sha256 = (\<lambda>x. x), mo_env = quiet_env, mo_gone = (\<lambda>_. False), mo_delivery = Delivered\<rparr>"

definition backup_host :: host where
  "backup_host = \<lparr>h_files = (\<lambda>_. Missing),
     h_env = [''TAMARACKDB_BACKUP_SOURCE_SOCKET'' \<mapsto> ''/s'', ''TAMARACKDB_BACKUP_PAGE_LIMIT'' \<mapsto> ''10''], h_toml = (\<lambda>_. None), h_toml_bools = (\<lambda>_. None),
     h_unicode_lower = id, h_url = (\<lambda>_. None)\<rparr>"

definition user_backup :: backup_config where
  "user_backup = \<lparr>bc_SourceURL = [], bc_SourceSocket = ''/s'', bc_SourceTokenFile = [], bc_SourceToken = [],
     bc_DataDir = ''backup'', bc_PageLimit = 10\<rparr>"

definition working_backup :: "backup_env" where
  "working_backup = \<lparr>be_host = backup_host, be_mkdir = True, be_io = (\<lambda>_. False), be_open_faults = no_faults,
     be_faults = (\<lambda>_. no_faults), be_range_order = (\<lambda>kvs. kvs), be_respond = (\<lambda>_. api_respond user_moment)\<rparr>"

lemma user_backup_loads: "LoadBackup backup_host ''config.toml'' = Inr user_backup"
proof -
  have limit: "Atoi ''10'' = Some 10" by code_simp
  have read: "readFile backup_host ''config.toml'' = Inr (empty_file, [], False)" by (simp add: readFile_def backup_host_def)
  have "applyBackupEnv backup_host False no_backup_config = Inr (user_backup\<lparr>bc_DataDir := []\<rparr>)"
    by (simp add: applyBackupEnv_def envString_def envInt_def no_backup_config_def backup_host_def limit) (simp add: user_backup_def)
  moreover have "Backup_Validate backup_host user_backup = None"
    by (simp add: Backup_Validate_def user_backup_def maxSocketPathLen_def)
  ultimately show ?thesis
    by (simp add: LoadBackup_def read empty_file_def Let_def) (simp add: user_backup_def no_backup_config_def)
qed

lemma user_log_ok: "log_ok user_log"
proof -
  have "event_text_ok \<lparr>ev_sequence = 1, ev_time = 5, ev_data = user_created\<rparr>"
    by (simp add: event_text_ok_def user_created_def id_pair_def valid_utf8_ascii bc_def)
  then show ?thesis
    by (simp add: log_ok_def user_log_def event_range_ok_def tags_distinct_def us_per_day_def) (simp add: user_created_def)
qed

lemma user_moment_serves: "api_serves user_moment user_log"
proof -
  have "reg_ok (Registry_New (Writer_New one_user_store) small_config (\<lambda>n. 5)) one_user"
    by (rule new_registry_ok) (simp_all add: small_config_def config_wf_def Writer_New_def one_user_rep)
  then show ?thesis
    using user_log_ok
    by (auto simp: api_serves_def user_moment_def one_user_def user_log_def limits_ok_def fresh_server_def plain_options_def)
qed

lemma no_backup_file: "file_copy no_file []" "openable no_file" "\<not> f_exists no_file"
  using empty_db_log by (simp_all add: file_copy_def no_file_def file_tables_def openable_def)

lemma user_log_short: "list_all (\<lambda>e. length (Event_MarshalJSON e) < maxNDJSONLine) user_log"
proof -
  have "drop 200 (Event_MarshalJSON \<lparr>ev_sequence = 1, ev_time = 5, ev_data = user_created\<rparr>) = []" by code_simp
  then have "length (Event_MarshalJSON \<lparr>ev_sequence = 1, ev_time = 5, ev_data = user_created\<rparr>) \<le> 200" by simp
  then show ?thesis unfolding user_log_def maxNDJSONLine_def by simp
qed

lemma user_query_short:
  assumes "prefix E user_log"
  shows "int (length (encode (page_query (last_position E) 10))) \<le> 1000"
proof -
  have "last_position E = 0 \<or> last_position E = 1"
    using assms by (auto simp: user_log_def prefix_Cons last_position_def)
  moreover have "drop 200 (encode (page_query 0 10)) = []" "drop 200 (encode (page_query 1 10)) = []" by code_simp+
  ultimately show ?thesis by auto
qed

text \<open>C7. Whatever goes wrong in a backup, what it leaves is a copy: if the backup file held, row for row,
  the first events of the source's log, then after a run it holds at least these, and still the
  first events of the log that the source has by then. When the run ends well, it holds all of the
  log that its last page was read from. The source is this server, in any states that serve a log
  that only grows; the token may be wrong, responses may be errors, cut short or lost, and imports
  and the file itself may fail.\<close>

theorem backup_copies_a_prefix:
  assumes "LoadBackup (be_host be) configPath = Inr cfg" "run_backup be configPath fuel files = (out, files')"
    and "be_respond be = (\<lambda>n. api_respond (m n))" "\<And>n. api_serves (m n) (L n)" "\<And>n. prefix (L n) (L (Suc n))"
    and "\<And>kvs. mset (be_range_order be kvs) = mset kvs"
    and "file_copy (files (backup_path cfg)) E" "f_exists (files (backup_path cfg)) \<or> E = []" "prefix E (L 0)"
  shows "\<exists>N E'. prefix E E' \<and> prefix E' (L N) \<and> file_copy (files' (backup_path cfg)) E' \<and>
    (if out = Complete then 0 < N \<and> E' = L (N - 1) else True)"
proof -
  let ?f = "files (backup_path cfg)"
  have keep: ?thesis if "file_copy (files' (backup_path cfg)) E" "out \<noteq> Complete"
    using that assms(9) by (intro exI [of _ 0] exI [of _ E]) simp
  show ?thesis
  proof (cases "be_mkdir be")
    case False
    then show ?thesis using assms(1,2,7) by (intro keep) (auto simp: run_backup_def)
  next
    case True
    obtain r f1 where open': "Open (be_io be) (be_open_faults be) ?f = (r, f1)" by fastforce
    have "log_ok E" using log_ok_first assms(9) api.serves_log [OF assms(4)] by (auto simp: prefix_def) metis
    note copies = Open_copies [OF assms(7,8) log_ok_importable [OF this] open']
    show ?thesis
    proof (cases r)
      case (Inl e)
      then show ?thesis using assms(1,2) open' copies True by (intro keep) (auto simp: run_backup_def Let_def)
    next
      case (Inr st)
      then have st: "copy_of st E" using copies by simp
      obtain n st1 where run: "copy_pages (be_range_order be) (\<lambda>n. api_respond (m n)) (be_faults be) (newSource cfg) cfg fuel 0
          (last_position E) st = (out, n, st1)" and f': "files' (backup_path cfg) = Close st1 f1"
        using assms(1-3) open' Inr True copy_LastSequence [OF st] by (auto simp: run_backup_def Let_def split: prod.splits)
      from api.copy_pages_copies [OF assms(4-6) run st assms(9)] show ?thesis
        using f' file_copy_Close by fastforce
    qed
  qed
qed

theorem backup_copies_a_prefix_witness:
  "\<exists>E'. prefix E' user_log \<and>
     file_copy (snd (run_backup (working_backup\<lparr>be_faults := (\<lambda>n k. Some Other)\<rparr>) ''config.toml'' 5 (\<lambda>_. no_file)) (backup_path user_backup)) E'"
proof -
  let ?be = "working_backup\<lparr>be_faults := (\<lambda>n k. Some Other)\<rparr>"
  obtain out files' where run: "run_backup ?be ''config.toml'' 5 (\<lambda>_. no_file) = (out, files')" by fastforce
  have "LoadBackup (be_host ?be) ''config.toml'' = Inr user_backup" "be_respond ?be = (\<lambda>n. api_respond ((\<lambda>_. user_moment) n))"
    "\<And>kvs. mset (be_range_order ?be kvs) = mset kvs"
    by (simp_all add: working_backup_def user_backup_loads)
  from backup_copies_a_prefix [OF this(1) run this(2), of "\<lambda>_. user_log" "[]"] this(3) show ?thesis
    using user_moment_serves no_backup_file by (auto simp: run)
qed

text \<open>C28. A backup whose source answers, and whose own file and disk work, ends: after at most one page
  more than there are events to copy, with the whole log of the source in its file. Every line must
  be shorter than 16 MiB and every request within the server's body limit.\<close>

theorem backup_completes:
  assumes "LoadBackup (be_host be) configPath = Inr cfg" "be_mkdir be" "be_io be = (\<lambda>_. False)" "be_open_faults be = no_faults"
    and "be_faults be = (\<lambda>_. no_faults)" "be_respond be = (\<lambda>_. api_respond m)" "\<And>kvs. mset (be_range_order be kvs) = mset kvs"
    and "api_serves m L" "answering m cfg" "list_all (\<lambda>e. length (Event_MarshalJSON e) < maxNDJSONLine) L"
    and "\<And>E. prefix E L \<Longrightarrow>
      int (length (encode (page_query (last_position E) (bc_PageLimit cfg)))) \<le> op_MaxRequestBodySize (sv_opts (mo_server m))"
    and "openable (files (backup_path cfg))" "file_copy (files (backup_path cfg)) E"
      "f_exists (files (backup_path cfg)) \<or> E = []" "prefix E L" "length L - length E < fuel"
  shows "\<exists>files'. run_backup be configPath fuel files = (Complete, files') \<and> file_copy (files' (backup_path cfg)) L"
proof -
  obtain st f1 where open': "Open (\<lambda>_. False) no_faults (files (backup_path cfg)) = (Inr st, f1)"
    using openable_opens [OF assms(12)] by blast
  have "log_ok E" using log_ok_first assms(15) api.serves_log [OF assms(8)] by (auto simp: prefix_def)
  from Open_copies [OF assms(13,14) log_ok_importable [OF this] open'] have st: "copy_of st E" by simp
  have limit: "0 < bc_PageLimit cfg" using assms(9) by (simp add: answering_def)
  obtain n st1 where run: "copy_pages (be_range_order be) (\<lambda>_. api_respond m) (\<lambda>_. no_faults) (newSource cfg) cfg fuel 0
      (last_position E) st = (Complete, n, st1)" "copy_of st1 L"
    using api.copy_pages_completes [where n = 0 and src = "newSource cfg", OF assms(8,7) limit
        api_answers [OF assms(8,9) _ assms(11)] assms(10) st assms(15,16)] by blast
  have "run_backup be configPath fuel files = (Complete, files(backup_path cfg := Close st1 f1))"
    using assms(1-6) open' run(1) copy_LastSequence [OF st] by (simp add: run_backup_def Let_def)
  then show ?thesis using file_copy_Close [OF run(2)] by simp
qed

theorem backup_completes_witness:
  "\<exists>files'. run_backup working_backup ''config.toml'' 2 (\<lambda>_. no_file) = (Complete, files') \<and>
     file_copy (files' (backup_path user_backup)) user_log"
proof (rule backup_completes)
  show "LoadBackup (be_host working_backup) ''config.toml'' = Inr user_backup" by (simp add: working_backup_def user_backup_loads)
  show "answering user_moment user_backup"
    by (simp add: answering_def user_moment_def user_backup_def quiet_env_def fresh_server_def plain_options_def)
  show "int (length (encode (page_query (last_position E) (bc_PageLimit user_backup)))) \<le> op_MaxRequestBodySize (sv_opts (mo_server user_moment))"
    if "prefix E user_log" for E
    using user_query_short [OF that] by (simp add: user_backup_def user_moment_def fresh_server_def plain_options_def)
  show "length user_log - length [] < 2" by (simp add: user_log_def)
qed (simp_all add: working_backup_def user_moment_serves user_log_short no_backup_file)

end
