(* ===== verification/Dump.thy ===== *)
theory Dump
  imports Backup
begin

text \<open>
  Creating a database (cmd/tamarackdb-init), empty or from a dump of events, and migrating one
  (cmd/tamarackdb-migrate): how a line of a dump is read, how its events are imported into a
  temporary file, and when that file gets the name of the database. The operations on files that
  may fail are arguments; messages are not modelled, beyond which error they tell.
\<close>

section \<open>A key repeated in an object\<close>

text \<open>
  The tokens \<open>json.Decoder.Token\<close> gives for a JSON value; commas and colons are not among them, and
  a key is a string.
\<close>

datatype go_token = OpenObject | OpenArray | CloseDelim | Str string | Scalar

fun go_tokens :: "json \<Rightarrow> go_token list" where
  "go_tokens (JString s) = [Str s]"
| "go_tokens (JArray js) = OpenArray # concat (map go_tokens js) @ [CloseDelim]"
| "go_tokens (JObject kvs) = OpenObject # concat (map (\<lambda>(k, v). Str k # go_tokens v) kvs) @ [CloseDelim]"
| "go_tokens _ = [Scalar]"

text \<open>The stack of \<open>checkNoDuplicateKeys\<close>: an object's keys so far and whether a key comes next.\<close>

datatype key_frame = ObjectFrame "string list" bool | ArrayFrame

fun value_ended :: "key_frame list \<Rightarrow> key_frame list" where
  "value_ended (ObjectFrame keys wantKey # stack) = ObjectFrame keys True # stack"
| "value_ended stack = stack"

definition key_wanted :: "key_frame list \<Rightarrow> go_token \<Rightarrow> (string \<times> string list \<times> key_frame list) option" where
  "key_wanted stack tok =
     (case stack of
        ObjectFrame keys True # rest \<Rightarrow> (case tok of Str k \<Rightarrow> Some (k, keys, rest) | _ \<Rightarrow> None)
      | _ \<Rightarrow> None)"

fun check_keys :: "go_token list \<Rightarrow> key_frame list \<Rightarrow> string option" where
  "check_keys [] stack = None"
| "check_keys (tok # toks) stack =
     (case key_wanted stack tok of
        Some (k, keys, rest) \<Rightarrow>
          if k \<in> set keys then Some k else check_keys toks (ObjectFrame (k # keys) False # rest)
      | None \<Rightarrow>
          (case tok of
             OpenObject \<Rightarrow> check_keys toks (ObjectFrame [] True # stack)
           | OpenArray \<Rightarrow> check_keys toks (ArrayFrame # stack)
           | CloseDelim \<Rightarrow> check_keys toks (value_ended (tl stack))
           | _ \<Rightarrow> check_keys toks (value_ended stack)))"

definition checkNoDuplicateKeys :: "json \<Rightarrow> string option" where
  "checkNoDuplicateKeys j = check_keys (go_tokens j) []"

section \<open>One line of a dump\<close>

record dumpEvent =
  de_Sequence :: "int option"
  de_Time :: "string option"
  de_Type :: "string option"
  de_Identifiers :: "json option"
  de_Metadata :: "json option"
  de_Payload :: "string option"

definition no_dumpEvent :: dumpEvent where
  "no_dumpEvent = \<lparr>de_Sequence = None, de_Time = None, de_Type = None, de_Identifiers = None, de_Metadata = None, de_Payload = None\<rparr>"

definition dump_field :: "string \<Rightarrow> json \<Rightarrow> dumpEvent \<Rightarrow> dumpEvent option" where
  "dump_field k v r =
     (if is_field ''sequence'' k then map_option (\<lambda>x. r\<lparr>de_Sequence := x\<rparr>) (decode_pointer decode_int 0 (de_Sequence r) v)
      else if is_field ''time'' k then map_option (\<lambda>x. r\<lparr>de_Time := x\<rparr>) (decode_pointer decode_string [] (de_Time r) v)
      else if is_field ''type'' k then map_option (\<lambda>x. r\<lparr>de_Type := x\<rparr>) (decode_pointer decode_string [] (de_Type r) v)
      else if is_field ''identifiers'' k then Some (r\<lparr>de_Identifiers := Some v\<rparr>)
      else if is_field ''metadata'' k then Some (r\<lparr>de_Metadata := Some v\<rparr>)
      else if is_field ''payload'' k then map_option (\<lambda>x. r\<lparr>de_Payload := x\<rparr>) (decode_pointer decode_string [] (de_Payload r) v)
      else None)"

datatype line_error =
    EmptyLine | NotAnEventLine | DuplicateKey string | MissingField string | BadSequence int | BadTime string
  | BadTags string | InvalidEvent dcb_error | SequenceGap int int

text \<open>
  A time is accepted in one form only: formatting it back must give the same text. The offsets that
  \<open>time.Parse\<close> takes as well never pass that, so only the form in UTC is parsed here.
\<close>

definition parseTime :: "string \<Rightarrow> line_error + gotime" where
  "parseTime s = (case parse_time s of None \<Rightarrow> Inl (BadTime s) | Some t \<Rightarrow> if format_time t \<noteq> s then Inl (BadTime s) else Inr t)"

definition decodeTags :: "string \<Rightarrow> (json \<Rightarrow> 'a option) \<Rightarrow> json \<Rightarrow> line_error + 'a" where
  "decodeTags field dec raw =
     (case raw of
        JObject kvs \<Rightarrow> (case dec raw of None \<Rightarrow> Inl (BadTags field) | Some tags \<Rightarrow> Inr tags)
      | _ \<Rightarrow> Inl (BadTags field))"

definition present :: "string \<Rightarrow> 'a option \<Rightarrow> line_error + 'a" where
  "present field x = (case x of None \<Rightarrow> Inl (MissingField field) | Some v \<Rightarrow> Inr v)"

definition raw_present :: "string \<Rightarrow> json option \<Rightarrow> line_error + json" where
  "raw_present field x = (if x = Some JNull then Inl (MissingField field) else present field x)"

definition dump_event :: "((string \<times> json) list \<Rightarrow> (string \<times> json) list) \<Rightarrow> dumpEvent \<Rightarrow> line_error + Event" where
  "dump_event range_order w =
     bind_err (present ''sequence'' (de_Sequence w)) (\<lambda>n.
     bind_err (present ''time'' (de_Time w)) (\<lambda>time.
     bind_err (present ''type'' (de_Type w)) (\<lambda>type.
     bind_err (raw_present ''identifiers'' (de_Identifiers w)) (\<lambda>raw_ids.
     bind_err (raw_present ''metadata'' (de_Metadata w)) (\<lambda>raw_md.
     bind_err (present ''payload'' (de_Payload w)) (\<lambda>payload.
     if n < 1 then Inl (BadSequence n)
     else
       bind_err (parseTime time) (\<lambda>t.
       bind_err (decodeTags ''identifiers'' (IdentifierSet_UnmarshalJSON range_order) raw_ids) (\<lambda>ids.
       bind_err (decodeTags ''metadata'' (MetadataSet_UnmarshalJSON range_order) raw_md) (\<lambda>md.
       let data = \<lparr>ed_type = type, ed_identifiers = ids, ed_metadata = md, ed_payload = payload\<rparr>
       in case EventData_Validate data of
            Some e \<Rightarrow> Inl (InvalidEvent e)
          | None \<Rightarrow> Inr \<lparr>ev_sequence = n, ev_time = t, ev_data = data\<rparr>)))))))))"

definition parseLine :: "((string \<times> json) list \<Rightarrow> (string \<times> json) list) \<Rightarrow> string \<Rightarrow> line_error + Event" where
  "parseLine range_order b =
     (case parse_json b of
        None \<Rightarrow> Inl NotAnEventLine
      | Some j \<Rightarrow>
          (case decode_struct dump_field no_dumpEvent j of
             None \<Rightarrow> Inl NotAnEventLine
           | Some w \<Rightarrow>
               (case checkNoDuplicateKeys j of
                  Some k \<Rightarrow> Inl (DuplicateKey k)
                | None \<Rightarrow> dump_event range_order w)))"

section \<open>The lines of a dump\<close>

text \<open>
  A dump: its bytes, and whether they were read to the end. A line that a read error cuts short is
  not looked at. A line has no size limit.
\<close>

record dump =
  du_bytes :: string
  du_complete :: bool

definition dump_lines :: "dump \<Rightarrow> string list" where
  "dump_lines d = (if du_complete d then pieces (du_bytes d) else butlast (split_at newline_c (du_bytes d)))"

definition next_event :: "((string \<times> json) list \<Rightarrow> (string \<times> json) list) \<Rightarrow> string \<Rightarrow> line_error + Event" where
  "next_event range_order b = (if TrimSpace b = [] then Inl EmptyLine else parseLine range_order b)"

section \<open>Importing\<close>

definition importBatch :: nat where "importBatch = 10000"

record summary =
  su_count :: int
  su_first :: int
  su_last :: int

datatype import_error = AtLine nat line_error | ReadDump | NoEvents | ImportStore store_error | FileStep string

text \<open>
  The loop of \<open>writeEvents\<close>: \<open>lineno\<close> counts the lines read, \<open>n\<close> the imports done, whose faults are
  \<open>faults n\<close>.
\<close>

fun write_lines :: "((string \<times> json) list \<Rightarrow> (string \<times> json) list) \<Rightarrow> nat \<Rightarrow> (nat \<Rightarrow> faults) \<Rightarrow> bool \<Rightarrow> string list \<Rightarrow> nat \<Rightarrow> nat \<Rightarrow>
    summary \<Rightarrow> Event list \<Rightarrow> Store \<Rightarrow> (import_error + summary) \<times> Store" where
  "write_lines range_order batchSize faults complete [] lineno n tally batch st =
     (if \<not> complete then (Inl ReadDump, st)
      else if su_count tally = 0 then (Inl NoEvents, st)
      else (case Import (faults n) st batch of
              (Some e, st1) \<Rightarrow> (Inl (ImportStore e), st1)
            | (None, st1) \<Rightarrow> (Inr tally, st1)))"
| "write_lines range_order batchSize faults complete (b # bs) lineno n tally batch st =
     (case next_event range_order b of
        Inl e \<Rightarrow> (Inl (AtLine (Suc lineno) e), st)
      | Inr ev \<Rightarrow>
          if su_count tally > 0 \<and> ev_sequence ev \<noteq> i64 (su_last tally + 1)
          then (Inl (AtLine (Suc lineno) (SequenceGap (ev_sequence ev) (su_last tally))), st)
          else
            (let tally1 = \<lparr>su_count = su_count tally + 1, su_first = (if su_count tally = 0 then ev_sequence ev else su_first tally),
               su_last = ev_sequence ev\<rparr>;
                 batch1 = batch @ [ev]
             in if length batch1 = batchSize then
                  (case Import (faults n) st batch1 of
                     (Some e, st1) \<Rightarrow> (Inl (ImportStore e), st1)
                   | (None, st1) \<Rightarrow> write_lines range_order batchSize faults complete bs (Suc lineno) (Suc n) tally1 [] st1)
                else write_lines range_order batchSize faults complete bs (Suc lineno) n tally1 batch1 st))"

definition writeEvents :: "((string \<times> json) list \<Rightarrow> (string \<times> json) list) \<Rightarrow> (nat \<Rightarrow> faults) \<Rightarrow> dump \<Rightarrow> Store \<Rightarrow>
    (import_error + summary) \<times> Store" where
  "writeEvents range_order faults d st =
     write_lines range_order importBatch faults (du_complete d) (dump_lines d) 0 0 \<lparr>su_count = 0, su_first = 0, su_last = 0\<rparr> [] st"

text \<open>What an import meets: which steps on files fail, and whether a write-ahead log is left.\<close>

record import_env =
  im_createTemp :: bool
  im_io :: io
  im_open_faults :: faults
  im_faults :: "nat \<Rightarrow> faults"
  im_closes :: bool
  im_wal_left :: bool
  im_links :: bool
  im_syncs :: bool
  im_range_order :: "(string \<times> json) list \<Rightarrow> (string \<times> json) list"

definition temp_file :: dbfile where
  "temp_file = \<lparr>f_exists = True, f_tables = None, f_version = 0, f_locked = False\<rparr>"

text \<open>The result, and what is at the path afterwards; the temporary file is removed in any case.\<close>

definition importDump :: "import_env \<Rightarrow> dump \<Rightarrow> dbfile \<Rightarrow> (import_error + summary) \<times> dbfile" where
  "importDump im d f =
     (if \<not> im_createTemp im then (Inl (FileStep ''create''), f)
      else
        (case Open (im_io im) (im_open_faults im) temp_file of
           (Inl e, _) \<Rightarrow> (Inl (ImportStore e), f)
         | (Inr st, tmp) \<Rightarrow>
             (case writeEvents (im_range_order im) (im_faults im) d st of
                (Inl e, _) \<Rightarrow> (Inl e, f)
              | (Inr tally, st1) \<Rightarrow>
                  if \<not> im_closes im then (Inl (FileStep ''close''), f)
                  else if im_wal_left im then (Inl (FileStep ''wal''), f)
                  else if f_exists f \<or> \<not> im_links im then (Inl (FileStep ''link''), f)
                  else if \<not> im_syncs im then (Inl (FileStep ''sync''), Close st1 tmp)
                  else (Inr tally, Close st1 tmp))))"

section \<open>tamarackdb-init\<close>

datatype init_error = StatPath | AlreadyExists | OpenDump | MakeDir | CreateStore store_error | CloseFailed | ImportFailed import_error

record init_env =
  in_stat :: bool
  in_dump :: "dump option"
  in_dir_exists :: bool
  in_mkdir :: bool
  in_import :: import_env

text \<open>
  \<open>run\<close>: with a dump to import or none. The result, the file at the path, and whether the directory
  is there: after a failed import one that \<open>run\<close> made is removed, unless something is in it.
\<close>

definition run_init :: "init_env \<Rightarrow> bool \<Rightarrow> dbfile \<Rightarrow> (init_error + summary option) \<times> dbfile \<times> bool" where
  "run_init ie importing f =
     (if \<not> in_stat ie then (Inl StatPath, f, in_dir_exists ie)
      else if f_exists f then (Inl AlreadyExists, f, in_dir_exists ie)
      else if importing \<and> in_dump ie = None then (Inl OpenDump, f, in_dir_exists ie)
      else if \<not> in_mkdir ie then (Inl MakeDir, f, in_dir_exists ie)
      else if \<not> importing then
        (case Open (im_io (in_import ie)) (im_open_faults (in_import ie)) f of
           (Inl e, f1) \<Rightarrow> (Inl (CreateStore e), f1, True)
         | (Inr st, f1) \<Rightarrow> ((if im_closes (in_import ie) then Inr None else Inl CloseFailed), Close st f1, True))
      else
        (case importDump (in_import ie) (the (in_dump ie)) f of
           (Inl e, f1) \<Rightarrow> (Inl (ImportFailed e), f1, in_dir_exists ie \<or> f_exists f1)
         | (Inr tally, f1) \<Rightarrow> (Inr (Some tally), f1, True)))"

section \<open>tamarackdb-migrate\<close>

datatype migrate_report =
    InUse | OtherVersion int | OnlyFrom int int int | MigrateFailed store_error | AlreadyAt int | MigratedFrom int int

definition run_migrate :: "io \<Rightarrow> faults \<Rightarrow> dbfile \<Rightarrow> migrate_report \<times> dbfile" where
  "run_migrate io faults f =
     (case Migrate io faults f of
        (r, f1) \<Rightarrow>
          ((case mg_error r of
              Some ErrDatabaseLocked \<Rightarrow> InUse
            | Some (SchemaVersionError found want) \<Rightarrow>
                (if want = 0 then OtherVersion found else OnlyFrom found (want - 1) want)
            | Some e \<Rightarrow> MigrateFailed e
            | None \<Rightarrow> if mg_from r = mg_to r then AlreadyAt (mg_to r) else MigratedFrom (mg_from r) (mg_to r)), f1))"

section \<open>The stack of keys against the tree\<close>

text \<open>No object of a value has a key twice.\<close>

fun keys_once :: "json \<Rightarrow> bool" where
  "keys_once (JArray js) = list_all keys_once js"
| "keys_once (JObject kvs) = (distinct (map fst kvs) \<and> list_all (\<lambda>(k, v). keys_once v) kvs)"
| "keys_once _ = True"

text \<open>The stack where a value may come: not after an opening brace or a comma of an object.\<close>

fun awaits_key :: "key_frame list \<Rightarrow> bool" where
  "awaits_key (ObjectFrame keys wantKey # stack) = wantKey"
| "awaits_key _ = False"

lemma no_key_wanted: "\<not> awaits_key stack \<Longrightarrow> key_wanted stack tok = None"
  by (cases stack rule: awaits_key.cases) (auto simp: key_wanted_def split: list.split key_frame.split bool.split)

lemma no_key_close: "key_wanted stack CloseDelim = None"
  by (auto simp: key_wanted_def split: list.split key_frame.split bool.split)

definition reads_value :: "json \<Rightarrow> bool" where
  "reads_value j \<longleftrightarrow>
     (\<forall>stack ts. \<not> awaits_key stack \<longrightarrow>
        (if keys_once j then check_keys (go_tokens j @ ts) stack = check_keys ts (value_ended stack)
         else check_keys (go_tokens j @ ts) stack \<noteq> None))"

lemma reads_elements:
  assumes "\<And>j. j \<in> set js \<Longrightarrow> reads_value j"
  shows "if list_all keys_once js
    then check_keys (concat (map go_tokens js) @ ts) (ArrayFrame # stack) = check_keys ts (ArrayFrame # stack)
    else check_keys (concat (map go_tokens js) @ ts) (ArrayFrame # stack) \<noteq> None"
  using assms
proof (induction js)
  case (Cons j js)
  from Cons.prems [of j] have "if keys_once j
      then check_keys (go_tokens j @ concat (map go_tokens js) @ ts) (ArrayFrame # stack) =
        check_keys (concat (map go_tokens js) @ ts) (ArrayFrame # stack)
      else check_keys (go_tokens j @ concat (map go_tokens js) @ ts) (ArrayFrame # stack) \<noteq> None"
    unfolding reads_value_def by (force split: if_splits)
  with Cons show ?case by (auto split: if_splits)
qed simp

lemma reads_members:
  assumes "\<And>k v. (k, v) \<in> set kvs \<Longrightarrow> reads_value v"
  shows "if distinct (map fst kvs) \<and> set (map fst kvs) \<inter> set keys = {} \<and> list_all (\<lambda>(k, v). keys_once v) kvs
    then \<exists>keys'. check_keys (concat (map (\<lambda>(k, v). Str k # go_tokens v) kvs) @ ts) (ObjectFrame keys True # stack) =
        check_keys ts (ObjectFrame keys' True # stack)
    else check_keys (concat (map (\<lambda>(k, v). Str k # go_tokens v) kvs) @ ts) (ObjectFrame keys True # stack) \<noteq> None"
  using assms
proof (induction kvs arbitrary: keys)
  case (Cons kv kvs)
  obtain k v where kv: "kv = (k, v)" by fastforce
  let ?rest = "concat (map (\<lambda>(k, v). Str k # go_tokens v) kvs) @ ts"
  have "reads_value v" using Cons.prems [of k v] by (simp add: kv)
  then have v: "if keys_once v then check_keys (go_tokens v @ ?rest) (ObjectFrame (k # keys) False # stack) =
      check_keys ?rest (ObjectFrame (k # keys) True # stack)
    else check_keys (go_tokens v @ ?rest) (ObjectFrame (k # keys) False # stack) \<noteq> None"
    unfolding reads_value_def by (force split: if_splits)
  let ?all = "concat (map (\<lambda>(k, v). Str k # go_tokens v) ((k, v) # kvs)) @ ts"
  have key: "check_keys ?all (ObjectFrame keys True # stack) =
      (if k \<in> set keys then Some k else check_keys (go_tokens v @ ?rest) (ObjectFrame (k # keys) False # stack))"
    by (simp add: key_wanted_def)
  have ih: "if distinct (map fst kvs) \<and> set (map fst kvs) \<inter> set (k # keys) = {} \<and> list_all (\<lambda>(k, v). keys_once v) kvs
    then \<exists>keys'. check_keys ?rest (ObjectFrame (k # keys) True # stack) = check_keys ts (ObjectFrame keys' True # stack)
    else check_keys ?rest (ObjectFrame (k # keys) True # stack) \<noteq> None"
    by (rule Cons.IH) (use Cons.prems in auto)
  show ?case
  proof (cases "k \<in> set keys")
    case True
    then show ?thesis by (simp only: kv key) simp
  next
    case new: False
    show ?thesis
    proof (cases "keys_once v")
      case True
      then have "check_keys ?all (ObjectFrame keys True # stack) = check_keys ?rest (ObjectFrame (k # keys) True # stack)"
        unfolding key using v new by (simp del: check_keys.simps)
      then show ?thesis using ih new True by (simp only: kv) (auto simp del: check_keys.simps)
    next
      case False
      then show ?thesis using v new by (simp only: kv key) simp
    qed
  qed
qed auto

lemma reads_all: "reads_value j"
proof (induction j rule: go_tokens.induct)
  case (2 js)
  show ?case
    unfolding reads_value_def
    using reads_elements [of js] 2 by (fastforce simp: no_key_wanted no_key_close split: if_splits)
next
  case (3 kvs)
  show ?case
    unfolding reads_value_def
  proof (intro allI impI)
    fix stack ts
    assume "\<not> awaits_key stack"
    then show "if keys_once (JObject kvs)
        then check_keys (go_tokens (JObject kvs) @ ts) stack = check_keys ts (value_ended stack)
        else check_keys (go_tokens (JObject kvs) @ ts) stack \<noteq> None"
      using reads_members [of kvs "[]" "CloseDelim # ts" stack] 3 by (auto simp: no_key_wanted no_key_close split: if_splits)
  qed
qed (simp_all add: reads_value_def no_key_wanted)

lemma keys_checked: "checkNoDuplicateKeys j = None \<longleftrightarrow> keys_once j"
  using reads_all [of j, unfolded reads_value_def, rule_format, of "[]" "[]"]
  by (auto simp: checkNoDuplicateKeys_def split: if_splits)

section \<open>A line that the server wrote\<close>

text \<open>White space is never taken off a line that starts and ends with a brace.\<close>

lemma space_forms_braces: "list_all (\<lambda>f. f \<noteq> [] \<and> hd f \<noteq> CHR ''{'' \<and> last f \<noteq> CHR ''}'') space_forms"
  by (simp add: space_forms_def EncodeRune_def byte_def char_of_eq_iff)

lemma starts_with_None: "s \<noteq> [] \<Longrightarrow> list_all (\<lambda>f. f \<noteq> [] \<and> hd f \<noteq> hd s) forms \<Longrightarrow> starts_with forms s = None"
  by (auto simp: starts_with_def find_None_iff list_all_iff neq_Nil_conv)

lemma TrimSpace_braces: "TrimSpace (''{'' @ s @ ''}'') = ''{'' @ s @ ''}''"
proof -
  have "starts_with space_forms (''{'' @ s @ ''}'') = None"
    by (rule starts_with_None) (use space_forms_braces in \<open>auto simp: list_all_iff\<close>)
  moreover have "starts_with (map rev space_forms) (rev (''{'' @ s @ ''}'')) = None"
    by (rule starts_with_None) (use space_forms_braces in \<open>auto simp: list_all_iff hd_rev\<close>)
  ultimately show ?thesis by (simp add: TrimSpace_def trim_forms.simps)
qed

lemma event_tree_keys: "keys_once (event_tree e)"
proof -
  have "keys_once (compact_tree items)" for items
  proof -
    have "keys_once (value_json vs)" for vs by (simp add: value_json_def list_all_iff)
    then show ?thesis by (simp add: compact_tree_def names_of_def list_all_iff comp_def)
  qed
  then show ?thesis by (simp add: event_tree_def)
qed

lemma same_event_valid:
  assumes "same_event e' e" "EventData_Validate (ev_data e) = None"
  shows "EventData_Validate (ev_data e') = None"
proof -
  have "set (ed_identifiers (ev_data e')) = set (ed_identifiers (ev_data e))" "set (ed_metadata (ev_data e')) = set (ed_metadata (ev_data e))"
    "length (ed_identifiers (ev_data e')) = length (ed_identifiers (ev_data e))"
    "length (ed_metadata (ev_data e')) = length (ed_metadata (ev_data e))" "ed_type (ev_data e') = ed_type (ev_data e)"
    using assms(1) mset_eq_setD mset_eq_length unfolding same_event_def by blast+
  moreover have "distinct (ed_identifiers (ev_data e'))" "distinct (ed_metadata (ev_data e'))"
    using assms same_mset_distinct unfolding same_event_def EventData_Validate_None event_ok_def by blast+
  ultimately show ?thesis
    using assms(2) unfolding EventData_Validate_None event_ok_def by (simp add: list_all_iff)
qed

lemma dump_fields:
  "dump_field ''sequence'' v r = map_option (\<lambda>x. r\<lparr>de_Sequence := x\<rparr>) (decode_pointer decode_int 0 (de_Sequence r) v)"
  "dump_field ''time'' v r = map_option (\<lambda>x. r\<lparr>de_Time := x\<rparr>) (decode_pointer decode_string [] (de_Time r) v)"
  "dump_field ''type'' v r = map_option (\<lambda>x. r\<lparr>de_Type := x\<rparr>) (decode_pointer decode_string [] (de_Type r) v)"
  "dump_field ''identifiers'' v r = Some (r\<lparr>de_Identifiers := Some v\<rparr>)"
  "dump_field ''metadata'' v r = Some (r\<lparr>de_Metadata := Some v\<rparr>)"
  "dump_field ''payload'' v r = map_option (\<lambda>x. r\<lparr>de_Payload := x\<rparr>) (decode_pointer decode_string [] (de_Payload r) v)"
  by (simp_all add: dump_field_def is_field_def fold_byte_def bc_def byte_def)

text \<open>The JSON of a stored event is a line of a dump, read back as that event.\<close>

lemma event_line_parsed:
  assumes e: "event_text_ok e" "event_range_ok e" "EventData_Validate (ev_data e) = None" "1 \<le> ev_sequence e"
    and order: "\<And>kvs. mset (range_order kvs) = mset kvs"
  obtains e' where "next_event range_order (Event_MarshalJSON e) = Inr e'" "same_event e' e"
proof -
  obtain ids' where ids: "IdentifierSet_UnmarshalJSON range_order (compact_tree (map id_pair (ed_identifiers (ev_data e)))) = Some ids'"
    "mset ids' = mset (ed_identifiers (ev_data e))"
    "\<And>n. values_of (map id_pair ids') n = values_of (map id_pair (ed_identifiers (ev_data e))) n"
    using unmarshal_identifiers [OF order] by metis
  obtain mds' where mds: "MetadataSet_UnmarshalJSON range_order (compact_tree (map md_pair (ed_metadata (ev_data e)))) = Some mds'"
    "mset mds' = mset (ed_metadata (ev_data e))"
    "\<And>n. values_of (map md_pair mds') n = values_of (map md_pair (ed_metadata (ev_data e))) n"
    using unmarshal_metadata [OF order] by metis
  define e' where "e' = \<lparr>ev_sequence = ev_sequence e, ev_time = ev_time e, ev_data = \<lparr>ed_type = ed_type (ev_data e),
    ed_identifiers = ids', ed_metadata = mds', ed_payload = ed_payload (ev_data e)\<rparr>\<rparr>"
  have same: "same_event e' e" using ids mds by (simp add: same_event_def e'_def)
  have time: "parseTime (format_time (ev_time e)) = Inr (ev_time e)"
    using parse_format_time [of "ev_time e"] e(2) by (simp add: parseTime_def event_range_ok_def)
  have tags: "decodeTags ''identifiers'' (IdentifierSet_UnmarshalJSON range_order) (compact_tree (map id_pair (ed_identifiers (ev_data e)))) =
      Inr ids'" "decodeTags ''metadata'' (MetadataSet_UnmarshalJSON range_order) (compact_tree (map md_pair (ed_metadata (ev_data e)))) = Inr mds'"
    using ids(1) mds(1) by (simp_all add: decodeTags_def compact_tree_def)
  define w where "w = \<lparr>de_Sequence = Some (ev_sequence e), de_Time = Some (format_time (ev_time e)), de_Type = Some (ed_type (ev_data e)),
    de_Identifiers = Some (compact_tree (map id_pair (ed_identifiers (ev_data e)))),
    de_Metadata = Some (compact_tree (map md_pair (ed_metadata (ev_data e)))), de_Payload = Some (ed_payload (ev_data e))\<rparr>"
  have fields: "decode_struct dump_field no_dumpEvent (event_tree e) = Some w"
    using e(2) by (simp add: event_tree_def dump_fields no_dumpEvent_def decode_pointer_def event_range_ok_def w_def)
  have raw: "compact_tree items \<noteq> JNull" for items by (simp add: compact_tree_def)
  have "dump_event range_order w = Inr e'"
    using e(4) raw time tags same_event_valid [OF same e(3)]
    by (simp add: dump_event_def w_def present_def raw_present_def e'_def Let_def)
  moreover have "parse_json (Event_MarshalJSON e) = Some (event_tree e)"
    using parse_encode event_tree_ok [OF e(1)] by (simp add: Event_MarshalJSON_tree)
  ultimately have "parseLine range_order (Event_MarshalJSON e) = Inr e'"
    using fields event_tree_keys by (simp add: parseLine_def keys_checked [THEN iffD2])
  moreover have "TrimSpace (Event_MarshalJSON e) \<noteq> []" unfolding Event_MarshalJSON_def TrimSpace_braces by simp
  ultimately show thesis using same by (intro that [of e']) (simp_all add: next_event_def)
qed

section \<open>What an import writes\<close>

text \<open>
  Part of an import: the store has the events \<open>E\<close>, \<open>batch\<close> comes next, and the tally is that of
  both, which have consecutive positions.
\<close>

definition tally_of :: "Event list \<Rightarrow> summary \<Rightarrow> bool" where
  "tally_of D tally \<longleftrightarrow>
     su_count tally = int (length D) \<and>
     (D = [] \<or> ev_sequence (last D) = su_last tally \<and> map ev_sequence D = [su_first tally..su_last tally])"

definition import_part :: "Event list \<Rightarrow> Event list \<Rightarrow> summary \<Rightarrow> Store \<Rightarrow> bool" where
  "import_part E batch tally st \<longleftrightarrow>
     copy_of st E \<and> tally_of (E @ batch) tally \<and>
     list_all (\<lambda>e. 0 < ev_sequence e \<and> ev_sequence e < max_i64 \<and> tags_distinct (ev_data e)) (E @ batch)"

lemma tally_ofD:
  assumes "tally_of D tally" "D \<noteq> []"
  shows "0 < su_count tally" "ev_sequence (last D) = su_last tally" "map ev_sequence D = [su_first tally..su_last tally]"
  using assms by (auto simp: tally_of_def)

lemma import_partD: "import_part E batch tally st \<Longrightarrow> tally_of (E @ batch) tally"
  by (simp add: import_part_def)

lemma tally_of_empty: "tally_of D tally \<Longrightarrow> su_count tally = 0 \<longleftrightarrow> D = []"
  by (simp add: tally_of_def)

lemma import_part_importable:
  assumes "import_part E batch tally st"
  shows "importable (E @ batch)"
proof (cases "E @ batch = []")
  case False
  then have "map ev_sequence (E @ batch) = [su_first tally..su_last tally]"
    using assms by (intro tally_ofD) (simp add: import_part_def)
  then have "sorted_wrt (<) (map ev_sequence (E @ batch))" by (simp only: sorted_wrt_upto)
  then show ?thesis using assms by (simp add: import_part_def importable_def)
qed (simp add: importable_def)

text \<open>One more line, and one more batch.\<close>

lemma import_part_line:
  assumes part: "import_part E batch tally st" and ev: "0 < ev_sequence ev" "ev_sequence ev < max_i64" "tags_distinct (ev_data ev)"
    and step: "su_count tally \<le> 0 \<or> ev_sequence ev = i64 (su_last tally + 1)"
  shows "import_part E (batch @ [ev])
    \<lparr>su_count = su_count tally + 1, su_first = (if su_count tally = 0 then ev_sequence ev else su_first tally), su_last = ev_sequence ev\<rparr> st"
proof -
  have tally: "tally_of (E @ batch) tally" using part by (simp add: import_part_def)
  have "tally_of (E @ batch @ [ev]) \<lparr>su_count = su_count tally + 1,
      su_first = (if su_count tally = 0 then ev_sequence ev else su_first tally), su_last = ev_sequence ev\<rparr>"
  proof (cases "E @ batch = []")
    case True
    then show ?thesis using tally by (simp add: tally_of_def)
  next
    case False
    then have seqs: "map ev_sequence (E @ batch) = [su_first tally..su_last tally]" and count: "0 < su_count tally"
      using tally_ofD [OF tally] by blast+
    have last: "last (E @ batch) \<in> set (E @ batch)" "ev_sequence (last (E @ batch)) = su_last tally"
      using last_in_set [OF False] tally_ofD(2) [OF tally False] by blast+
    then have "0 < su_last tally" "su_last tally < max_i64"
      using part unfolding import_part_def list_all_iff by metis+
    then have "ev_sequence ev = su_last tally + 1" using step count by (simp add: i64_id)
    moreover have "su_first tally \<le> su_last tally" using seqs False by (metis map_is_Nil_conv upto_empty not_le)
    moreover have "su_count tally = int (length (E @ batch))" using tally by (simp add: tally_of_def)
    ultimately show ?thesis using seqs count by (simp add: tally_of_def upto_rec2)
  qed
  then show ?thesis using part ev by (simp add: import_part_def)
qed

lemma import_part_batch:
  assumes part: "import_part E batch tally st" and run: "Import faults st batch = (res, st1)"
  shows "(\<exists>e. from_fault faults e \<and> res = Some e \<and> st1 = st) \<or> (res = None \<and> import_part (E @ batch) [] tally st1)"
proof -
  have "list_all2 same_event batch batch" by (simp add: list_all2_same same_event_def)
  from copy_import [OF _ import_part_importable [OF part] this run] part show ?thesis
    by (auto simp: import_part_def)
qed

text \<open>An event that a line holds passed every check.\<close>

lemma next_event_ok:
  assumes "next_event range_order b = Inr ev"
  shows "0 < ev_sequence ev" "EventData_Validate (ev_data ev) = None" "tags_distinct (ev_data ev)"
proof -
  obtain w where "dump_event range_order w = Inr ev"
    using assms by (auto simp: next_event_def parseLine_def split: if_splits option.splits)
  then show "0 < ev_sequence ev" "EventData_Validate (ev_data ev) = None"
    by (auto simp: dump_event_def bind_err_iffs Let_def split: if_splits option.splits)
  then show "tags_distinct (ev_data ev)" by (simp add: event_valid_tags)
qed

abbreviation lines_hold :: "((string \<times> json) list \<Rightarrow> (string \<times> json) list) \<Rightarrow> string list \<Rightarrow> Event list \<Rightarrow> bool" where
  "lines_hold range_order bs evs \<equiv> list_all2 (\<lambda>b ev. next_event range_order b = Inr ev) bs evs"

abbreviation below_max :: "((string \<times> json) list \<Rightarrow> (string \<times> json) list) \<Rightarrow> string list \<Rightarrow> bool" where
  "below_max range_order bs \<equiv>
     list_all (\<lambda>b. case next_event range_order b of Inl _ \<Rightarrow> True | Inr ev \<Rightarrow> ev_sequence ev < max_i64) bs"

lemma lines_hold_unique: "lines_hold range_order bs xs \<Longrightarrow> lines_hold range_order bs ys \<Longrightarrow> xs = ys"
proof (induction bs arbitrary: xs ys)
  case (Cons b bs)
  then show ?case by (fastforce simp: list_all2_Cons1)
qed simp

lemma write_lines_Inr:
  assumes "write_lines range_order batchSize faults complete bs lineno n tally batch st = (Inr tally', st')"
    and "import_part E batch tally st" "below_max range_order bs"
  shows "\<exists>evs. complete \<and> lines_hold range_order bs evs \<and> E @ batch @ evs \<noteq> [] \<and> import_part (E @ batch @ evs) [] tally' st'"
  using assms
proof (induction bs arbitrary: lineno n tally batch st E)
  case Nil
  obtain res st1 where imp: "Import (faults n) st batch = (res, st1)" by fastforce
  then have "complete" "su_count tally \<noteq> 0" "res = None" "tally' = tally" "st' = st1"
    using Nil.prems(1) by (auto split: if_splits option.splits)
  then show ?case
    using import_part_batch [OF Nil.prems(2) imp] tally_of_empty [OF import_partD [OF Nil.prems(2)]] by auto
next
  case (Cons b bs)
  obtain ev where ev: "next_event range_order b = Inr ev" using Cons.prems(1) by (auto split: sum.splits)
  define tally1 where "tally1 = \<lparr>su_count = su_count tally + 1, su_first = (if su_count tally = 0 then ev_sequence ev else su_first tally),
    su_last = ev_sequence ev\<rparr>"
  have below: "ev_sequence ev < max_i64" "below_max range_order bs" using Cons.prems(3) ev by simp_all
  have step: "\<not> (su_count tally > 0 \<and> ev_sequence ev \<noteq> i64 (su_last tally + 1))"
    using Cons.prems(1) ev by (auto split: if_splits)
  then have part: "import_part E (batch @ [ev]) tally1 st"
    unfolding tally1_def by (intro import_part_line [OF Cons.prems(2) next_event_ok(1) [OF ev] below(1) next_event_ok(3) [OF ev]]) auto
  show ?case
  proof (cases "length (batch @ [ev]) = batchSize")
    case True
    obtain res st1 where imp: "Import (faults n) st (batch @ [ev]) = (res, st1)" by fastforce
    then have "res = None" and run: "write_lines range_order batchSize faults complete bs (Suc lineno) (Suc n) tally1 [] st1 = (Inr tally', st')"
      using Cons.prems(1) ev step True by (auto simp: tally1_def Let_def split: option.splits)
    with import_part_batch [OF part imp] have "import_part (E @ batch @ [ev]) [] tally1 st1" by simp
    from Cons.IH [OF run this below(2)] ev show ?thesis by (fastforce intro: exI [of _ "ev # _"])
  next
    case False
    then have run: "write_lines range_order batchSize faults complete bs (Suc lineno) n tally1 (batch @ [ev]) st = (Inr tally', st')"
      using Cons.prems(1) ev step by (auto simp: tally1_def Let_def)
    from Cons.IH [OF run part below(2)] ev show ?thesis by (fastforce intro: exI [of _ "ev # _"])
  qed
qed

abbreviation no_tally :: summary where
  "no_tally \<equiv> \<lparr>su_count = 0, su_first = 0, su_last = 0\<rparr>"

lemma import_part_start: "copy_of st [] \<Longrightarrow> import_part [] [] no_tally st"
  by (simp add: import_part_def tally_of_def)

text \<open>Lines that hold consecutive events are all imported.\<close>

lemma write_lines_completes:
  assumes "lines_hold range_order bs evs" "import_part E batch tally st" "below_max range_order bs" "E @ batch @ evs \<noteq> []"
    and "successively (\<lambda>e e'. ev_sequence e' = ev_sequence e + 1) (E @ batch @ evs)"
  shows "\<exists>tally' st'. write_lines range_order batchSize (\<lambda>_. no_faults) True bs lineno n tally batch st = (Inr tally', st')"
  using assms
proof (induction bs evs arbitrary: lineno n tally batch st E rule: list_all2_induct)
  case Nil
  obtain res st1 where imp: "Import no_faults st batch = (res, st1)" by fastforce
  then show ?case
    using import_part_batch [OF Nil.prems(1) imp] tally_of_empty [OF import_partD [OF Nil.prems(1)]] Nil.prems(3)
    by (auto simp: from_fault_def)
next
  case (Cons b bs ev evs)
  define tally1 where "tally1 = \<lparr>su_count = su_count tally + 1, su_first = (if su_count tally = 0 then ev_sequence ev else su_first tally),
    su_last = ev_sequence ev\<rparr>"
  have below: "ev_sequence ev < max_i64" "below_max range_order bs" using Cons.prems(2) Cons.hyps(1) by simp_all
  have pos: "0 < ev_sequence ev" using next_event_ok(1) [OF Cons.hyps(1)] .
  have step: "su_count tally \<le> 0 \<or> ev_sequence ev = i64 (su_last tally + 1)"
  proof (cases "E @ batch = []")
    case True
    then show ?thesis using tally_of_empty [OF import_partD [OF Cons.prems(1)]] by simp
  next
    case False
    then have "ev_sequence ev = ev_sequence (last (E @ batch)) + 1"
      using Cons.prems(4) by (simp only: append_assoc [symmetric] successively_append_iff) simp
    moreover have "ev_sequence (last (E @ batch)) = su_last tally" by (rule tally_ofD(2) [OF import_partD [OF Cons.prems(1)] False])
    ultimately show ?thesis using pos below(1) by (simp add: i64_id)
  qed
  note part = import_part_line [OF Cons.prems(1) pos below(1) next_event_ok(3) [OF Cons.hyps(1)] step, folded tally1_def]
  have no_gap: "\<not> (su_count tally > 0 \<and> ev_sequence ev \<noteq> i64 (su_last tally + 1))" using step by auto
  show ?case
  proof (cases "length (batch @ [ev]) = batchSize")
    case True
    obtain res st1 where imp: "Import no_faults st (batch @ [ev]) = (res, st1)" by fastforce
    with import_part_batch [OF part imp] have "res = None" "import_part (E @ batch @ [ev]) [] tally1 st1"
      by (auto simp: from_fault_def)
    with Cons.IH [OF this(2) below(2), of "Suc lineno" "Suc n"] Cons.prems(4) imp no_gap True show ?thesis
      by (simp add: Cons.hyps(1) tally1_def Let_def)
  next
    case False
    with Cons.IH [OF part below(2), of "Suc lineno" n] Cons.prems(4) no_gap show ?thesis
      by (simp add: Cons.hyps(1) tally1_def Let_def)
  qed
qed

text \<open>The temporary file is a database without events, once it is opened.\<close>

lemma temp_file_opens: "\<exists>st f1. Open (\<lambda>_. False) no_faults temp_file = (Inr st, f1)"
  by (auto simp: temp_file_def Open_def acquireLock_def createPrivate_def open_steps_def ensureSchema_def createSchema_def
      readPausedAt_def file_tables_def empty_tables_def)

lemma Open_temp_file:
  assumes "Open io faults temp_file = (Inr st, f1)"
  shows "copy_of st []" "f_exists f1"
proof -
  have "file_copy temp_file []" using empty_db_log by (simp add: file_copy_def temp_file_def file_tables_def)
  from Open_copies [OF this _ _ assms] show "copy_of st []" by (simp add: importable_def)
  show "f_exists f1" by (rule Open_file_exists [OF assms])
qed

section \<open>Properties\<close>

text \<open>A new file at the path, with the events that the lines of a dump hold.\<close>

definition imported :: "import_env \<Rightarrow> dump \<Rightarrow> dbfile \<Rightarrow> Event list \<Rightarrow> dbfile \<Rightarrow> bool" where
  "imported im d f evs f' \<longleftrightarrow>
     \<not> f_exists f \<and> f_exists f' \<and> file_copy f' evs \<and> du_complete d \<and>
     evs \<noteq> [] \<and> lines_hold (im_range_order im) (dump_lines d) evs"

text \<open>C36. The scan of a line's tokens for repeated keys, with its stack of open objects and arrays, is right: it
  finds one exactly when some object of the value, at any depth, has the same key twice.\<close>

theorem repeated_keys_found: "checkNoDuplicateKeys j = None \<longleftrightarrow> keys_once j"
  by (rule keys_checked)

text \<open>An environment in which nothing fails, and a dump of some events.\<close>

definition working_import :: import_env where
  "working_import = \<lparr>im_createTemp = True, im_io = (\<lambda>_. False), im_open_faults = no_faults, im_faults = (\<lambda>_. no_faults),
     im_closes = True, im_wal_left = False, im_links = True, im_syncs = True, im_range_order = (\<lambda>kvs. kvs)\<rparr>"

definition dump_of :: "Event list \<Rightarrow> dump" where
  "dump_of L = \<lparr>du_bytes = concat (map (\<lambda>e. line (Event_MarshalJSON e)) L), du_complete = True\<rparr>"

lemma user_log_valid: "list_all (\<lambda>e. EventData_Validate (ev_data e) = None) user_log"
proof -
  have "EventData_Validate user_created = None" by code_simp
  then show ?thesis by (simp add: user_log_def)
qed

lemma dump_of_lines:
  assumes "log_ok L"
  shows "dump_lines (dump_of L) = map Event_MarshalJSON L"
proof -
  have "list_all printable_text (map Event_MarshalJSON L)"
    using assms event_tree_ok printable_encode by (auto simp: list_all_iff log_ok_def Event_MarshalJSON_tree)
  from pieces_lines [OF this] show ?thesis by (simp add: dump_lines_def dump_of_def comp_def)
qed

lemma dump_of_events:
  assumes "log_ok L" "list_all (\<lambda>e. EventData_Validate (ev_data e) = None) L" "\<And>kvs. mset (range_order kvs) = mset kvs"
  obtains evs where "lines_hold range_order (map Event_MarshalJSON L) evs" "list_all2 same_event evs L"
  using assms(1,2)
proof (induction L arbitrary: thesis)
  case (Cons e L)
  have rest: "log_ok L" and e: "event_text_ok e" "event_range_ok e" "1 \<le> ev_sequence e" "EventData_Validate (ev_data e) = None"
    using Cons.prems(2,3) by (simp_all add: log_ok_def)
  obtain e' where "next_event range_order (Event_MarshalJSON e) = Inr e'" "same_event e' e"
    using event_line_parsed [OF e(1,2,4,3) assms(3)] by blast
  moreover obtain evs where "lines_hold range_order (map Event_MarshalJSON L) evs" "list_all2 same_event evs L"
    using Cons.IH rest Cons.prems(3) by auto
  ultimately show ?case by (intro Cons.prems(1) [of "e' # evs"]) simp_all
qed simp

text \<open>C8. An import gives all of the dump or nothing: after a success there is a new database at the
  path, with the events of all the lines of the dump, in positions without a gap, and the tally tells
  how many, the first and the last; after an error what was at the path is untouched, unless the
  last step failed, syncing the directory, when the new database is complete as well. The file, its
  statements and its steps may fail anywhere, and the dump may be any text; only position
  \<open>2 ^ 63 - 1\<close>, which a store cannot go on from, must not occur.\<close>

theorem import_all_or_nothing:
  assumes "importDump im d f = (r, f')" "below_max (im_range_order im) (dump_lines d)"
  shows "case r of
      Inr tally \<Rightarrow> \<exists>evs. imported im d f evs f' \<and> su_count tally = int (length evs) \<and> map ev_sequence evs = [su_first tally..su_last tally]
    | Inl e \<Rightarrow> f' = f \<or> e = FileStep ''sync'' \<and> (\<exists>evs. imported im d f evs f')"
proof (cases "f' = f \<and> (\<exists>e. r = Inl e)")
  case False
  then obtain st f1 tally st1 where opened: "Open (im_io im) (im_open_faults im) temp_file = (Inr st, f1)"
    and lines: "writeEvents (im_range_order im) (im_faults im) d st = (Inr tally, st1)"
    and f': "\<not> f_exists f" "f' = Close st1 f1" "r = Inr tally \<or> r = Inl (FileStep ''sync'')"
    using assms(1) by (auto simp: importDump_def split: if_splits sum.splits prod.splits)
  note start = Open_temp_file [OF opened]
  obtain evs where evs: "du_complete d" "lines_hold (im_range_order im) (dump_lines d) evs" "evs \<noteq> []" "import_part evs [] tally st1"
    using write_lines_Inr [OF lines [unfolded writeEvents_def] import_part_start [OF start(1)] assms(2)] by auto
  then have "imported im d f evs f'"
    using f'(1,2) start(2) file_copy_Close by (auto simp: imported_def import_part_def Close_def releaseLock_def)
  moreover have "su_count tally = int (length evs)" "map ev_sequence evs = [su_first tally..su_last tally]"
    using tally_ofD [OF import_partD [OF evs(4)]] evs(3) import_partD [OF evs(4)] by (auto simp: tally_of_def)
  ultimately show ?thesis using f'(3) by auto
qed auto

theorem import_all_or_nothing_witness:
  "case importDump (working_import\<lparr>im_syncs := False\<rparr>) (dump_of user_log) no_file of
      (Inr tally, f') \<Rightarrow> \<exists>evs. imported (working_import\<lparr>im_syncs := False\<rparr>) (dump_of user_log) no_file evs f'
    | (Inl e, f') \<Rightarrow> f' = no_file \<or> (\<exists>evs. imported (working_import\<lparr>im_syncs := False\<rparr>) (dump_of user_log) no_file evs f')"
proof -
  let ?im = "working_import\<lparr>im_syncs := False\<rparr>"
  obtain r f' where run: "importDump ?im (dump_of user_log) no_file = (r, f')" by fastforce
  obtain evs where "lines_hold (im_range_order ?im) (map Event_MarshalJSON user_log) evs" "list_all2 same_event evs user_log"
    using dump_of_events [OF user_log_ok user_log_valid, of "im_range_order ?im"] by (auto simp: working_import_def)
  then have "below_max (im_range_order ?im) (dump_lines (dump_of user_log))"
    unfolding dump_of_lines [OF user_log_ok]
    by (auto simp: user_log_def list_all2_Cons1 list_all2_Cons2 same_event_def)
  from import_all_or_nothing [OF run this] show ?thesis by (auto simp: run split: sum.splits)
qed

text \<open>C21. What the server writes for its events, line by line, is a dump that the import reads back: into a
  database with the same rows. The events are consecutive and valid, the file and its steps work.\<close>

theorem dump_roundtrip:
  assumes "log_ok L" "list_all (\<lambda>e. EventData_Validate (ev_data e) = None) L" "L \<noteq> []"
    and "successively (\<lambda>e e'. ev_sequence e' = ev_sequence e + 1) L"
    and "im = working_import\<lparr>im_range_order := range_order\<rparr>" "\<And>kvs. mset (range_order kvs) = mset kvs" "\<not> f_exists f"
  shows "\<exists>tally f'. importDump im (dump_of L) f = (Inr tally, f') \<and> file_copy f' L \<and> su_count tally = int (length L)"
proof -
  obtain evs where evs: "lines_hold range_order (dump_lines (dump_of L)) evs" and same: "list_all2 same_event evs L"
    using dump_of_events [OF assms(1,2,6)] dump_of_lines [OF assms(1)] by metis
  have rows: "map row_of evs = map row_of L" using same by (induction rule: list_all2_induct) (simp_all add: same_event_row)
  note seqs = same_rows_sequences [OF rows]
  have below: "below_max range_order (dump_lines (dump_of L))"
  proof -
    have "\<forall>n\<in>set (map ev_sequence L). n < max_i64" using assms(1) by (auto simp: log_ok_def list_all_iff)
    then have "list_all (\<lambda>e. ev_sequence e < max_i64) evs" by (simp only: seqs [symmetric]) (simp add: list_all_iff)
    with evs show ?thesis by (induction rule: list_all2_induct) simp_all
  qed
  have "successively (\<lambda>m n. n = m + 1) (map ev_sequence evs)" using assms(4) by (simp only: seqs successively_map)
  then have consecutive: "successively (\<lambda>e e'. ev_sequence e' = ev_sequence e + 1) ([] @ [] @ evs)" by (simp only: successively_map) simp
  have "length evs = length L" using same by (rule list_all2_lengthD)
  then have nonempty: "[] @ [] @ evs \<noteq> []" using assms(3) by auto
  obtain st f1 where opened: "Open (\<lambda>_. False) no_faults temp_file = (Inr st, f1)" using temp_file_opens by blast
  note start = import_part_start [OF Open_temp_file(1) [OF opened]]
  obtain tally st1 where run: "writeEvents range_order (\<lambda>_. no_faults) (dump_of L) st = (Inr tally, st1)"
    using write_lines_completes [OF evs start below nonempty consecutive, of importBatch 0 0]
    by (auto simp: writeEvents_def dump_of_def)
  have part: "import_part evs [] tally st1"
  proof -
    obtain evs2 where evs2: "lines_hold range_order (dump_lines (dump_of L)) evs2" "import_part evs2 [] tally st1"
      using write_lines_Inr [OF run [unfolded writeEvents_def] start below] by auto
    have "evs2 = evs" by (rule lines_hold_unique [OF evs2(1) evs])
    then show ?thesis using evs2(2) by simp
  qed
  have "importDump im (dump_of L) f = (Inr tally, Close st1 f1)"
    using assms(7) opened run by (simp add: assms(5) importDump_def working_import_def)
  moreover have "file_copy (Close st1 f1) L"
  proof -
    have "copy_of st1 evs" using part by (simp add: import_part_def)
    from file_copy_Close [OF this] show ?thesis by (simp add: file_copy_def rows)
  qed
  moreover have "su_count tally = int (length L)"
    using import_partD [OF part] \<open>length evs = length L\<close> by (simp add: tally_of_def)
  ultimately show ?thesis by blast
qed

theorem dump_roundtrip_witness:
  "\<exists>tally f'. importDump working_import (dump_of user_log) no_file = (Inr tally, f') \<and> file_copy f' user_log \<and>
     su_count tally = int (length user_log)"
proof (rule dump_roundtrip [OF user_log_ok user_log_valid])
  show "working_import = working_import\<lparr>im_range_order := \<lambda>kvs. kvs\<rparr>" by (simp add: working_import_def)
qed (simp_all add: user_log_def no_backup_file)

end
