(* ===== verification/Spec2Isabelle.thy ===== *)
theory Spec2Isabelle
  imports Lifetime Dump
begin

text \<open>
  TamarackDB: an event store with dynamic consistency boundaries, written in Go on SQLite. Clients
  append events to one log over HTTP, read them back by query, and make decisions: they read, in a
  transaction, and their write goes through only if nothing that they read has changed since. This
  development models the program under src/ and proves what makes it correct.

  The program's parts, and how they interact. A request enters package api (\<open>Server.ServeHTTP\<close>), which
  authenticates it, reads and checks its body, and calls package store for a read, package writer
  for a write outside transactions, or package tx. The Registry of tx holds the open transactions in
  memory. Its commit takes a turn in the FIFO (package queue) through the Writer, and the turn's work
  is one write transaction of the Store on SQLite. A pause closes the Registry and is recorded in the
  database, so a restart finds it. Packages dcb, projection, names and ndjson define the data, its
  validation and its JSON; config reads the settings of the commands; the commands are the server,
  the backup tool, which copies a server's log page by page over HTTP, the tool that creates a
  database, empty or from a dump, and the tool that migrates one.

  The theories, in the order of their imports, with the sources each translates (under src/internal,
  or src/cmd for the commands):

  Prelude: 64-bit wrap-around (\<open>i64\<close>), loops that stop at the first error, the locales \<open>validator\<close> (a
  check that accepts exactly what a predicate says) and \<open>machine\<close> (a step relation, the states it
  reaches, and the rule of invariants), and lemmas on lists that several components use.

  Names (names/names.go), Utf8 (Go's unicode/utf8), Ndjson (ndjson/encoder.go), Gotime and Timetext
  (times and \<open>dcb.TimeLayout\<close>, written and read), Event and Compact (dcb/event.go), Quote (\<open>strconv.Quote\<close>),
  Query (dcb/query.go), Projection (projection/projection.go): the data, byte for byte where bytes
  matter. Structs are records, Go strings are lists of bytes, slices are lists, and a slice whose
  being nil matters is an option. The lemmas give for each validator exactly what it accepts, for each
  JSON form that it is read back, and for the removal of duplicate query items that no match is
  lost; the key of an item is unambiguous because its lines are (locale \<open>self_delimiting\<close>).

  Sql and Tables (store/query.go, the statements of store/*.go, the schema of store/schema.go): the
  text of each statement, and its effect on the tables, a record of row lists with the constraints of
  the schema. The property of Tables says that the database and \<open>Query.Matches\<close> agree.

  Store (store/append.go, read.go, import.go, projection.go, pause.go, errors.go, sqlite.go): every
  operation of an open store on its state, the committed tables, the counter of positions and the time
  of the pause. Eventlog and Storelog state what these promise over an abstract log, \<open>spec\<close>, related to
  the tables by \<open>store_rep\<close>, and prove each operation refines its promise. What transactions
  rely on is the locale \<open>event_store\<close>, interpreted on the model's \<open>ReadDecision\<close> and \<open>Append\<close>.
  Dbfile (store/sqlite.go, lock.go, schema.go, migrate.go): the file itself, its lock, opening,
  closing and migrating.

  Fifo (queue/*.go) and Writer (writer/*.go): the ticket line as a step relation over the critical
  sections of its functions, with tickets that wrap, and the work of one turn.

  Transaction and Netwrites (tx/tx.go, tx/projections.go), Registry (tx/tx.go, pause.go, stats.go),
  Commits and Interleave: what each call does to one transaction; the view a transaction has of
  projections, and the one write per projection its commit makes of it; the Registry, each critical
  section of its mutex one operation, with expiry at every one; what a commit means; and the step
  relation \<open>sys_step\<close> that interleaves the critical sections of any number of clients.

  Json, Wire, Request, Api, Serving (api/*.go): JSON text as \<open>encoding/json\<close> reads it, bodies decoded
  and checked, the handler of every endpoint with its errors, statuses and lines, routes,
  authentication and levels, and what the server as a whole keeps from request to request.

  Settings (config/*.go), Startup and Lifetime (cmd/tamarackdb-server): the configuration from its file, its
  environment and its defaults, the start of a server, and its life until its file is closed. Backup
  (cmd/tamarackdb-backup): the tool against the locale \<open>log_source\<close>, any server that sends the first
  lines of the page it was asked for, and the interpretation of that locale on the Server of this
  development. Dump (cmd/tamarackdb-init, cmd/tamarackdb-migrate): the lines of a dump, their import
  into a temporary file, and the file's final name.

  Conventions. An error is a value: \<open>'e option\<close> for a function that returns an error, \<open>'e + 'a\<close> for a
  value or an error. Which error it is, is modelled; its text is not. Times are microseconds since
  year 1, with zero for the zero time. Sequence Positions are int with \<open>i64\<close> at each addition that Go
  makes; tickets of the FIFO are 64-bit words; counters that only count are nat. A statement that
  SQLite refuses, for whatever reason, is an argument, \<open>faults\<close>, a function of how many statements ran
  before it; so are the clock, the identifiers drawn, the size of the WAL, the iteration order of
  maps, the table of printable characters, sha256, the TOML decoder, \<open>url.Parse\<close>, and the delivery of
  bytes to a client or from a server. Theorems quantify over all of these, so they hold whatever goes
  wrong; hypotheses on them are stated where they are needed, such as that a map's iteration gives
  each entry once.

  Bounds and fuel. Every loop is a structural or well-founded recursion, except where it may go on as
  long as a server answers: \<open>read_pages\<close> and \<open>copy_pages\<close> take the number of pages as fuel, and
  the properties of Storelog and Backup about their end prove that one more page than there are events
  is enough.
  The depth of JSON is limited to 10000 as in \<open>encoding/json\<close>, lines of the backup tool to 16 MiB, and
  the position \<open>2 ^ 63 - 1\<close> is excluded where the counter must go on after it.

  What the lemmas show, by group: validators and encoders are exact (Event, Query, Ndjson, Wire);
  statements agree with the reference matcher (Sql, Tables); the store refines a log (Eventlog,
  Storelog), also across restarts and migrations (Dbfile); turns are exclusive, in order and not
  lost (Fifo); transactions are serialisable, all or nothing, within their limits, and frozen by a pause
  (Netwrites, Commits, Interleave); every request is answered once, keeps the server in order and
  changes the log only the way its endpoint may (Serving); configurations, starts, backups and imports do what
  they say (Settings, Startup, Backup, Dump). The theorem of this theory composes them over the
  life of a process.

  Not modelled: the texts of errors, log lines and usage messages; flags, banners and starter
  configurations of the commands; signals themselves, and the timeouts of net/http; the profiling endpoints
  of development mode and write deadlines; a COMMIT of SQLite that fails after it took effect; a
  power loss in the middle of a write (SQLite's own promise); handlers interleaved inside
  Api, whose interleavings are those of Interleave; reads of the log while a write commits, which
  SQLite isolates; tamarackdb-demo, a load generator, and buildinfo, a version constant.
\<close>

section \<open>Properties\<close>

text \<open>C6. The life of a server keeps its log: a server that starts on a database,
  answers any requests, each with any faults, and stops for any reason, leaves a database that is whole, unlocked,
  at this version, and can be opened again. Outside development mode it holds every event that
  was there at the start, unchanged and in order, followed only by events at the next positions, without
  a gap. No panic ends the run. Positions must not run out, and the idle timeout must fit a duration.\<close>

theorem server_lifetime:
  assumes "start se path files u = (Inr (c, Some s), files1)" "has_room sha256 arrivals s"
    and "db_log (file_tables (files (DatabasePath c))) evs" "\<forall>e\<in>set evs. 0 < ev_sequence e \<and> ev_sequence e < max_i64"
    and "sc_TxIdleTimeout c \<le> 9223372036" "sc_MaxEventsPerTxRead c < max_i64" "\<forall>n. se_clock se n \<noteq> 0"
  shows "\<exists>f evs'. run_server se path sha256 arrivals reason files u = (Exited (exit_code reason), files1(DatabasePath c := f)) \<and>
    f_exists f \<and> \<not> f_locked f \<and> f_version f = schemaVersion \<and> db_log (file_tables f) evs' \<and>
    (if sc_DevMode c then True
     else \<exists>new. evs' = evs @ new \<and> map ev_sequence new = [last_position evs + 1..last_position evs + int (length new)])"
proof -
  obtain a where s: "server_ok s a" "sp_log a = evs" "sp_next a = last_position evs + 1" "sv_opts s = api_options (se_version se) c"
    and db: "f_exists (files1 (DatabasePath c))" "f_version (files1 (DatabasePath c)) = schemaVersion"
    using start_in_order [OF assms(1,3-7)] by blast
  obtain s' a' where served: "serve_requests sha256 arrivals s = Some s'" "server_ok s' a'"
    "if op_DevMode (sv_opts s) then True else log_extends a a'" using serve_requests_keep [OF s(1) assms(2)] by blast
  obtain s2 f where stop: "shutdown s' (files1 (DatabasePath c)) = (s2, f)" by fastforce
  have "run_server se path sha256 arrivals reason files u = (Exited (exit_code reason), files1(DatabasePath c := f))"
    by (simp add: run_server_def assms(1) served(1) stop)
  moreover have "if sc_DevMode c then True
     else \<exists>new. sp_log a' = evs @ new \<and> map ev_sequence new = [last_position evs + 1..last_position evs + int (length new)]"
    using served(3) s(2-4) by (auto simp: log_extends_def api_options_def)
  ultimately show ?thesis using shutdown_file [OF served(2) db stop] by blast
qed

theorem server_lifetime_witness:
  "\<exists>files f. run_server plain_start ''config.toml'' (\<lambda>x. x) [\<lparr>ar_env = quiet_env, ar_gone = (\<lambda>_. False), ar_request = begin_request\<rparr>]
       Signalled (\<lambda>_. empty_database) plain_unix = (Exited 0, files(DatabasePath plain_config := f)) \<and> f_exists f \<and> \<not> f_locked f"
proof -
  obtain s f0 where start: "start plain_start ''config.toml'' (\<lambda>_. empty_database) plain_unix =
      (Inr (plain_config, Some s), (\<lambda>_. empty_database)(DatabasePath plain_config := f0))"
    and cfg: "r_cfg (sv_txs s) = tx_config plain_config" by (rule plain_start_runs)
  obtain a where "server_ok s a" "sp_next a = 1"
    using start_in_order [OF start plain_start_ready(1) _ plain_start_ready(2-4)] by (auto simp: last_position_def)
  then have "st_nextSeq (sv_store s) = 1" using reg_okD(3) by (auto simp: store_rep_def)
  then have room: "has_room (\<lambda>x. x) [\<lparr>ar_env = quiet_env, ar_gone = (\<lambda>_. False), ar_request = begin_request\<rparr>] s"
    by (simp add: cfg tx_config_def plain_config_def quiet_env_def split: option.split)
  show ?thesis
    using server_lifetime [OF start room plain_start_ready(1) _ plain_start_ready(2-4), of Signalled]
    by (fastforce simp: exit_code_def)
qed

end
